(* ===== verification/Prelude.thy ===== *)
theory Prelude
  imports Main "HOL-Library.Word" "HOL-Library.Code_Target_Nat"
begin

text \<open>
  Shared vocabulary of the development: machine bytes, the result-and-effect
  combinators every component is written with, the relation \<open>keeps\<close> used for
  frame properties, and generic facts about lists and wrap-around arithmetic.
\<close>

named_theorems run_simps \<open>unfolding of the effect combinators on a state\<close>
named_theorems frame_intros \<open>introduction rules for frame properties\<close>

type_synonym byte = "8 word"
type_synonym bytes = "byte list"

section \<open>Fallible, effectful operations\<close>

text \<open>
  A Go function that returns \<open>(T, error)\<close> and changes state is a function from
  the state to a sum (\<open>Inl\<close> for a non-nil error) and the new state. An early
  \<open>return err\<close> is \<open>andThen\<close>; \<open>fmt.Errorf("...: %w", err)\<close> around a call is
  \<open>mapErr\<close>; a \<open>defer\<close> is \<open>deferring\<close>; an error that the code inspects or drops
  is made a value by \<open>attempt\<close>.
\<close>

type_synonym ('e, 's, 'a) io = "'s \<Rightarrow> ('e + 'a) \<times> 's"

definition ret :: "'a \<Rightarrow> ('e, 's, 'a) io" where
  "ret x s = (Inr x, s)"

definition throw :: "'e \<Rightarrow> ('e, 's, 'a) io" where
  "throw e s = (Inl e, s)"

definition andThen :: "('e, 's, 'a) io \<Rightarrow> ('a \<Rightarrow> ('e, 's, 'b) io) \<Rightarrow> ('e, 's, 'b) io" where
  "andThen m f s = (case m s of (Inl e, s') \<Rightarrow> (Inl e, s') | (Inr x, s') \<Rightarrow> f x s')"

definition attempt :: "('e, 's, 'a) io \<Rightarrow> ('f, 's, 'e + 'a) io" where
  "attempt m s = (case m s of (r, s') \<Rightarrow> (Inr r, s'))"

definition mapErr :: "('e \<Rightarrow> 'f) \<Rightarrow> ('e, 's, 'a) io \<Rightarrow> ('f, 's, 'a) io" where
  "mapErr g m s = (case m s of (Inl e, s') \<Rightarrow> (Inl (g e), s') | (Inr x, s') \<Rightarrow> (Inr x, s'))"

definition deferring :: "('s \<Rightarrow> 's) \<Rightarrow> ('e, 's, 'a) io \<Rightarrow> ('e, 's, 'a) io" where
  "deferring c m s = (case m s of (r, s') \<Rightarrow> (r, c s'))"

text \<open>Cleanup that runs only when the operation fails.\<close>

definition onFailure :: "('s \<Rightarrow> 's) \<Rightarrow> ('e, 's, 'a) io \<Rightarrow> ('e, 's, 'a) io" where
  "onFailure c m s = (case m s of (Inl e, s') \<Rightarrow> (Inl e, c s') | (Inr x, s') \<Rightarrow> (Inr x, s'))"

text \<open>A computation whose error is ignored, run for its effect.\<close>

definition ignoring :: "('e, 's, 'a) io \<Rightarrow> 's \<Rightarrow> 's" where
  "ignoring m s = snd (m s)"

definition gets :: "('s \<Rightarrow> 'a) \<Rightarrow> ('e, 's, 'a) io" where
  "gets f s = (Inr (f s), s)"

definition modify :: "('s \<Rightarrow> 's) \<Rightarrow> ('e, 's, unit) io" where
  "modify f s = (Inr (), f s)"

definition liftRes :: "'e + 'a \<Rightarrow> ('e, 's, 'a) io" where
  "liftRes r s = (r, s)"

lemmas io_defs = ret_def throw_def andThen_def attempt_def mapErr_def deferring_def onFailure_def
  ignoring_def gets_def modify_def liftRes_def

lemma ret_run [run_simps]: "ret x s = (Inr x, s)"
  by (simp add: ret_def)

lemma throw_run [run_simps]: "throw e s = (Inl e, s)"
  by (simp add: throw_def)

lemma gets_run [run_simps]: "gets f s = (Inr (f s), s)"
  by (simp add: gets_def)

lemma modify_run [run_simps]: "modify f s = (Inr (), f s)"
  by (simp add: modify_def)

lemma liftRes_run [run_simps]: "liftRes r s = (r, s)"
  by (simp add: liftRes_def)

lemma andThen_Inr: "m s = (Inr x, s') \<Longrightarrow> andThen m f s = f x s'"
  by (simp add: andThen_def)

lemma andThen_Inl: "m s = (Inl e, s') \<Longrightarrow> andThen m f s = (Inl e, s')"
  by (simp add: andThen_def)

lemma andThen_InrE:
  assumes "andThen m f s = (Inr y, s2)"
  obtains x s1 where "m s = (Inr x, s1)" and "f x s1 = (Inr y, s2)"
  using assms by (auto simp: andThen_def split: prod.splits sum.splits)

lemma andThen_cases:
  assumes "andThen m f s = (r, s2)"
  obtains (first) e where "m s = (Inl e, s2)" and "r = Inl e"
  | (second) x s1 where "m s = (Inr x, s1)" and "f x s1 = (r, s2)"
  using assms by (auto simp: andThen_def split: prod.splits sum.splits)

lemma mapErr_InrE:
  assumes "mapErr g m s = (Inr y, s2)"
  shows "m s = (Inr y, s2)"
  using assms by (auto simp: mapErr_def split: prod.splits sum.splits)

section \<open>Frame properties\<close>

text \<open>
  \<open>keeps R m\<close>: whatever \<open>m\<close> returns, the state it leaves is related to the state
  it started from. For a reflexive and transitive \<open>R\<close> the combinators preserve it,
  so a frame property of a whole operation follows from those of its steps.
\<close>

definition keeps :: "('s \<Rightarrow> 's \<Rightarrow> bool) \<Rightarrow> ('e, 's, 'a) io \<Rightarrow> bool" where
  "keeps R m \<longleftrightarrow> (\<forall>s. R s (snd (m s)))"

lemma keepsI: "(\<And>s. R s (snd (m s))) \<Longrightarrow> keeps R m"
  by (simp add: keeps_def)

lemma keepsD: "keeps R m \<Longrightarrow> m s = (r, s') \<Longrightarrow> R s s'"
  unfolding keeps_def by (metis snd_conv)

locale step_relation =
  fixes R :: "'s \<Rightarrow> 's \<Rightarrow> bool"
  assumes R_refl: "R s s"
    and R_trans: "R s t \<Longrightarrow> R t u \<Longrightarrow> R s u"
begin

lemma keeps_pure:
  shows "keeps R (ret x)" and "keeps R (throw e)" and "keeps R (gets f)" and "keeps R (liftRes r)"
  by (simp_all add: keeps_def run_simps R_refl)

lemma keeps_andThen: "keeps R m \<Longrightarrow> (\<And>x. keeps R (f x)) \<Longrightarrow> keeps R (andThen m f)"
  unfolding keeps_def andThen_def
  by (auto split: prod.splits sum.splits) (metis R_trans snd_conv)+

lemma keeps_attempt: "keeps R m \<Longrightarrow> keeps R (attempt m)"
  unfolding keeps_def attempt_def by (auto split: prod.splits) (metis snd_conv)

lemma keeps_mapErr: "keeps R m \<Longrightarrow> keeps R (mapErr g m)"
  unfolding keeps_def mapErr_def by (auto split: prod.splits sum.splits) (metis snd_conv)+

lemma keeps_deferring: "keeps R m \<Longrightarrow> (\<And>s. R s (c s)) \<Longrightarrow> keeps R (deferring c m)"
  unfolding keeps_def deferring_def by (auto split: prod.splits) (metis R_trans snd_conv)

lemma keeps_onFailure: "keeps R m \<Longrightarrow> (\<And>s. R s (c s)) \<Longrightarrow> keeps R (onFailure c m)"
  unfolding keeps_def onFailure_def
  by (auto split: prod.splits sum.splits) (metis R_trans snd_conv)+

lemma ignoring_related: "keeps R m \<Longrightarrow> R s (ignoring m s)"
  by (simp add: keeps_def ignoring_def)

lemma keeps_modify: "(\<And>s. R s (f s)) \<Longrightarrow> keeps R (modify f)"
  by (simp add: keeps_def modify_def)

lemma keeps_if: "(b \<Longrightarrow> keeps R m) \<Longrightarrow> (\<not> b \<Longrightarrow> keeps R n) \<Longrightarrow> keeps R (if b then m else n)"
  by simp

lemma keeps_option:
  "(z = None \<Longrightarrow> keeps R m) \<Longrightarrow> (\<And>x. z = Some x \<Longrightarrow> keeps R (f x)) \<Longrightarrow>
    keeps R (case z of None \<Rightarrow> m | Some x \<Rightarrow> f x)"
  by (cases z) auto

lemma keeps_sum:
  "(\<And>e. z = Inl e \<Longrightarrow> keeps R (g e)) \<Longrightarrow> (\<And>x. z = Inr x \<Longrightarrow> keeps R (f x)) \<Longrightarrow>
    keeps R (case z of Inl e \<Rightarrow> g e | Inr x \<Rightarrow> f x)"
  by (cases z) auto

lemmas keeps_rules = keeps_pure keeps_andThen keeps_attempt keeps_mapErr keeps_deferring
  keeps_onFailure keeps_modify keeps_if keeps_option keeps_sum

end

section \<open>Machine integers\<close>

text \<open>
  Go's \<open>int\<close> and \<open>int64\<close> are 64-bit two's complement on every supported target.
  They are modelled by \<open>int\<close>, with \<open>wrap64\<close> written out where the code can overflow.
\<close>

definition wrap64 :: "int \<Rightarrow> int" where
  "wrap64 x = (x + 2 ^ 63) mod 2 ^ 64 - 2 ^ 63"

definition is_int64 :: "int \<Rightarrow> bool" where
  "is_int64 x \<longleftrightarrow> - (2 ^ 63) \<le> x \<and> x < 2 ^ 63"

lemma wrap64_id: "is_int64 x \<Longrightarrow> wrap64 x = x"
  by (simp add: wrap64_def is_int64_def)

lemma wrap64_range: "is_int64 (wrap64 x)"
proof -
  have "0 \<le> (x + 2 ^ 63) mod 2 ^ 64" and "(x + 2 ^ 63) mod 2 ^ 64 < (2 ^ 64 :: int)"
    by (rule pos_mod_sign pos_mod_bound, simp)+
  then show ?thesis by (simp add: wrap64_def is_int64_def)
qed

section \<open>Lists\<close>

lemma take_drop_append: "i \<le> j \<Longrightarrow> take (j - i) (drop i xs) @ drop j xs = drop i xs"
  by (metis append_take_drop_id drop_drop le_add_diff_inverse2)

lemma nth_eq_imp_in_set: "i < length xs \<Longrightarrow> xs ! i = x \<Longrightarrow> x \<in> set xs"
  by auto

lemma list_all_concat: "list_all P (concat xss) \<longleftrightarrow> list_all (list_all P) xss"
  by (induction xss) auto

end
