(* ===== verification/Go_Sort.thy ===== *)
theory Go_Sort
  imports Prelude "HOL-Library.Multiset"
begin

text \<open>
  Go's \<open>sort.SliceStable\<close>. The model is its insertion sort: each element is sifted left
  past the elements it is strictly less than. The library documents the result for a
  strict weak order only, and for such an order the stable sorted permutation is unique
  (\<open>stable_sort_unique\<close>), so the block size and the merging of longer slices in the
  library do not matter.
\<close>

text \<open>The sorted prefix is kept in reverse, so that sifting starts at its last element.\<close>

fun sift :: "('a \<Rightarrow> 'a \<Rightarrow> bool) \<Rightarrow> 'a \<Rightarrow> 'a list \<Rightarrow> 'a list" where
  "sift lt x [] = [x]"
| "sift lt x (y # ys) = (if lt x y then y # sift lt x ys else x # y # ys)"

fun siftAll :: "('a \<Rightarrow> 'a \<Rightarrow> bool) \<Rightarrow> 'a list \<Rightarrow> 'a list \<Rightarrow> 'a list" where
  "siftAll lt acc [] = acc"
| "siftAll lt acc (x # xs) = siftAll lt (sift lt x acc) xs"

definition sliceStable :: "('a \<Rightarrow> 'a \<Rightarrow> bool) \<Rightarrow> 'a list \<Rightarrow> 'a list" where
  "sliceStable lt xs = rev (siftAll lt [] xs)"

lemma mset_sift [simp]: "mset (sift lt x ys) = add_mset x (mset ys)"
  by (induction ys) auto

lemma mset_siftAll: "mset (siftAll lt acc xs) = mset acc + mset xs"
  by (induction xs arbitrary: acc) auto

lemma mset_sliceStable [simp]: "mset (sliceStable lt xs) = mset xs"
  by (simp add: sliceStable_def mset_siftAll)

lemma set_sliceStable [simp]: "set (sliceStable lt xs) = set xs"
  by (metis mset_sliceStable set_mset_mset)

lemma length_sliceStable [simp]: "length (sliceStable lt xs) = length xs"
  by (metis mset_sliceStable size_mset)

lemma set_sift [simp]: "set (sift lt x ys) = insert x (set ys)"
  by (induction ys) auto

section \<open>Strict weak orders on a carrier\<close>

text \<open>
  \<open>better a b\<close>: \<open>a\<close> goes strictly before \<open>b\<close>. Scores are floating point numbers, whose
  comparison is a strict weak order only away from NaN: \<open>ok\<close> is the carrier.
\<close>

locale preference =
  fixes better :: "'a \<Rightarrow> 'a \<Rightarrow> bool"
    and ok :: "'a \<Rightarrow> bool"
  assumes better_irrefl: "ok x \<Longrightarrow> \<not> better x x"
    and better_trans: "ok x \<Longrightarrow> ok y \<Longrightarrow> ok z \<Longrightarrow> better x y \<Longrightarrow> better y z \<Longrightarrow> better x z"
    and better_cotrans: "ok x \<Longrightarrow> ok y \<Longrightarrow> ok z \<Longrightarrow> better x z \<Longrightarrow> better x y \<or> better y z"
begin

definition tied :: "'a \<Rightarrow> 'a \<Rightarrow> bool" where
  "tied x y \<longleftrightarrow> \<not> better x y \<and> \<not> better y x"

definition ranked :: "'a list \<Rightarrow> bool" where
  "ranked xs \<longleftrightarrow> sorted_wrt (\<lambda>x y. \<not> better y x) xs"

lemma better_asym: "ok x \<Longrightarrow> ok y \<Longrightarrow> better x y \<Longrightarrow> \<not> better y x"
  using better_irrefl better_trans by blast

lemma sift_ranked:
  "ok x \<Longrightarrow> \<forall>y \<in> set ys. ok y \<Longrightarrow> sorted_wrt (\<lambda>a b. \<not> better a b) ys \<Longrightarrow>
    sorted_wrt (\<lambda>a b. \<not> better a b) (sift better x ys)"
proof (induction ys)
  case (Cons y ys)
  show ?case
  proof (cases "better x y")
    case True
    then have "\<not> better y x" using Cons.prems by (simp add: better_asym)
    with True Cons show ?thesis by simp
  next
    case False
    have "\<not> better x z" if "z \<in> set ys" for z
    proof
      assume "better x z"
      then have "better x y \<or> better y z"
        using better_cotrans[of x y z] Cons.prems that by simp
      with False Cons.prems that show False by auto
    qed
    with False Cons.prems show ?thesis by auto
  qed
qed simp

lemma siftAll_ranked:
  "\<forall>y \<in> set acc. ok y \<Longrightarrow> \<forall>x \<in> set xs. ok x \<Longrightarrow> sorted_wrt (\<lambda>a b. \<not> better a b) acc \<Longrightarrow>
    sorted_wrt (\<lambda>a b. \<not> better a b) (siftAll better acc xs)"
  by (induction xs arbitrary: acc) (auto simp: sift_ranked)

lemma ranked_sliceStable: "\<forall>x \<in> set xs. ok x \<Longrightarrow> ranked (sliceStable better xs)"
  using siftAll_ranked[of "[]" xs] by (simp add: ranked_def sliceStable_def sorted_wrt_rev)

text \<open>Equal elements keep their order.\<close>

lemma sift_stable:
  "ok x \<Longrightarrow> ok z \<Longrightarrow> \<forall>y \<in> set ys. ok y \<Longrightarrow>
    filter (tied z) (sift better x ys) = (if tied z x then [x] else []) @ filter (tied z) ys"
proof (induction ys)
  case (Cons y ys)
  have "\<not> (tied z x \<and> tied z y)" if "better x y"
    using that better_cotrans[of x z y] Cons.prems by (auto simp: tied_def)
  with Cons show ?case by (auto simp: tied_def)
qed auto

lemma siftAll_stable:
  "ok z \<Longrightarrow> \<forall>y \<in> set acc. ok y \<Longrightarrow> \<forall>x \<in> set xs. ok x \<Longrightarrow>
    filter (tied z) (siftAll better acc xs) = rev (filter (tied z) xs) @ filter (tied z) acc"
  by (induction xs arbitrary: acc) (auto simp: sift_stable)

lemma sliceStable_stable:
  "ok z \<Longrightarrow> \<forall>x \<in> set xs. ok x \<Longrightarrow> filter (tied z) (sliceStable better xs) = filter (tied z) xs"
  by (simp add: sliceStable_def siftAll_stable flip: rev_filter)

lemma ranked_unique:
  assumes "ranked xs" and "ranked ys" and "mset xs = mset ys"
    and "\<forall>x \<in> set xs. ok x"
    and "\<forall>z \<in> set xs. filter (tied z) xs = filter (tied z) ys"
  shows "xs = ys"
  using assms
proof (induction xs arbitrary: ys)
  case (Cons x xs)
  from Cons.prems(3) obtain y ys' where ys: "ys = y # ys'"
    by (cases ys) auto
  have in_both: "y \<in> set (x # xs)" "x \<in> set ys" "\<forall>v \<in> set ys. ok v"
    using Cons.prems(3,4) ys by (metis list.set_intros(1) mset_eq_setD)+
  have x_self: "tied x x" using Cons.prems(4) by (simp add: tied_def better_irrefl)
  have "tied x y"
    using Cons.prems(1,2,4) in_both ys by (auto simp: ranked_def tied_def better_irrefl)
  then have xy: "x = y"
    using Cons.prems(5) x_self ys by (auto split: if_splits)
  have "filter (tied z) xs = filter (tied z) ys'" if "z \<in> set xs" for z
    using Cons.prems(5)[rule_format, of z] that xy ys by (auto split: if_splits)
  then have "xs = ys'"
    using Cons.IH[of ys'] Cons.prems xy ys by (simp add: ranked_def)
  then show ?case by (simp add: xy ys)
qed simp

lemma stable_sort_unique:
  assumes "\<forall>x \<in> set xs. ok x" and "mset ys = mset xs" and "ranked ys"
    and "\<forall>z \<in> set xs. filter (tied z) ys = filter (tied z) xs"
  shows "ys = sliceStable better xs"
proof (rule ranked_unique)
  show "ranked ys" and "ranked (sliceStable better xs)"
    using assms ranked_sliceStable by auto
  show "mset ys = mset (sliceStable better xs)" using assms by simp
  show "\<forall>x \<in> set ys. ok x" using assms(1,2) by (metis mset_eq_setD)
  show "\<forall>z \<in> set ys. filter (tied z) ys = filter (tied z) (sliceStable better xs)"
    using assms sliceStable_stable by (metis mset_eq_setD)
qed

lemma ranked_nth: "ranked xs \<Longrightarrow> i < j \<Longrightarrow> j < length xs \<Longrightarrow> \<not> better (xs ! j) (xs ! i)"
  unfolding ranked_def using sorted_wrt_nth_less[where P = "\<lambda>x y. \<not> better y x"] by blast

end

end
