(* ===== verification/Go_Float.thy ===== *)
theory Go_Float
  imports Complex_Main Go_Sort "HOL-Library.Log_Nat"
begin

text \<open>
  Go's \<open>float32\<close> and \<open>float64\<close>: IEEE 754 binary formats with round-to-nearest-even.
  A value is NaN, a signed infinity, the negative zero, or a rational number (the
  positive zero is the rational 0). An operation computes the exact result and rounds it
  to its format; \<open>float32\<close> and \<open>float64\<close> values share the type, and \<open>fits\<close> says that
  a value belongs to a format. A conversion from \<open>float32\<close> to \<open>float64\<close> is the
  identity. Everything is executable.
\<close>

section \<open>Values and formats\<close>

datatype gofloat = NaN | Inf bool | NegZero | Num rat

record float_format =
  prec :: nat
  minexp :: int
  topexp :: int

text \<open>\<open>minexp\<close> is the exponent of the smallest subnormal, \<open>topexp\<close> of the first power too large.\<close>

definition f32 :: float_format where
  "f32 = \<lparr>prec = 24, minexp = -149, topexp = 128\<rparr>"

definition f64 :: float_format where
  "f64 = \<lparr>prec = 53, minexp = -1074, topexp = 1024\<rparr>"

definition pow2 :: "int \<Rightarrow> rat" where
  "pow2 e = (if 0 \<le> e then 2 ^ nat e else 1 / 2 ^ nat (- e))"

fun ratOf :: "gofloat \<Rightarrow> rat" where
  "ratOf (Num q) = q"
| "ratOf _ = 0"

fun isFinite :: "gofloat \<Rightarrow> bool" where
  "isFinite (Num q) = True"
| "isFinite NegZero = True"
| "isFinite _ = False"

fun isNegative :: "gofloat \<Rightarrow> bool" where
  "isNegative (Num q) = (q < 0)"
| "isNegative NegZero = True"
| "isNegative (Inf s) = s"
| "isNegative NaN = False"

text \<open>A rational that the format represents: an integer below \<open>2^prec\<close> times a power of two.\<close>

definition represents :: "float_format \<Rightarrow> rat \<Rightarrow> bool" where
  "represents F x \<longleftrightarrow> (\<exists>m k. x = of_int m * pow2 k \<and> \<bar>m\<bar> < 2 ^ prec F \<and> minexp F \<le> k \<and> \<bar>x\<bar> < pow2 (topexp F))"

fun fits :: "float_format \<Rightarrow> gofloat \<Rightarrow> bool" where
  "fits F (Num q) = represents F q"
| "fits F _ = True"

section \<open>Rounding\<close>

text \<open>\<open>\<lfloor>log2 x\<rfloor>\<close> of a positive rational, from the bit lengths of its numerator and denominator.\<close>

definition ilog2 :: "rat \<Rightarrow> int" where
  "ilog2 x = (case quotient_of x of (a, b) \<Rightarrow>
     let e = bitlen a - bitlen b in if pow2 e \<le> x then e else e - 1)"

definition roundEven :: "rat \<Rightarrow> int" where
  "roundEven q = (let n = \<lfloor>q\<rfloor>; r = q - of_int n in
     if r < 1 / 2 then n else if r > 1 / 2 then n + 1 else if even n then n else n + 1)"

text \<open>The unit in the last place of the binade of a positive \<open>x\<close>.\<close>

definition ulpOf :: "float_format \<Rightarrow> rat \<Rightarrow> rat" where
  "ulpOf F x = pow2 (max (ilog2 x - int (prec F) + 1) (minexp F))"

definition withSign :: "bool \<Rightarrow> rat \<Rightarrow> gofloat" where
  "withSign neg y = (if y = 0 then (if neg then NegZero else Num 0) else Num (if neg then - y else y))"

text \<open>Round a non-negative magnitude and put the sign back; \<open>neg\<close> is the sign of the result.\<close>

definition roundMag :: "float_format \<Rightarrow> bool \<Rightarrow> rat \<Rightarrow> gofloat" where
  "roundMag F neg x =
     (if x = 0 then withSign neg 0
      else let u = ulpOf F x; y = of_int (roundEven (x / u)) * u in
        if pow2 (topexp F) \<le> y then Inf neg else withSign neg y)"

definition roundTo :: "float_format \<Rightarrow> rat \<Rightarrow> gofloat" where
  "roundTo F x = roundMag F (x < 0) \<bar>x\<bar>"

section \<open>Operations\<close>

fun fmul :: "float_format \<Rightarrow> gofloat \<Rightarrow> gofloat \<Rightarrow> gofloat" where
  "fmul F NaN y = NaN"
| "fmul F x NaN = NaN"
| "fmul F (Inf s) y =
     (if isFinite y \<and> ratOf y = 0 then NaN else Inf (s \<noteq> isNegative y))"
| "fmul F x (Inf s) =
     (if ratOf x = 0 then NaN else Inf (isNegative x \<noteq> s))"
| "fmul F x y = roundMag F (isNegative x \<noteq> isNegative y) \<bar>ratOf x * ratOf y\<bar>"

fun fadd :: "float_format \<Rightarrow> gofloat \<Rightarrow> gofloat \<Rightarrow> gofloat" where
  "fadd F NaN y = NaN"
| "fadd F x NaN = NaN"
| "fadd F (Inf s) (Inf t) = (if s = t then Inf s else NaN)"
| "fadd F (Inf s) y = Inf s"
| "fadd F x (Inf s) = Inf s"
| "fadd F NegZero NegZero = NegZero"
| "fadd F x y = roundTo F (ratOf x + ratOf y)"

text \<open>Division, for the quotients the code takes: a finite or infinite divisor, any sign.\<close>

fun fdiv :: "float_format \<Rightarrow> gofloat \<Rightarrow> gofloat \<Rightarrow> gofloat" where
  "fdiv F NaN y = NaN"
| "fdiv F x NaN = NaN"
| "fdiv F (Inf s) (Inf t) = NaN"
| "fdiv F (Inf s) y = Inf (s \<noteq> isNegative y)"
| "fdiv F x (Inf t) = withSign (isNegative x \<noteq> t) 0"
| "fdiv F x y =
     (if ratOf y = 0
      then (if ratOf x = 0 then NaN else Inf (isNegative x \<noteq> isNegative y))
      else roundMag F (isNegative x \<noteq> isNegative y) \<bar>ratOf x / ratOf y\<bar>)"

fun isqrt :: "nat \<Rightarrow> nat" where
  "isqrt n = (if n = 0 then 0 else
     let r = 2 * isqrt (n div 4) in if (r + 1) * (r + 1) \<le> n then r + 1 else r)"

declare isqrt.simps [simp del]

text \<open>The square root of a positive rational rounded to 53 bits, ties to even.\<close>

definition sqrtMag :: "rat \<Rightarrow> rat" where
  "sqrtMag x = (let u = pow2 (ilog2 x div 2 - 52); y = x / (u * u);
       n = int (isqrt (nat \<lfloor>y\<rfloor>)); mid = of_int n + 1 / 2;
       k = (if y < mid * mid then n else if mid * mid < y then n + 1
            else if even n then n else n + 1)
     in of_int k * u)"

fun fsqrt :: "gofloat \<Rightarrow> gofloat" where
  "fsqrt NaN = NaN"
| "fsqrt (Inf s) = (if s then NaN else Inf False)"
| "fsqrt NegZero = NegZero"
| "fsqrt (Num q) = (if q < 0 then NaN else if q = 0 then Num 0 else Num (sqrtMag q))"

text \<open>\<open>float32(x)\<close> for a \<open>float64\<close> value \<open>x\<close>.\<close>

fun toF32 :: "gofloat \<Rightarrow> gofloat" where
  "toF32 (Num q) = roundTo f32 q"
| "toF32 x = x"

text \<open>\<open>a > b\<close> and \<open>x == 0\<close>.\<close>

fun fgt :: "gofloat \<Rightarrow> gofloat \<Rightarrow> bool" where
  "fgt NaN y = False"
| "fgt x NaN = False"
| "fgt (Inf s) (Inf t) = (\<not> s \<and> t)"
| "fgt (Inf s) y = (\<not> s)"
| "fgt x (Inf t) = t"
| "fgt x y = (ratOf x > ratOf y)"

fun isZero :: "gofloat \<Rightarrow> bool" where
  "isZero (Num q) = (q = 0)"
| "isZero NegZero = True"
| "isZero _ = False"


section \<open>Powers of two and binades\<close>

lemma pow2_powi: "pow2 e = 2 powi e"
  by (simp add: pow2_def power_int_def power_one_over inverse_eq_divide)

lemma pow2_add: "pow2 (a + b) = pow2 a * pow2 b"
  by (simp add: pow2_powi power_int_add)

lemma pow2_diff: "pow2 (a - b) = pow2 a / pow2 b"
  by (simp add: pow2_powi power_int_diff)

lemma pow2_pos [simp]: "0 < pow2 e"
  by (simp add: pow2_powi)

lemma pow2_not_le_0 [simp]: "\<not> pow2 e \<le> 0"
  by (simp add: not_le)

lemma pow2_not_less_0 [simp]: "\<not> pow2 e < 0"
  using pow2_pos[of e] by linarith

lemma pow2_leD: "pow2 e \<le> x \<Longrightarrow> 0 < x"
  using pow2_pos less_le_trans by blast

lemma pow2_nonzero [simp]: "pow2 e \<noteq> 0"
  by (simp add: pow2_powi)

lemma pow2_ge0 [simp]: "0 \<le> pow2 e"
  by (simp add: pow2_powi)

lemma pow2_0 [simp]: "pow2 0 = 1"
  by (simp add: pow2_def)

lemma pow2_strict_mono: "a < b \<Longrightarrow> pow2 a < pow2 b"
  by (simp add: pow2_powi power_int_strict_increasing)

lemma pow2_less_iff: "pow2 a < pow2 b \<longleftrightarrow> a < b"
  using pow2_strict_mono[of a b] pow2_strict_mono[of b a] by (cases a b rule: linorder_cases) auto

lemma pow2_le_iff: "pow2 a \<le> pow2 b \<longleftrightarrow> a \<le> b"
  by (simp flip: not_less add: pow2_less_iff)

lemma pow2_nat: "pow2 (int n) = 2 ^ n"
  by (simp add: pow2_def)

lemma pow2_of_int: "0 \<le> k \<Longrightarrow> pow2 k = of_int (2 ^ nat k)"
  by (simp add: pow2_def)

lemma pow2_1 [simp]: "pow2 1 = 2"
  by (simp add: pow2_def)

lemma pow2_Suc: "pow2 (e + 1) = 2 * pow2 e"
  by (simp add: pow2_add)

lemma ilog2_bounds:
  assumes "0 < x"
  shows "pow2 (ilog2 x) \<le> x" and "x < pow2 (ilog2 x + 1)"
proof -
  obtain a b where q: "quotient_of x = (a, b)" by fastforce
  then have b: "0 < b" and x: "x = of_int a / of_int b"
    using quotient_of_denom_pos quotient_of_div by blast+
  with assms have a: "0 < a" by (simp add: zero_less_divide_iff)
  define e where "e = bitlen a - bitlen b"
  have bits: "pow2 (bitlen c - 1) \<le> of_int c \<and> of_int c < pow2 (bitlen c)" if "0 < c" for c :: int
  proof -
    have "2 ^ nat (bitlen c - 1) \<le> c" and "c < 2 ^ nat (bitlen c)"
      using bitlen_bounds[OF that] by auto
    moreover have "1 \<le> bitlen c"
      using that by (metis bitlen_nonneg bitlen_eq_zero_iff less_le not_less one_le_numeral zless_imp_add1_zle add_0)
    ultimately show ?thesis
      by (simp add: pow2_of_int del: of_int_power)
  qed
  have lo: "pow2 (e - 1) < x"
  proof -
    have "pow2 (e - 1) * of_int b < pow2 (e - 1) * pow2 (bitlen b)"
      using bits[OF b] by simp
    also have "\<dots> = pow2 (bitlen a - 1)"
      by (simp add: e_def flip: pow2_add)
    also have "\<dots> \<le> of_int a" using bits[OF a] by simp
    finally show ?thesis using b by (simp add: x field_simps)
  qed
  have hi: "x < pow2 (e + 1)"
  proof -
    have "of_int a < pow2 (bitlen a)" using bits[OF a] by simp
    also have "\<dots> = pow2 (e + 1) * pow2 (bitlen b - 1)"
      by (simp add: e_def flip: pow2_add)
    also have "\<dots> \<le> pow2 (e + 1) * of_int b" using bits[OF b] by simp
    finally show ?thesis using b by (simp add: x field_simps)
  qed
  have il: "ilog2 x = (if pow2 e \<le> x then e else e - 1)"
    by (simp add: ilog2_def q e_def Let_def)
  show "pow2 (ilog2 x) \<le> x" using lo by (simp add: il less_imp_le)
  show "x < pow2 (ilog2 x + 1)" using hi by (simp add: il)
qed

lemma ilog2_unique:
  assumes "pow2 e \<le> x" and "x < pow2 (e + 1)"
  shows "ilog2 x = e"
proof -
  have x: "0 < x" using assms(1) pow2_pos less_le_trans by blast
  have "pow2 (ilog2 x) < pow2 (e + 1)" and "pow2 e < pow2 (ilog2 x + 1)"
    using ilog2_bounds[OF x] assms by linarith+
  then show ?thesis by (simp add: pow2_less_iff)
qed

lemma ilog2_pow2 [simp]: "ilog2 (pow2 e) = e"
  by (rule ilog2_unique) (simp_all add: pow2_le_iff pow2_less_iff)

section \<open>Rounding\<close>

lemma roundEven_of_int [simp]: "roundEven (of_int n) = n"
  by (simp add: roundEven_def)

lemma roundEven_err: "\<bar>of_int (roundEven q) - q\<bar> \<le> 1 / 2"
proof -
  have "of_int \<lfloor>q\<rfloor> \<le> q" and "q < of_int \<lfloor>q\<rfloor> + 1" by linarith+
  then show ?thesis by (auto simp: roundEven_def Let_def abs_le_iff)
qed

lemma roundEven_ge: "of_int n \<le> q \<Longrightarrow> n \<le> roundEven q"
  by (auto simp: roundEven_def Let_def le_floor_iff intro: add_increasing2)

lemma roundEven_le: "q \<le> of_int n \<Longrightarrow> roundEven q \<le> n"
proof (cases "q = of_int n")
  case False
  assume "q \<le> of_int n"
  with False have "q < of_int n" by simp
  then have "\<lfloor>q\<rfloor> + 1 \<le> n" by linarith
  then show ?thesis by (auto simp: roundEven_def Let_def)
qed simp

lemma ulpOf_pos [simp]: "0 < ulpOf F x"
  by (simp add: ulpOf_def)

lemma withSign_nonzero [simp]: "y \<noteq> 0 \<Longrightarrow> withSign False y = Num y"
  by (simp add: withSign_def)

text \<open>A representable value is a multiple of its unit in the last place, so it rounds to itself.\<close>

lemma ulpOf_represents:
  assumes "0 < x" and "x = of_int m * pow2 k" and "\<bar>m\<bar> < 2 ^ prec F" and "minexp F \<le> k"
  obtains n where "x = of_int n * ulpOf F x"
proof -
  let ?j = "max (ilog2 x - int (prec F) + 1) (minexp F)"
  have "m < 2 ^ prec F" using assms(3) by simp
  then have "of_int m < pow2 (int (prec F))"
    by (simp add: pow2_nat)
  then have "x < pow2 (int (prec F) + k)"
    using assms(2) by (simp add: pow2_add)
  then have "pow2 (ilog2 x) < pow2 (int (prec F) + k)"
    using ilog2_bounds(1)[OF assms(1)] by linarith
  then have j: "?j \<le> k" using assms(4) by (simp add: pow2_less_iff)
  have "pow2 k = pow2 (k - ?j) * pow2 ?j" by (simp flip: pow2_add)
  also have "pow2 (k - ?j) = of_int (2 ^ nat (k - ?j))" using j by (simp add: pow2_of_int)
  finally have "x = of_int (m * 2 ^ nat (k - ?j)) * ulpOf F x"
    using assms(2) by (simp add: ulpOf_def)
  then show ?thesis by (rule that)
qed

lemma roundMag_represents:
  assumes "represents F x" and "0 < x"
  shows "roundMag F neg x = Num (if neg then - x else x)"
proof -
  from assms(1) obtain m k where mk: "x = of_int m * pow2 k" "\<bar>m\<bar> < 2 ^ prec F" "minexp F \<le> k"
    and top: "\<bar>x\<bar> < pow2 (topexp F)"
    by (auto simp: represents_def)
  obtain n where n: "x = of_int n * ulpOf F x"
    using ulpOf_represents[OF assms(2) mk] .
  have u: "ulpOf F x \<noteq> 0" using ulpOf_pos[of F x] by linarith
  have "x / ulpOf F x = of_int n" using n u by (metis nonzero_mult_div_cancel_right)
  then have "of_int (roundEven (x / ulpOf F x)) * ulpOf F x = x" using n by simp
  with assms(2) top show ?thesis by (simp add: roundMag_def Let_def withSign_def)
qed

lemma represents_abs: "represents F \<bar>x\<bar> \<longleftrightarrow> represents F x"
proof -
  have flip: "represents F (- y)" if yr: "represents F y" for y
  proof -
    from yr obtain m k where "y = of_int m * pow2 k" "\<bar>m\<bar> < 2 ^ prec F" "minexp F \<le> k"
      "\<bar>y\<bar> < pow2 (topexp F)" by (auto simp: represents_def)
    then show ?thesis unfolding represents_def
      by (intro exI[of _ "- m"] exI[of _ k]) simp
  qed
  show ?thesis using flip[of x] flip[of "- x"] by (cases "0 \<le> x") auto
qed

lemma roundTo_represents: "represents F x \<Longrightarrow> roundTo F x = Num x"
proof (cases "x = 0")
  case False
  assume "represents F x"
  then have "represents F \<bar>x\<bar>" by (simp add: represents_abs)
  then have "roundMag F (x < 0) \<bar>x\<bar> = Num (if x < 0 then - \<bar>x\<bar> else \<bar>x\<bar>)"
    using False by (intro roundMag_represents) auto
  then show ?thesis by (simp add: roundTo_def)
qed (simp add: roundTo_def roundMag_def withSign_def)

text \<open>A positive value at or above the smallest subnormal never rounds to zero.\<close>

lemma roundMag_positive:
  assumes "pow2 (minexp F) \<le> x" and "1 \<le> prec F"
  shows "roundMag F False x = Inf False \<or> (\<exists>q. pow2 (minexp F) \<le> q \<and> roundMag F False x = Num q)"
proof -
  have x: "0 < x" using assms(1) pow2_pos less_le_trans by blast
  have "ulpOf F x \<le> x"
  proof -
    have "pow2 (ilog2 x - int (prec F) + 1) \<le> pow2 (ilog2 x)"
      using assms(2) by (simp add: pow2_le_iff)
    then have "pow2 (ilog2 x - int (prec F) + 1) \<le> x"
      using ilog2_bounds(1)[OF x] by linarith
    with assms(1) show ?thesis by (simp add: ulpOf_def max_def)
  qed
  then have "1 \<le> x / ulpOf F x" by simp
  then have "1 \<le> roundEven (x / ulpOf F x)" using roundEven_ge[of 1] by simp
  moreover have "pow2 (minexp F) \<le> ulpOf F x" by (simp add: ulpOf_def pow2_le_iff)
  ultimately have "1 * pow2 (minexp F) \<le> of_int (roundEven (x / ulpOf F x)) * ulpOf F x"
    by (intro mult_mono) auto
  moreover from this have "0 < of_int (roundEven (x / ulpOf F x)) * ulpOf F x"
    using pow2_pos[of "minexp F"] by linarith
  ultimately show ?thesis using x by (auto simp: roundMag_def Let_def withSign_def)
qed

text \<open>At or above the overflow threshold the result is infinite.\<close>

lemma roundMag_overflow:
  assumes "pow2 (topexp F) \<le> x" and "minexp F \<le> topexp F - int (prec F)" and "1 \<le> prec F"
  shows "roundMag F neg x = Inf neg"
proof -
  let ?u = "ulpOf F x"
  have x: "0 < x" using assms(1) pow2_pos less_le_trans by blast
  have "pow2 (topexp F) < pow2 (ilog2 x + 1)" using ilog2_bounds(2)[OF x] assms(1) by linarith
  then have e: "topexp F \<le> ilog2 x" by (simp add: pow2_less_iff)
  with assms(2,3) have u: "?u = pow2 (ilog2 x - int (prec F) + 1)" by (simp add: ulpOf_def max_def)
  have "pow2 (ilog2 x) = of_int (2 ^ nat (int (prec F) - 1)) * ?u"
  proof -
    have "pow2 (ilog2 x) = pow2 (int (prec F) - 1) * pow2 (ilog2 x - int (prec F) + 1)"
      by (simp flip: pow2_add)
    then show ?thesis using assms(3) by (simp add: u pow2_of_int)
  qed
  moreover have "2 ^ nat (int (prec F) - 1) \<le> roundEven (x / ?u)"
  proof (rule roundEven_ge)
    show "of_int (2 ^ nat (int (prec F) - 1)) \<le> x / ?u"
      using ilog2_bounds(1)[OF x] calculation by (simp add: field_simps del: of_int_power)
  qed
  ultimately have "pow2 (ilog2 x) \<le> of_int (roundEven (x / ?u)) * ?u"
    by (simp add: mult_right_mono del: of_int_power)
  moreover have "pow2 (topexp F) \<le> pow2 (ilog2 x)" using e by (simp add: pow2_le_iff)
  ultimately show ?thesis using x by (simp add: roundMag_def Let_def)
qed


lemma represents_0 [simp]: "represents F 0"
  unfolding represents_def by (intro exI[of _ 0] exI[of _ "minexp F"]) simp

lemma isZero_fits: "isZero v \<Longrightarrow> fits F v"
  by (cases v) auto

text \<open>Small integers round to themselves; the rules evaluate concrete sums and products.\<close>

lemma represents_small_int: "\<bar>m\<bar> < 2 ^ 24 \<Longrightarrow> represents f64 (of_int m)"
proof -
  assume m: "\<bar>m\<bar> < 2 ^ 24"
  then have "\<bar>of_int m\<bar> < (of_int (2 ^ 24) :: rat)" by (simp only: flip: of_int_abs)
  also have "\<dots> = pow2 24" by (simp add: pow2_of_int)
  also have "\<dots> < pow2 1024" by (rule pow2_strict_mono) simp
  finally show ?thesis
    unfolding represents_def using m
    by (intro exI[of _ m] exI[of _ 0]) (simp add: f64_def)
qed

lemma represents_numeral: "(numeral n :: int) < 2 ^ 24 \<Longrightarrow> represents f64 (numeral n)"
  using represents_small_int[of "numeral n"] by simp

lemma represents_one: "represents f64 1"
  using represents_small_int[of 1] by simp

lemmas float_eval = roundTo_represents[OF represents_numeral] roundTo_represents[OF represents_one]
  roundTo_represents[OF represents_0] roundMag_represents[OF represents_numeral]
  roundMag_represents[OF represents_one] roundMag_def[of F n 0 for F n, simplified] withSign_def

section \<open>Exactness of float32 products\<close>

text \<open>
  The product of two \<open>float32\<close> values has at most 48 significant bits, so its \<open>float64\<close>
  value is exact: a fused multiply-add, which Go allows a compiler to emit, gives the
  same sum as the separate operations.
\<close>

lemma represents_product:
  assumes "represents f32 x" and "represents f32 y"
  shows "represents f64 (x * y)"
proof -
  from assms obtain m k n l where mk: "x = of_int m * pow2 k" "\<bar>m\<bar> < 2 ^ 24" "-149 \<le> k"
    and nl: "y = of_int n * pow2 l" "\<bar>n\<bar> < 2 ^ 24" "-149 \<le> l"
    and bnd: "\<bar>x\<bar> < pow2 128" "\<bar>y\<bar> < pow2 128"
    by (auto simp: represents_def f32_def)
  have "\<bar>m\<bar> * \<bar>n\<bar> \<le> 2 ^ 24 * 2 ^ 24"
    using mk(2) nl(2) by (intro mult_mono) auto
  also have "\<dots> < (2 ^ 53 :: int)" by simp
  finally have mn: "\<bar>m * n\<bar> < 2 ^ 53" by (simp add: abs_mult)
  have "\<bar>x * y\<bar> \<le> pow2 128 * pow2 128"
    using bnd unfolding abs_mult by (intro mult_mono) auto
  also have "\<dots> = pow2 256" by (simp flip: pow2_add)
  also have "\<dots> < pow2 1024" by (simp add: pow2_less_iff)
  finally have "\<bar>x * y\<bar> < pow2 1024" .
  moreover have "x * y = of_int (m * n) * pow2 (k + l)"
    by (simp add: mk(1) nl(1) pow2_add)
  ultimately show ?thesis
    unfolding represents_def using mn mk(3) nl(3)
    by (intro exI[of _ "m * n"] exI[of _ "k + l"]) (auto simp: f64_def)
qed

lemma represents_mono: "represents f32 x \<Longrightarrow> represents f64 x"
proof -
  assume "represents f32 x"
  moreover have "represents f32 1"
    unfolding represents_def
    by (intro exI[of _ 1] exI[of _ 0]) (simp add: f32_def pow2_def)
  ultimately show ?thesis using represents_product[of x 1] by simp
qed

lemma fmul_exact:
  assumes "fits f32 a" and "fits f32 b" and "isFinite a" and "isFinite b"
  shows "isFinite (fmul f64 a b)" and "ratOf (fmul f64 a b) = ratOf a * ratOf b"
    and "fits f64 (fmul f64 a b)"
proof -
  have rep: "represents f32 (ratOf x)" if "fits f32 x" for x
    using that by (cases x) (auto simp: represents_def f32_def intro!: exI[of _ 0] exI[of _ "0 :: int"])
  let ?p = "ratOf a * ratOf b"
  have p: "represents f64 \<bar>?p\<bar>"
    using rep[OF assms(1)] rep[OF assms(2)] represents_product represents_abs by blast
  have eq: "fmul f64 a b = roundMag f64 (isNegative a \<noteq> isNegative b) \<bar>?p\<bar>"
    using assms(3,4) by (cases a; cases b) auto
  have sg: "(isNegative a \<noteq> isNegative b) = (?p < 0)" if "?p \<noteq> 0"
    using that assms(3,4) by (cases a; cases b) (auto simp: mult_less_0_iff)
  have "fmul f64 a b = Num ?p" if "?p \<noteq> 0"
    using roundMag_represents[OF p] that sg[OF that] by (simp add: eq)
  moreover have "fmul f64 a b = Num 0 \<or> fmul f64 a b = NegZero" if "?p = 0"
    using that by (simp add: eq roundMag_def withSign_def)
  moreover have "represents f64 ?p" using p by (simp add: represents_abs)
  ultimately show "isFinite (fmul f64 a b)" and "ratOf (fmul f64 a b) = ?p"
    and "fits f64 (fmul f64 a b)"
    by (cases "?p = 0"; fastforce)+
qed

section \<open>Comparison\<close>

lemma fgt_finite: "isFinite a \<Longrightarrow> isFinite b \<Longrightarrow> fgt a b \<longleftrightarrow> ratOf b < ratOf a"
  by (cases a; cases b) auto

lemma not_NaN_cases: "x \<noteq> NaN \<longleftrightarrow> x = Inf True \<or> x = Inf False \<or> isFinite x"
  by (cases x) auto

lemma fgt_simps [simp]:
  "\<not> fgt x NaN" "fgt x (Inf True) \<longleftrightarrow> x \<noteq> NaN \<and> x \<noteq> Inf True" "\<not> fgt (Inf True) x"
  "\<not> fgt x (Inf False)" "fgt (Inf False) x \<longleftrightarrow> x \<noteq> NaN \<and> x \<noteq> Inf False"
  by (cases x; auto)+

interpretation score: preference fgt "\<lambda>x. x \<noteq> NaN"
proof
  show "\<not> fgt x x" for x by (cases x) auto
  show "fgt x z" if "x \<noteq> NaN" "y \<noteq> NaN" "z \<noteq> NaN" "fgt x y" "fgt y z" for x y z
    using that unfolding not_NaN_cases by (elim disjE) (auto simp: fgt_finite)
  show "fgt x y \<or> fgt y z" if "x \<noteq> NaN" "y \<noteq> NaN" "z \<noteq> NaN" "fgt x z" for x y z
    using that unfolding not_NaN_cases by (elim disjE) (auto simp: fgt_finite)
qed

section \<open>Square roots of even powers of two\<close>

lemma isqrt_bounds: "isqrt n * isqrt n \<le> n \<and> n < (isqrt n + 1) * (isqrt n + 1)"
proof (induction n rule: isqrt.induct)
  case (1 n)
  show ?case
  proof (cases "n = 0")
    case False
    define r where "r = isqrt (n div 4)"
    have IH: "r * r \<le> n div 4" "n div 4 < (r + 1) * (r + 1)"
      using 1 False by (auto simp: r_def)
    have lo: "(2 * r) * (2 * r) \<le> n" using IH(1) by (simp add: algebra_simps)
    have "n < 4 * (n div 4 + 1)" by simp
    also have "\<dots> \<le> 4 * ((r + 1) * (r + 1))" using IH(2) by simp
    also have "\<dots> = (2 * r + 2) * (2 * r + 2)" by (simp add: algebra_simps)
    finally have hi: "n < (2 * r + 2) * (2 * r + 2)" .
    show ?thesis
      using lo hi False by (subst (1 2 3 4) isqrt.simps) (simp add: Let_def flip: r_def)
  qed (simp add: isqrt.simps)
qed

lemma isqrt_square: "isqrt (k * k) = k"
proof -
  let ?r = "isqrt (k * k)"
  have b: "?r * ?r \<le> k * k" "k * k < (?r + 1) * (?r + 1)" using isqrt_bounds by blast+
  have "\<not> k < ?r" using b(1) mult_strict_mono[of k ?r k ?r] by auto
  moreover have "\<not> ?r + 1 \<le> k" using b(2) mult_le_mono[of "?r + 1" k "?r + 1" k] by linarith
  ultimately show ?thesis by simp
qed

lemma fsqrt_pow2: "fsqrt (Num (pow2 (2 * e))) = Num (pow2 e)"
proof -
  define u where "u = pow2 (e - 52)"
  have "pow2 (2 * e) = pow2 104 * (u * u)" by (simp add: u_def flip: pow2_add)
  then have y: "pow2 (2 * e) / (u * u) = 2 ^ 104"
    by (simp add: u_def) (simp add: pow2_def)
  have root: "isqrt (nat \<lfloor>2 ^ 104 :: rat\<rfloor>) = 2 ^ 52"
  proof -
    have "nat \<lfloor>2 ^ 104 :: rat\<rfloor> = 2 ^ 52 * 2 ^ 52" by simp
    then show ?thesis by (simp only: isqrt_square)
  qed
  have "sqrtMag (pow2 (2 * e)) = 2 ^ 52 * u"
    unfolding sqrtMag_def Let_def ilog2_pow2 using y root by (simp add: u_def)
  also have "\<dots> = pow2 52 * pow2 (e - 52)" by (simp add: u_def) (simp add: pow2_def)
  also have "\<dots> = pow2 e" by (simp flip: pow2_add)
  finally show ?thesis by (simp add: not_less)
qed

end
