(* ===== verification/Wire.thy ===== *)
theory Wire
  imports Go_Float
begin

text \<open>
  The protobuf messages of \<open>pkg/runespacepb/runespace.pb.go\<close> that the SDK reads or
  builds. A message is a record of its fields and a getter of a present message is the
  field; \<open>oneof\<close> payloads are datatypes. A decoded repeated field holds no nil entries.
  \<open>uint32\<close> fields are 32-bit words, \<open>int64\<close> row numbers and \<open>uint64\<close> lengths are
  integers in range.
\<close>

type_synonym uint32 = "32 word"

text \<open>\<open>KeyKind\<close> is an open enum: a server may send values this client does not know.\<close>

type_synonym KeyKind = int

definition KEY_KIND_UNSPECIFIED :: KeyKind where "KEY_KIND_UNSPECIFIED = 0"
definition KEY_KIND_RMP_EVAL :: KeyKind where "KEY_KIND_RMP_EVAL = 1"
definition KEY_KIND_MM_EVAL :: KeyKind where "KEY_KIND_MM_EVAL = 2"

lemmas key_kind_enum_defs = KEY_KIND_UNSPECIFIED_def KEY_KIND_RMP_EVAL_def KEY_KIND_MM_EVAL_def

section \<open>Info and key registration\<close>

record KeyMeta =
  km_kind :: KeyKind
  km_kid :: string
  km_preset :: string
  km_dim :: uint32
  km_eval_mode :: string
  km_fingerprint :: bytes

text \<open>The occupancy counts, which the SDK does not read.\<close>

record SpaceStats =
  ss_rows :: "64 word"
  ss_max_rows :: "64 word"
  ss_tombstoned :: "64 word"

record GetInfoResponse =
  gi_version :: string
  gi_commit :: string
  gi_build_date :: string
  gi_engine_status :: string
  gi_engine_probe_dim :: uint32
  gi_ready :: bool
  gi_registered_keys :: "KeyMeta list"
  gi_stats :: "SpaceStats option"

record KeyHeader =
  kh_kind :: KeyKind
  kh_total_len :: int
  kh_kid :: string
  kh_preset :: string
  kh_dim :: uint32
  kh_eval_mode :: string

record KeyFooter =
  kf_sha256 :: bytes

datatype RegisterKeysStreamRequest = Header KeyHeader | Data bytes | Footer KeyFooter

section \<open>Insert\<close>

record RMPItem =
  rmp_item :: bytes

record MMItem =
  mm_item :: bytes
  mm_cluster_id :: uint32
  mm_set_version :: string

record InsertRequest =
  ir_id :: string
  ir_metadata :: string
  ir_rmp_item :: "RMPItem option"
  ir_mm_item :: "MMItem option"
  ir_filter_tags :: "string list"

section \<open>Centroids\<close>

record Centroid =
  ce_id :: uint32
  ce_vec :: "gofloat list"

record CentroidSetHeader =
  ch_version :: string
  ch_dim :: uint32
  ch_preset :: string
  ch_nlist :: uint32

record CentroidBatch =
  cb_centroids :: "Centroid list"

datatype GetCentroidsChunk = ChunkHeader CentroidSetHeader | ChunkBatch CentroidBatch | ChunkEmpty

section \<open>Search and metadata\<close>

record SearchRequest =
  sr_query :: "gofloat list"
  sr_filter_scope :: "string list"

record CellResult =
  cr_cell_id :: uint32
  cr_blob :: bytes
  cr_dead :: bytes

record SearchResponse =
  sp_tomb_epoch :: int
  sp_rmp :: "CellResult list"
  sp_mm :: "CellResult list"

record CellRow =
  row_cell_id :: uint32
  row_row :: int

record GetMetadataRequest =
  mq_rmp_rows :: "CellRow list"
  mq_mm_rows :: "CellRow list"
  mq_filter_scope :: "string list"

record MetadataEntry =
  me_id :: string
  me_metadata :: string

record GetMetadataResponse =
  mp_rmp_entries :: "MetadataEntry list"
  mp_mm_entries :: "MetadataEntry list"

section \<open>Deletes and tags\<close>

record DeleteRequest =
  dr_id :: string

record UpdateTagsRequest =
  ut_id :: string
  ut_add :: "string list"
  ut_remove :: "string list"

record RetagAllRequest =
  ra_from :: string
  ra_to :: string

record RemoveTagRequest =
  rt_tag :: string

text \<open>\<open>RetagAllResponse\<close> and \<open>RemoveTagResponse\<close>: the number of changed items.\<close>

record ChangedResponse =
  ch_changed :: int

end
