(* ===== verification/Errors.thy ===== *)
theory Errors
  imports Prelude
begin

text \<open>
  \<open>errors.go\<close>: the exported sentinels, Go error values as data, and the test for the
  server's centroid-version-mismatch reason.

  An error built by \<open>fmt.Errorf\<close> keeps its format pieces, the \<open>%w\<close> operand among
  them, so that \<open>errors.Is\<close> can be computed. An error that comes from an RPC carries
  the gRPC status the server sent. The functions of the gRPC status package are not
  part of the repository: they are the record \<open>grpc_lib\<close>, a parameter.
\<close>

section \<open>Error values\<close>

datatype sentinel =
    ErrAddressRequired
  | ErrClientClosed
  | ErrKeysNotRegistered
  | ErrKeysAlreadyExist
  | ErrKeysNotFound
  | ErrKeysNotForEncrypt
  | ErrKeysNotForDecrypt
  | ErrKeysNotForRegister
  | ErrDimMismatch
  | ErrInvalidMetadata
  | ErrClusterRequired
  | ErrCentroidVersionMismatch
  | ErrUnimplemented

text \<open>The gRPC status codes, as the protocol numbers them.\<close>

datatype code =
    OK | Canceled | Unknown | InvalidArgument | DeadlineExceeded | NotFound | AlreadyExists
  | PermissionDenied | ResourceExhausted | FailedPrecondition | Aborted | OutOfRange
  | Unimplemented | Internal | Unavailable | DataLoss | Unauthenticated

datatype detail = ErrorInfo string | OtherDetail

record grpc_status =
  st_code :: code
  st_message :: string
  st_details :: "detail list"

text \<open>
  \<open>EOF\<close> is \<open>io.EOF\<close>; \<open>OsErr\<close> an error of a file-system call; \<open>CtxErr\<close> the error of a
  cancelled or expired context; \<open>RpcErr\<close> an error returned by a generated RPC stub.
\<close>

datatype err =
    Sentinel sentinel
  | EOF
  | OsErr string
  | CtxErr string
  | RpcErr grpc_status
  | Errorf "piece list"
and piece =
    Lit string
  | Str string
  | Quo string
  | Dec int
  | Wrap err

text \<open>
  \<open>errors.Is(err, target)\<close> for a sentinel target: the error itself, or any error its
  \<open>%w\<close> operands lead to.
\<close>

primrec errorsIs :: "err \<Rightarrow> sentinel \<Rightarrow> bool" and pieceIs :: "piece \<Rightarrow> sentinel \<Rightarrow> bool" where
  "errorsIs (Sentinel s) t = (s = t)"
| "errorsIs EOF t = False"
| "errorsIs (OsErr m) t = False"
| "errorsIs (CtxErr m) t = False"
| "errorsIs (RpcErr st) t = False"
| "errorsIs (Errorf ps) t = list_ex (\<lambda>b. b) (map (\<lambda>p. pieceIs p t) ps)"
| "pieceIs (Lit s) t = False"
| "pieceIs (Str s) t = False"
| "pieceIs (Quo s) t = False"
| "pieceIs (Dec n) t = False"
| "pieceIs (Wrap e) t = errorsIs e t"

lemma errorsIs_Errorf [simp]: "errorsIs (Errorf ps) t \<longleftrightarrow> (\<exists>p \<in> set ps. pieceIs p t)"
  by (auto simp: list_ex_iff)

text \<open>\<open>fmt.Errorf(prefix + ": %w", err)\<close>, the commonest shape.\<close>

definition wrapf :: "string \<Rightarrow> err \<Rightarrow> err" where
  "wrapf msg e = Errorf [Lit msg, Lit '': '', Wrap e]"

lemma errorsIs_wrapf [simp]: "errorsIs (wrapf msg e) t = errorsIs e t"
  by (simp add: wrapf_def)

section \<open>The gRPC status package, a parameter\<close>

record grpc_lib =
  fromError :: "err \<Rightarrow> grpc_status \<times> bool"
  convertErr :: "err \<Rightarrow> grpc_status"
  codeOf :: "err \<Rightarrow> code"

text \<open>
  What the package documents and the code relies on: an error produced from a status
  converts back to that status, \<open>Code\<close> is the code of that status, and an error that
  carries no status has code \<open>Unknown\<close> and is reported as not being one.
\<close>

fun carries_status :: "err \<Rightarrow> bool" where
  "carries_status (RpcErr st) = True"
| "carries_status (Errorf ps) = (\<exists>p \<in> set ps. case p of Wrap e \<Rightarrow> True | _ \<Rightarrow> False)"
| "carries_status _ = False"

definition grpc_documented :: "grpc_lib \<Rightarrow> bool" where
  "grpc_documented G \<longleftrightarrow>
     (\<forall>st. fromError G (RpcErr st) = (st, True)) \<and>
     (\<forall>st. convertErr G (RpcErr st) = st) \<and>
     (\<forall>st. codeOf G (RpcErr st) = st_code st) \<and>
     (\<forall>e. \<not> carries_status e \<longrightarrow> \<not> snd (fromError G e) \<and> codeOf G e = Unknown)"

section \<open>The centroid-version-mismatch reason\<close>

definition centroidMismatchReason :: string where
  "centroidMismatchReason = ''ERROR_REASON_CENTROID_VERSION_MISMATCH''"

fun hasMismatchDetail :: "detail list \<Rightarrow> bool" where
  "hasMismatchDetail [] = False"
| "hasMismatchDetail (d # ds) =
     (case d of ErrorInfo r \<Rightarrow> (if r = centroidMismatchReason then True else hasMismatchDetail ds)
      | OtherDetail \<Rightarrow> hasMismatchDetail ds)"

definition isCentroidVersionMismatch :: "grpc_lib \<Rightarrow> err \<Rightarrow> bool" where
  "isCentroidVersionMismatch G e =
     (case fromError G e of (st, ok) \<Rightarrow> if \<not> ok then False else hasMismatchDetail (st_details st))"

lemma hasMismatchDetail_iff:
  "hasMismatchDetail ds \<longleftrightarrow> ErrorInfo centroidMismatchReason \<in> set ds"
  by (induction ds) (auto split: detail.splits)

lemma isCentroidVersionMismatch_RpcErr:
  "grpc_documented G \<Longrightarrow>
    isCentroidVersionMismatch G (RpcErr st) \<longleftrightarrow> ErrorInfo centroidMismatchReason \<in> set (st_details st)"
  by (simp add: isCentroidVersionMismatch_def grpc_documented_def hasMismatchDetail_iff)

lemma isCentroidVersionMismatch_plain:
  "grpc_documented G \<Longrightarrow> \<not> carries_status e \<Longrightarrow> \<not> isCentroidVersionMismatch G e"
  by (auto simp: isCentroidVersionMismatch_def grpc_documented_def split: prod.splits)

text \<open>A concrete status package that behaves as documented, for witnesses.\<close>

fun plain_status :: "err \<Rightarrow> grpc_status \<times> bool" where
  "plain_status (RpcErr st) = (st, True)"
| "plain_status _ = (\<lparr>st_code = Unknown, st_message = [], st_details = []\<rparr>, False)"

definition plain_grpc :: grpc_lib where
  "plain_grpc = \<lparr>fromError = plain_status, convertErr = fst \<circ> plain_status,
     codeOf = st_code \<circ> fst \<circ> plain_status\<rparr>"

lemma plain_grpc_documented: "grpc_documented plain_grpc"
proof -
  have "\<not> snd (plain_status e) \<and> st_code (fst (plain_status e)) = Unknown"
    if "\<not> carries_status e" for e
    using that by (cases e) auto
  then show ?thesis by (simp add: grpc_documented_def plain_grpc_def)
qed

end
