(* ===== verification/Clustering.thy ===== *)
theory Clustering
  imports Wire Errors
begin

text \<open>
  \<open>clustering.go\<close> and \<open>centroids.go\<close>: the centroid set assembled from the server's
  stream, the plaintext cluster assignment, and the L2 normalization of vectors. Vectors
  are \<open>float32\<close> values, sums are accumulated in \<open>float64\<close> in the order of the code.
\<close>

definition FlatClusterID :: int where
  "FlatClusterID = -1"

section \<open>The centroid set\<close>

record centroidSet =
  cs_version :: string
  cs_dim :: int
  cs_preset :: string
  cs_vectors :: "gofloat list list"

definition emptyCentroidSet :: centroidSet where
  "emptyCentroidSet = \<lparr>cs_version = [], cs_dim = 0, cs_preset = [], cs_vectors = []\<rparr>"

text \<open>
  What successive \<open>Recv\<close> calls return; after the last entry the stream reports \<open>io.EOF\<close>.
\<close>

type_synonym centroid_stream = "(err + GetCentroidsChunk) list"

fun readChunks :: "centroidSet \<Rightarrow> centroid_stream \<Rightarrow> err + centroidSet" where
  "readChunks cs [] = Inr cs"
| "readChunks cs (Inl e # rest) = (if e = EOF then Inr cs else Inl e)"
| "readChunks cs (Inr (ChunkHeader h) # rest) =
     readChunks (cs\<lparr>cs_version := ch_version h, cs_dim := uint (ch_dim h), cs_preset := ch_preset h,
       cs_vectors := (if ch_nlist h > 0 then [] else cs_vectors cs)\<rparr>) rest"
| "readChunks cs (Inr (ChunkBatch b) # rest) =
     readChunks (cs\<lparr>cs_vectors := cs_vectors cs @ map ce_vec (cb_centroids b)\<rparr>) rest"
| "readChunks cs (Inr ChunkEmpty # rest) = readChunks cs rest"

definition readCentroidSet :: "centroid_stream \<Rightarrow> err + centroidSet" where
  "readCentroidSet stream = readChunks emptyCentroidSet stream"

text \<open>A nil set is \<open>None\<close>.\<close>

definition enabled :: "centroidSet option \<Rightarrow> bool" where
  "enabled cs = (case cs of None \<Rightarrow> False
     | Some c \<Rightarrow> cs_version c \<noteq> [] \<and> length (cs_vectors c) > 0)"

section \<open>Assignment\<close>

fun dotLoop :: "gofloat \<Rightarrow> gofloat list \<Rightarrow> gofloat list \<Rightarrow> gofloat" where
  "dotLoop s (c # cs) (v # vs) = dotLoop (fadd f64 s (fmul f64 c v)) cs vs"
| "dotLoop s _ _ = s"

definition dotProduct :: "gofloat list \<Rightarrow> gofloat list \<Rightarrow> gofloat" where
  "dotProduct c vec = dotLoop (Num 0) c vec"

fun assignLoop :: "nat \<Rightarrow> gofloat \<Rightarrow> uint32 \<Rightarrow> gofloat list list \<Rightarrow> gofloat list \<Rightarrow> uint32" where
  "assignLoop i best bestID [] vec = bestID"
| "assignLoop i best bestID (c # cs) vec =
     (let s = dotProduct c vec in
      if fgt s best then assignLoop (Suc i) s (of_nat i) cs vec
      else assignLoop (Suc i) best bestID cs vec)"

definition assign :: "centroidSet \<Rightarrow> gofloat list \<Rightarrow> uint32" where
  "assign cs vec = assignLoop 0 (Inf True) 0 (cs_vectors cs) vec"

section \<open>The exported snapshot\<close>

record CentroidSet =
  Version :: string
  SetDim :: int
  Preset :: string
  Vectors :: "gofloat list list"

definition Enabled :: "CentroidSet option \<Rightarrow> bool" where
  "Enabled cs = (case cs of None \<Rightarrow> False
     | Some c \<Rightarrow> Version c \<noteq> [] \<and> length (Vectors c) > 0)"

definition Assign :: "CentroidSet \<Rightarrow> gofloat list \<Rightarrow> uint32" where
  "Assign c vec = assign
     \<lparr>cs_version = Version c, cs_dim = SetDim c, cs_preset = [], cs_vectors = Vectors c\<rparr> vec"

definition snapshot :: "centroidSet \<Rightarrow> CentroidSet" where
  "snapshot cs = \<lparr>Version = cs_version cs, SetDim = cs_dim cs, Preset = cs_preset cs,
     Vectors = cs_vectors cs\<rparr>"

section \<open>Normalization\<close>

fun sumSquares :: "gofloat \<Rightarrow> gofloat list \<Rightarrow> gofloat" where
  "sumSquares s [] = s"
| "sumSquares s (v # vs) = sumSquares (fadd f64 s (fmul f64 v v)) vs"

definition l2normalize :: "gofloat list \<Rightarrow> gofloat list" where
  "l2normalize vec =
     (let sum = sumSquares (Num 0) vec in
      if isZero sum then vec
      else (let inv = toF32 (fdiv f64 (Num 1) (fsqrt sum)) in map (\<lambda>v. fmul f32 v inv) vec))"

section \<open>Assembling the set\<close>

text \<open>The centroids carried by the frames of a stream, in order.\<close>

fun streamVectors :: "GetCentroidsChunk list \<Rightarrow> gofloat list list" where
  "streamVectors [] = []"
| "streamVectors (ChunkBatch b # cs) = map ce_vec (cb_centroids b) @ streamVectors cs"
| "streamVectors (_ # cs) = streamVectors cs"

fun noHeader :: "GetCentroidsChunk list \<Rightarrow> bool" where
  "noHeader [] = True"
| "noHeader (ChunkHeader h # cs) = False"
| "noHeader (_ # cs) = noHeader cs"

lemma readChunks_batches:
  "noHeader cs \<Longrightarrow>
    readChunks c (map Inr cs @ tail) = readChunks (c\<lparr>cs_vectors := cs_vectors c @ streamVectors cs\<rparr>) tail"
  by (induction cs arbitrary: c rule: noHeader.induct) auto

lemma readCentroidSet_frames:
  assumes "noHeader cs"
  shows "readCentroidSet (map Inr (ChunkHeader h # cs)) =
    Inr \<lparr>cs_version = ch_version h, cs_dim = uint (ch_dim h), cs_preset = ch_preset h,
      cs_vectors = streamVectors cs\<rparr>"
  using readChunks_batches[OF assms, where tail = "[]"]
  by (simp add: readCentroidSet_def emptyCentroidSet_def)

lemma readCentroidSet_error:
  assumes "noHeader cs" and "e \<noteq> EOF"
  shows "readCentroidSet (map Inr (ChunkHeader h # cs) @ Inl e # rest) = Inl e"
  using readChunks_batches[OF assms(1), where tail = "Inl e # rest"] assms(2)
  by (simp add: readCentroidSet_def emptyCentroidSet_def)

section \<open>The assignment is the first maximum\<close>

text \<open>
  \<open>firstMax xs i\<close>: no score is above the one at \<open>i\<close>, and every earlier one is below it
  or not a number.
\<close>

definition firstMax :: "gofloat list \<Rightarrow> nat \<Rightarrow> bool" where
  "firstMax xs i \<longleftrightarrow> i < length xs \<and> (\<forall>j < length xs. \<not> fgt (xs ! j) (xs ! i)) \<and>
     (\<forall>j < i. fgt (xs ! i) (xs ! j) \<or> xs ! j = NaN)"

definition seenBest :: "gofloat list \<Rightarrow> gofloat \<Rightarrow> nat \<Rightarrow> bool" where
  "seenBest xs best i \<longleftrightarrow>
     (best = Inf True \<and> i = 0 \<and> (\<forall>s \<in> set xs. s = NaN \<or> s = Inf True)) \<or>
     (best \<noteq> NaN \<and> best \<noteq> Inf True \<and> firstMax xs i \<and> xs ! i = best)"

lemma seenBest_max: "seenBest xs best i \<Longrightarrow> s \<in> set xs \<Longrightarrow> \<not> fgt s best"
  unfolding seenBest_def firstMax_def
proof (elim disjE conjE)
  assume "\<forall>s \<in> set xs. s = NaN \<or> s = Inf True" and "s \<in> set xs"
  then have "s = NaN \<or> s = Inf True" by blast
  then show "\<not> fgt s best" by (cases best) auto
next
  assume "s \<in> set xs" and "\<forall>j < length xs. \<not> fgt (xs ! j) (xs ! i)" and "xs ! i = best"
  then show "\<not> fgt s best" unfolding in_set_conv_nth by blast
qed

lemma nth_snoc: "j < length xs \<Longrightarrow> (xs @ [s]) ! j = xs ! j"
  by (simp add: nth_append)

lemma firstMax_snoc_new:
  assumes "\<And>t. t \<in> set xs \<Longrightarrow> fgt s t \<or> t = NaN"
  shows "firstMax (xs @ [s]) (length xs)"
proof -
  have below: "fgt s (xs ! j) \<or> xs ! j = NaN" if "j < length xs" for j
    using assms that by simp
  have "\<not> fgt (xs ! j) s" if "j < length xs" for j
  proof (cases "s = NaN \<or> xs ! j = NaN")
    case True
    then show ?thesis by (cases s; cases "xs ! j") auto
  next
    case False
    then show ?thesis using below[OF that] score.better_asym[of s "xs ! j"] by blast
  qed
  moreover have "\<not> fgt s s" by (cases s) auto
  ultimately show ?thesis
    using below by (simp add: firstMax_def nth_snoc less_Suc_eq all_conj_distrib)
qed

lemma firstMax_snoc_old:
  assumes "firstMax xs i" and "\<not> fgt s (xs ! i)"
  shows "firstMax (xs @ [s]) i"
  using assms by (auto simp: firstMax_def nth_snoc less_Suc_eq)

lemma seenBest_append:
  assumes "seenBest xs best i"
  shows "seenBest (xs @ [s]) (if fgt s best then s else best) (if fgt s best then length xs else i)"
proof (cases "fgt s best")
  case True
  have s: "s \<noteq> NaN" "s \<noteq> Inf True" using True by (cases s; auto)+
  have best: "best \<noteq> NaN" using assms by (auto simp: seenBest_def)
  have "fgt s t \<or> t = NaN" if t: "t \<in> set xs" for t
    using score.better_cotrans[of s t best] seenBest_max[OF assms t] True s best by blast
  then have "firstMax (xs @ [s]) (length xs)" by (rule firstMax_snoc_new)
  with True s show ?thesis by (simp add: seenBest_def)
next
  case False
  have "s = NaN \<or> s = Inf True" if "best = Inf True" using False that by simp
  moreover have "firstMax (xs @ [s]) i" if "firstMax xs i" "xs ! i = best"
    using firstMax_snoc_old[OF that(1)] that(2) False by simp
  moreover have "(xs @ [s]) ! i = best" if "firstMax xs i" "xs ! i = best"
    using that by (simp add: firstMax_def nth_snoc)
  ultimately show ?thesis using assms False by (auto simp: seenBest_def)
qed

lemma assignLoop_seenBest:
  "seenBest xs best i \<Longrightarrow> \<exists>best' i'. seenBest (xs @ map (\<lambda>c. dotProduct c vec) cs) best' i' \<and>
    assignLoop (length xs) best (of_nat i) cs vec = of_nat i'"
proof (induction cs arbitrary: xs best i)
  case (Cons c cs)
  show ?case
    using Cons.IH[OF seenBest_append[OF Cons.prems, of "dotProduct c vec"]]
    by (auto simp: Let_def split: if_splits)
qed auto

lemma seenBest_firstMax: "seenBest xs best i \<Longrightarrow> xs \<noteq> [] \<Longrightarrow> firstMax xs i"
proof (cases "firstMax xs i")
  case False
  assume "seenBest xs best i" and ne: "xs \<noteq> []"
  with False have i: "i = 0" and low: "\<forall>s \<in> set xs. s = NaN \<or> s = Inf True"
    by (auto simp: seenBest_def)
  have "\<not> fgt (xs ! j) t" if "j < length xs" for j t
    using low that by (metis fgt.simps(1) fgt_simps(3) nth_mem)
  with i ne show ?thesis by (simp add: firstMax_def)
qed

lemma firstMax_unique: "firstMax xs i \<Longrightarrow> firstMax xs j \<Longrightarrow> xs ! i \<noteq> NaN \<Longrightarrow> xs ! j \<noteq> NaN \<Longrightarrow> i = j"
  by (cases i j rule: linorder_cases) (auto simp: firstMax_def)

lemma assign_firstMax:
  assumes "cs_vectors cs \<noteq> []" and "length (cs_vectors cs) < 2 ^ 32"
  shows "firstMax (map (\<lambda>c. dotProduct c vec) (cs_vectors cs)) (unat (assign cs vec))"
proof -
  have "seenBest [] (Inf True) 0" by (simp add: seenBest_def)
  from assignLoop_seenBest[OF this, of vec "cs_vectors cs"] obtain best i where
    i: "seenBest (map (\<lambda>c. dotProduct c vec) (cs_vectors cs)) best i" "assign cs vec = of_nat i"
    by (auto simp: assign_def)
  then have f: "firstMax (map (\<lambda>c. dotProduct c vec) (cs_vectors cs)) i"
    using assms(1) by (simp add: seenBest_firstMax)
  then have "i < 2 ^ 32" using assms(2) by (simp add: firstMax_def)
  then have "unat (assign cs vec) = i"
    by (simp add: i(2) unat_of_nat take_bit_nat_eq_self)
  with f show ?thesis by simp
qed


section \<open>Properties\<close>

text \<open>
  C28. Assembling the centroid stream: a header frame followed by any batches yields
  exactly the header's version, dimension and preset and the centroids of the batches in
  the order they were received, so that position \<open>i\<close> is cluster \<open>i\<close>; an error in the
  middle of the stream is returned and no set is.
\<close>

theorem readCentroidSet_assembles:
  assumes "noHeader frames"
  shows "readCentroidSet (map Inr (ChunkHeader h # frames)) =
      Inr \<lparr>cs_version = ch_version h, cs_dim = uint (ch_dim h), cs_preset = ch_preset h,
        cs_vectors = streamVectors frames\<rparr> \<and>
    (e \<noteq> EOF \<longrightarrow> readCentroidSet (map Inr (ChunkHeader h # frames) @ Inl e # rest) = Inl e)"
  using readCentroidSet_frames[OF assms] readCentroidSet_error[OF assms] by blast

text \<open>The stream of a two-centroid set sent in two batches, as in the repository's test.\<close>

definition sampleHeader :: CentroidSetHeader where
  "sampleHeader = \<lparr>ch_version = ''sha256:abc'', ch_dim = 2, ch_preset = ''IP1'', ch_nlist = 2\<rparr>"

definition sampleFrames :: "GetCentroidsChunk list" where
  "sampleFrames =
     [ChunkBatch \<lparr>cb_centroids = [\<lparr>ce_id = 0, ce_vec = [Num 1, Num 0]\<rparr>]\<rparr>,
      ChunkBatch \<lparr>cb_centroids = [\<lparr>ce_id = 1, ce_vec = [Num 0, Num 1]\<rparr>]\<rparr>]"

definition sampleSet :: centroidSet where
  "sampleSet = \<lparr>cs_version = ''sha256:abc'', cs_dim = 2, cs_preset = ''IP1'',
     cs_vectors = [[Num 1, Num 0], [Num 0, Num 1]]\<rparr>"

theorem readCentroidSet_assembles_witness:
  "readCentroidSet (map Inr (ChunkHeader sampleHeader # sampleFrames)) = Inr sampleSet \<and>
   readCentroidSet (map Inr (ChunkHeader sampleHeader # sampleFrames) @ [Inl (OsErr ''reset'')])
     = Inl (OsErr ''reset'')"
proof -
  have nh: "noHeader sampleFrames" by (simp add: sampleFrames_def)
  show ?thesis
    using readCentroidSet_assembles[OF nh, of sampleHeader "OsErr ''reset''" "[]"]
    by (simp add: sampleHeader_def sampleSet_def sampleFrames_def)
qed

text \<open>
  C29. The cluster assignment is the first maximum: for a non-empty set of fewer than
  \<open>2^32\<close> centroids the id returned is in range, no centroid's computed inner product is
  above its own, and every centroid with a smaller id is strictly below (or its product is
  not a number), so ties go to the lowest id. This holds for every input, infinities and
  NaNs included.
\<close>

theorem assign_nearest:
  assumes "cs_vectors cs \<noteq> []" and "length (cs_vectors cs) < 2 ^ 32"
  shows "unat (assign cs vec) < length (cs_vectors cs) \<and>
    (\<forall>j < length (cs_vectors cs).
      \<not> fgt (dotProduct (cs_vectors cs ! j) vec) (dotProduct (cs_vectors cs ! unat (assign cs vec)) vec)) \<and>
    (\<forall>j < unat (assign cs vec).
      fgt (dotProduct (cs_vectors cs ! unat (assign cs vec)) vec) (dotProduct (cs_vectors cs ! j) vec) \<or>
      dotProduct (cs_vectors cs ! j) vec = NaN)"
  using assign_firstMax[OF assms, of vec] by (auto simp: firstMax_def)

lemma sampleSet_assign: "assign sampleSet [Num 1, Num 3] = 1"
  by (simp add: assign_def dotProduct_def sampleSet_def float_eval Let_def)

theorem assign_nearest_witness:
  "unat (assign sampleSet [Num 1, Num 3]) < 2 \<and>
   fgt (dotProduct [Num 0, Num 1] [Num 1, Num 3])
     (dotProduct [Num 1, Num 0] [Num 1, Num 3])"
proof -
  have s: "cs_vectors sampleSet = [[Num 1, Num 0], [Num 0, Num 1]]" by (simp add: sampleSet_def)
  have h: "cs_vectors sampleSet \<noteq> []" "length (cs_vectors sampleSet) < 2 ^ 32" by (simp_all add: s)
  have "dotProduct [Num 1, Num 0] [Num 1, Num 3] \<noteq> NaN"
    by (simp add: dotProduct_def float_eval)
  then show ?thesis
    using assign_nearest[OF h, of "[Num 1, Num 3]"]
    by (simp add: s sampleSet_assign)
qed

text \<open>
  The exported \<open>CentroidSet\<close> snapshot routes and reports readiness exactly as the
  client's internal set does.
\<close>

theorem snapshot_agrees:
  "Assign (snapshot cs) vec = assign cs vec \<and> Enabled (Some (snapshot cs)) = enabled (Some cs) \<and>
   Enabled None = enabled None"
proof -
  have "assign (cs\<lparr>cs_preset := []\<rparr>) vec = assign cs vec" by (simp add: assign_def)
  then show ?thesis
    by (cases cs) (simp add: Assign_def snapshot_def Enabled_def enabled_def)
qed

end
