(* ===== verification/Normalization.thy ===== *)
theory Normalization
  imports Clustering
begin

text \<open>
  What \<open>l2normalize\<close> of \<open>clustering.go\<close> guarantees: exactly the all-zero vectors are
  returned unchanged for lack of a direction, vectors whose computed norm is one are
  returned unchanged, and the range on which the reciprocal of the norm overflows.
\<close>

section \<open>The sum of squares\<close>

text \<open>A partial sum is the positive zero, or stays at or above the smallest subnormal.\<close>

fun positive :: "gofloat \<Rightarrow> bool" where
  "positive NaN = True"
| "positive (Inf s) = (\<not> s)"
| "positive NegZero = False"
| "positive (Num q) = (pow2 (minexp f64) \<le> q)"

lemma f64_simps [simp]: "minexp f64 = -1074" "topexp f64 = 1024" "prec f64 = 53"
  by (simp_all add: f64_def)

lemma f32_simps [simp]: "minexp f32 = -149" "topexp f32 = 128" "prec f32 = 24"
  by (simp_all add: f32_def)

lemma positive_not_zero: "positive s \<Longrightarrow> \<not> isZero s"
  by (cases s) auto

lemma square_zero: "isZero v \<Longrightarrow> fmul f64 v v = Num 0"
  by (cases v) (auto simp: roundMag_def withSign_def)

lemma represents_f32_ge:
  assumes "represents f32 q" and "q \<noteq> 0"
  shows "pow2 (-149) \<le> \<bar>q\<bar>"
proof -
  from assms(1) obtain m k where mk: "q = of_int m * pow2 k" "-149 \<le> k"
    by (auto simp: represents_def)
  with assms(2) have "1 \<le> \<bar>m\<bar>" by auto
  then have "1 \<le> \<bar>of_int m :: rat\<bar>" by linarith
  moreover have "pow2 (-149) \<le> pow2 k" using mk(2) by (simp add: pow2_le_iff)
  ultimately have "1 * pow2 (-149) \<le> \<bar>of_int m :: rat\<bar> * pow2 k" by (intro mult_mono) auto
  then show ?thesis by (simp add: mk(1) abs_mult)
qed

lemma square_positive:
  assumes "fits f32 v" and "\<not> isZero v"
  shows "positive (fmul f64 v v)"
proof (cases v)
  case (Num q)
  then have q: "represents f32 q" "q \<noteq> 0" using assms by auto
  have "represents f64 (q * q)" using q(1) by (simp add: represents_product)
  moreover have qq: "0 < q * q" using q(2) by (simp add: zero_less_mult_iff) linarith
  ultimately have "fmul f64 v v = Num (q * q)"
    using roundMag_represents[of f64 "q * q" False] by (simp add: Num)
  moreover have "pow2 (-1074) \<le> q * q"
  proof -
    have "pow2 (-149) * pow2 (-149) \<le> \<bar>q\<bar> * \<bar>q\<bar>"
      using represents_f32_ge[OF q] by (intro mult_mono) auto
    moreover have "pow2 (-1074) \<le> pow2 (-149) * pow2 (-149)" by (simp add: pow2_le_iff flip: pow2_add)
    ultimately show ?thesis by simp
  qed
  ultimately show ?thesis by simp
qed (use assms in auto)

lemma add_positive:
  assumes "positive s \<or> s = Num 0" and "positive p \<or> p = Num 0"
  shows "if positive s \<or> positive p then positive (fadd f64 s p) else fadd f64 s p = Num 0"
proof -
  have num: "positive (roundTo f64 q)" if "pow2 (-1074) \<le> q" for q
  proof -
    have "0 < q" using that by (rule pow2_leD)
    then show ?thesis using roundMag_positive[of f64 q] that by (auto simp: roundTo_def)
  qed
  show ?thesis
  proof (cases s; cases p)
    fix a b assume s: "s = Num a" and p: "p = Num b"
    consider "pow2 (-1074) \<le> a" "0 \<le> b" | "0 \<le> a" "pow2 (-1074) \<le> b" | "a = 0" "b = 0"
      using assms s p by (auto dest: pow2_leD order_less_imp_le)
    then show ?thesis
    proof cases
      case 3
      then show ?thesis by (simp add: s p roundTo_def roundMag_def withSign_def)
    qed (use num[of "a + b"] in \<open>auto simp: s p\<close>)
  qed (use assms in auto)
qed

lemma sumSquares_positive:
  "positive s \<or> s = Num 0 \<Longrightarrow> \<forall>v \<in> set vec. fits f32 v \<Longrightarrow>
    if positive s \<or> (\<exists>v \<in> set vec. \<not> isZero v) then positive (sumSquares s vec)
    else sumSquares s vec = Num 0"
proof (induction vec arbitrary: s)
  case (Cons v vs)
  have p: "if isZero v then fmul f64 v v = Num 0 else positive (fmul f64 v v)"
    using Cons.prems(2) by (simp add: square_zero square_positive)
  have a: "if positive s \<or> \<not> isZero v then positive (fadd f64 s (fmul f64 v v))
      else fadd f64 s (fmul f64 v v) = Num 0"
    using add_positive[OF Cons.prems(1), of "fmul f64 v v"] p by (auto split: if_splits)
  show ?case
    using Cons.IH[of "fadd f64 s (fmul f64 v v)"] Cons.prems(2) a by (auto split: if_splits)
qed auto

lemma sumSquares_zero_iff:
  assumes "\<forall>v \<in> set vec. fits f32 v"
  shows "isZero (sumSquares (Num 0) vec) \<longleftrightarrow> (\<forall>v \<in> set vec. isZero v)"
  using sumSquares_positive[of "Num 0" vec] assms positive_not_zero
  by (auto split: if_splits)

section \<open>Normalized vectors\<close>

lemma length_l2normalize [simp]: "length (l2normalize vec) = length vec"
  by (simp add: l2normalize_def Let_def)

lemma l2normalize_zero: "\<forall>v \<in> set vec. isZero v \<Longrightarrow> l2normalize vec = vec"
proof -
  assume z: "\<forall>v \<in> set vec. isZero v"
  then have "\<forall>v \<in> set vec. fits f32 v" by (simp add: isZero_fits)
  with z show ?thesis using sumSquares_zero_iff[of vec] by (simp add: l2normalize_def)
qed


text \<open>A vector whose computed squared norm is exactly one is left as it is.\<close>

lemma fmul_one: "fits f32 v \<Longrightarrow> v \<noteq> NaN \<Longrightarrow> fmul f32 v (Num 1) = v"
proof (cases v)
  case (Num q)
  assume "fits f32 v"
  then have q: "represents f32 \<bar>q\<bar>" by (simp add: Num represents_abs)
  have "roundMag f32 (q < 0) \<bar>q\<bar> = Num q"
  proof (cases "q = 0")
    case False
    then show ?thesis using roundMag_represents[OF q, of "q < 0"] by simp
  qed (simp add: roundMag_def withSign_def)
  then show ?thesis by (simp add: Num)
qed (auto simp: roundMag_def withSign_def)

lemma represents_pow2:
  assumes "minexp F \<le> e" and "e < topexp F" and "0 < prec F"
  shows "represents F (pow2 e)"
  unfolding represents_def using assms
  by (intro exI[of _ 1] exI[of _ e]) (simp add: pow2_less_iff)

lemma roundMag_pow2:
  assumes "minexp F \<le> e" and "e < topexp F" and "0 < prec F"
  shows "roundMag F False (pow2 e) = Num (pow2 e)"
  using roundMag_represents[OF represents_pow2[OF assms], of False] by simp

lemma fsqrt_1: "fsqrt (Num 1) = Num 1"
  using fsqrt_pow2[of 0] by simp

lemma inv_one: "toF32 (fdiv f64 (Num 1) (fsqrt (Num 1))) = Num 1"
  using roundMag_pow2[of f64 0] roundMag_pow2[of f32 0]
  by (simp only: fsqrt_1) (simp add: roundTo_def)

lemma l2normalize_unit:
  assumes "\<forall>v \<in> set vec. fits f32 v \<and> v \<noteq> NaN" and "sumSquares (Num 0) vec = Num 1"
  shows "l2normalize vec = vec"
  using assms by (simp add: l2normalize_def Let_def inv_one fmul_one map_idI del: fsqrt.simps fdiv.simps)

text \<open>
  A single component \<open>2^-k\<close> with \<open>128 \<le> k \<le> 149\<close>, a representable \<open>float32\<close>: the
  reciprocal of the norm is \<open>2^k\<close>, which \<open>float32\<close> cannot hold.
\<close>

lemma sumSquares_tiny:
  assumes "0 \<le> k" and "k \<le> 149"
  shows "sumSquares (Num 0) [Num (pow2 (- k)), Num 0] = Num (pow2 (2 * - k))"
proof -
  have r: "roundMag f64 False (pow2 (2 * - k)) = Num (pow2 (2 * - k))"
    using assms by (intro roundMag_pow2) auto
  have sq: "pow2 (- k) * pow2 (- k) = pow2 (2 * - k)"
    by (simp flip: pow2_add)
  have "roundTo f64 (pow2 (2 * - k)) = Num (pow2 (2 * - k))"
    using r by (simp add: roundTo_def not_less)
  with r show ?thesis by (simp add: sq not_less roundMag_def[of _ _ 0] withSign_def)
qed

lemma inverse_tiny:
  assumes "128 \<le> k" and "k \<le> 149"
  shows "toF32 (fdiv f64 (Num 1) (fsqrt (Num (pow2 (2 * - k))))) = Inf False"
proof -
  have "1 / pow2 (- k) = pow2 k" using pow2_diff[of 0 "- k"] by simp
  then have "fdiv f64 (Num 1) (Num (pow2 (- k))) = Num (pow2 k)"
    using roundMag_pow2[of f64 k] assms by (simp add: not_less)
  moreover have "roundMag f32 False (pow2 k) = Inf False"
    using assms by (intro roundMag_overflow) (auto simp: pow2_le_iff)
  ultimately show ?thesis
    by (simp only: fsqrt_pow2) (simp add: roundTo_def not_less)
qed


section \<open>Properties\<close>

text \<open>
  Go lets a compiler fuse a multiplication and an addition into one operation with a
  single rounding, and some targets do. \<open>fusedLoop\<close> is the loop of \<open>assign\<close> so compiled.
\<close>

definition fma64 :: "gofloat \<Rightarrow> gofloat \<Rightarrow> gofloat \<Rightarrow> gofloat" where
  "fma64 s c v =
     (if isFinite s \<and> isFinite c \<and> isFinite v
      then (if s = NegZero \<and> ratOf c * ratOf v = 0 \<and> isNegative c \<noteq> isNegative v then NegZero
            else roundTo f64 (ratOf s + ratOf c * ratOf v))
      else fadd f64 s (fmul f64 c v))"

fun fusedLoop :: "gofloat \<Rightarrow> gofloat list \<Rightarrow> gofloat list \<Rightarrow> gofloat" where
  "fusedLoop s (c # cs) (v # vs) = fusedLoop (fma64 s c v) cs vs"
| "fusedLoop s _ _ = s"

lemma fmul_negzero_iff:
  assumes "fits f32 c" and "fits f32 v" and "isFinite c" and "isFinite v"
  shows "fmul f64 c v = NegZero \<longleftrightarrow> ratOf c * ratOf v = 0 \<and> isNegative c \<noteq> isNegative v"
proof -
  have eq: "fmul f64 c v = roundMag f64 (isNegative c \<noteq> isNegative v) \<bar>ratOf c * ratOf v\<bar>"
    using assms(3,4) by (cases c; cases v) auto
  show ?thesis
  proof (cases "ratOf c * ratOf v = 0")
    case True
    then show ?thesis by (simp add: eq roundMag_def withSign_def)
  next
    case False
    then show ?thesis using fmul_exact(2)[OF assms] by (metis ratOf.simps(4))
  qed
qed

lemma fadd_finite:
  "isFinite s \<Longrightarrow> isFinite p \<Longrightarrow>
    fadd f64 s p = (if s = NegZero \<and> p = NegZero then NegZero else roundTo f64 (ratOf s + ratOf p))"
  by (cases s; cases p) auto

lemma fma64_eq:
  assumes "fits f32 c" and "fits f32 v" and "isFinite c" and "isFinite v"
  shows "fma64 s c v = fadd f64 s (fmul f64 c v)"
  using fmul_exact(1,2)[OF assms] fmul_negzero_iff[OF assms] assms(3,4)
  by (auto simp: fma64_def fadd_finite)

text \<open>
  C30. The inner product that routes an insert does not depend on whether the compiler
  fuses multiply and add: products of finite \<open>float32\<close> components are exact in
  \<open>float64\<close>, so the loop with one rounding per term computes the same value as the loop
  with two.
\<close>

theorem dot_fusion_irrelevant:
  assumes "\<forall>x \<in> set c \<union> set vec. fits f32 x \<and> isFinite x"
  shows "dotLoop s c vec = fusedLoop s c vec"
  using assms by (induction s c vec rule: dotLoop.induct) (auto simp: fma64_eq)

theorem dot_fusion_irrelevant_witness:
  "dotLoop NegZero [Num (1 / 4), Num 3] [Num 3, NegZero] =
   fusedLoop NegZero [Num (1 / 4), Num 3] [Num 3, NegZero]"
proof (rule dot_fusion_irrelevant)
  have "represents f32 (1 / 4)"
    unfolding represents_def
    by (intro exI[of _ 1] exI[of _ "-2"]) (simp add: pow2_def)
  moreover have "represents f32 3"
    unfolding represents_def
    by (intro exI[of _ 3] exI[of _ 0]) (simp add: pow2_def)
  ultimately show "\<forall>x \<in> set [Num (1 / 4), Num 3] \<union> set [Num 3, NegZero]. fits f32 x \<and> isFinite x"
    by simp
qed

text \<open>
  For a vector of \<open>float32\<close> values, the computed squared norm is zero exactly when
  every component is a zero (no underflow and no rounding can make it so), and then the
  vector is returned unchanged; the length is kept in every case.
\<close>

theorem l2normalize_zero_vector:
  assumes "\<forall>v \<in> set vec. fits f32 v"
  shows "(isZero (sumSquares (Num 0) vec) \<longleftrightarrow> (\<forall>v \<in> set vec. isZero v)) \<and>
    ((\<forall>v \<in> set vec. isZero v) \<longrightarrow> l2normalize vec = vec) \<and>
    length (l2normalize vec) = length vec"
  using sumSquares_zero_iff[OF assms] l2normalize_zero[of vec] by simp

theorem l2normalize_zero_vector_witness:
  "l2normalize [Num 0, NegZero] = [Num 0, NegZero] \<and>
   \<not> isZero (sumSquares (Num 0) [Num 0, Num (pow2 (-149))])"
proof -
  have "\<forall>v \<in> set [Num 0, Num (pow2 (-149))]. fits f32 v"
    by (simp add: represents_pow2)
  then show ?thesis
    using l2normalize_zero_vector[of "[Num 0, NegZero]"]
      l2normalize_zero_vector[of "[Num 0, Num (pow2 (-149))]"] by simp
qed

text \<open>
  A vector whose computed squared norm is exactly one is returned unchanged, so
  normalizing such a vector again does nothing.
\<close>

theorem l2normalize_unit_vector:
  assumes "\<forall>v \<in> set vec. fits f32 v \<and> v \<noteq> NaN" and "sumSquares (Num 0) vec = Num 1"
  shows "l2normalize vec = vec"
  using assms by (rule l2normalize_unit)

theorem l2normalize_unit_vector_witness:
  "l2normalize [Num 0, Num (-1), NegZero] = [Num 0, Num (-1), NegZero]"
proof (rule l2normalize_unit_vector)
  have "represents f32 (-1)"
    unfolding represents_def
    by (intro exI[of _ "-1"] exI[of _ 0]) (simp add: pow2_def)
  then show "\<forall>v \<in> set [Num 0, Num (-1), NegZero]. fits f32 v \<and> v \<noteq> NaN" by simp
  have one: "roundMag f64 False 1 = Num 1" and zero: "roundMag f64 False 0 = Num 0"
    using roundMag_pow2[of f64 0] by (simp_all add: roundMag_def[of _ _ 0] withSign_def)
  then show "sumSquares (Num 0) [Num 0, Num (-1), NegZero] = Num 1" by (simp add: roundTo_def)
qed

text \<open>
  C31. Normalization overflows on very short vectors: for every \<open>k\<close> from 128 to 149 the
  vector with the components \<open>2^-k\<close> and 0, both \<open>float32\<close> values, is turned into an
  infinity and a NaN, because the reciprocal of its norm exceeds the largest \<open>float32\<close>.
  The comment on \<open>l2normalize\<close> promises a unit-length copy of every non-zero vector.
\<close>

theorem l2normalize_overflows:
  assumes "128 \<le> k" and "k \<le> 149"
  shows "fits f32 (Num (pow2 (- k))) \<and> l2normalize [Num (pow2 (- k)), Num 0] = [Inf False, NaN]"
proof -
  have "sumSquares (Num 0) [Num (pow2 (- k)), Num 0] = Num (pow2 (2 * - k))"
    using assms by (intro sumSquares_tiny) auto
  then have "l2normalize [Num (pow2 (- k)), Num 0] =
      map (\<lambda>v. fmul f32 v (Inf False)) [Num (pow2 (- k)), Num 0]"
    using inverse_tiny[OF assms] by (simp add: l2normalize_def Let_def del: fsqrt.simps fdiv.simps)
  then show ?thesis using assms by (simp add: represents_pow2)
qed

theorem l2normalize_overflows_witness:
  "l2normalize [Num (pow2 (-130)), Num 0] = [Inf False, NaN]"
  using l2normalize_overflows[of 130] by simp

end
