(* ===== verification/Os_Files.thy ===== *)
theory Os_Files
  imports Errors
begin

text \<open>
  The file system as \<open>keys.go\<close> and \<open>cryptocgo.go\<close> use it through Go's \<open>os\<close>,
  \<open>io\<close> and \<open>path/filepath\<close>.

  A path is its lexically cleaned form: rooted or not, and its components. A store maps
  paths to files and directories. Any call may fail: \<open>os_fault\<close> of the environment
  says whether the \<open>k\<close>-th call of a run fails, so a statement for every environment
  covers every pattern of failures.
\<close>

section \<open>Paths\<close>

type_synonym gopath = "bool \<times> string list"

fun splitSlash :: "string \<Rightarrow> string \<Rightarrow> string list" where
  "splitSlash acc [] = [rev acc]"
| "splitSlash acc (c # cs) =
     (if c = CHR ''/'' then rev acc # splitSlash [] cs else splitSlash (c # acc) cs)"

text \<open>\<open>filepath.Clean\<close> on components, the cleaned prefix kept in reverse.\<close>

fun cleanComps :: "bool \<Rightarrow> string list \<Rightarrow> string list \<Rightarrow> string list" where
  "cleanComps rooted out [] = rev out"
| "cleanComps rooted out (x # xs) =
     (if x = '''' \<or> x = ''.'' then cleanComps rooted out xs
      else if x = ''..'' then
        (case out of
           [] \<Rightarrow> cleanComps rooted (if rooted then [] else [x]) xs
         | y # ys \<Rightarrow> cleanComps rooted (if y = ''..'' then x # out else ys) xs)
      else cleanComps rooted (x # out) xs)"

definition cleanPath :: "string \<Rightarrow> gopath" where
  "cleanPath s = (let rooted = (s \<noteq> [] \<and> hd s = CHR ''/'') in
     (rooted, cleanComps rooted [] (splitSlash [] s)))"

text \<open>\<open>filepath.Join\<close> with one plain file name, the only way the code uses it.\<close>

fun joinPath :: "gopath \<Rightarrow> string \<Rightarrow> gopath" where
  "joinPath (rooted, cs) name = (rooted, cs @ [name])"

fun joinWith :: "string \<Rightarrow> string list \<Rightarrow> string" where
  "joinWith sep [] = []"
| "joinWith sep [x] = x"
| "joinWith sep (x # y # ys) = x @ sep @ joinWith sep (y # ys)"

definition pathString :: "gopath \<Rightarrow> string" where
  "pathString p = (if fst p then ''/'' @ joinWith ''/'' (snd p)
     else if snd p = [] then ''.'' else joinWith ''/'' (snd p))"

fun parentOf :: "gopath \<Rightarrow> gopath" where
  "parentOf (rooted, cs) = (rooted, butlast cs)"

fun isInside :: "gopath \<Rightarrow> gopath \<Rightarrow> bool" where
  "isInside (r, ds) (r', cs) \<longleftrightarrow> r = r' \<and> take (length ds) cs = ds \<and> length ds < length cs"

lemma joinPath_inject [simp]: "joinPath p a = joinPath p b \<longleftrightarrow> a = b"
  by (cases p) auto

lemma joinPath_eq_iff: "joinPath p a = joinPath q b \<longleftrightarrow> p = q \<and> a = b"
  by (cases p; cases q) auto

lemma joinPath_neq [simp]: "joinPath p a \<noteq> p"
  by (cases p) auto

lemma parentOf_joinPath [simp]: "parentOf (joinPath p a) = p"
  by (cases p) auto

section \<open>The store\<close>

datatype node = File bytes | Dir

type_synonym store = "(gopath \<times> node) list"

definition nodeAt :: "store \<Rightarrow> gopath \<Rightarrow> node option" where
  "nodeAt st p = map_of st p"

definition putNode :: "gopath \<Rightarrow> node \<Rightarrow> store \<Rightarrow> store" where
  "putNode p n st = (p, n) # filter (\<lambda>e. fst e \<noteq> p) st"

definition delNode :: "gopath \<Rightarrow> store \<Rightarrow> store" where
  "delNode p st = filter (\<lambda>e. fst e \<noteq> p) st"

definition entriesIn :: "gopath \<Rightarrow> store \<Rightarrow> gopath list" where
  "entriesIn d st = filter (\<lambda>p. snd p \<noteq> [] \<and> parentOf p = d) (map fst st)"

text \<open>The contract of a store, and what its clients derive from it.\<close>

locale file_store =
  fixes look_at :: "'s \<Rightarrow> 'p \<Rightarrow> 'n option"
    and store_at :: "'p \<Rightarrow> 'n \<Rightarrow> 's \<Rightarrow> 's"
    and drop_at :: "'p \<Rightarrow> 's \<Rightarrow> 's"
  assumes look_write: "look_at (store_at p n s) q = (if q = p then Some n else look_at s q)"
    and look_remove: "look_at (drop_at p s) q = (if q = p then None else look_at s q)"
begin

definition same_outside :: "'p set \<Rightarrow> 's \<Rightarrow> 's \<Rightarrow> bool" where
  "same_outside A s t \<longleftrightarrow> (\<forall>q. q \<notin> A \<longrightarrow> look_at t q = look_at s q)"

lemma same_outside_refl: "same_outside A s s"
  by (simp add: same_outside_def)

lemma same_outside_trans: "same_outside A s t \<Longrightarrow> same_outside A t u \<Longrightarrow> same_outside A s u"
  by (simp add: same_outside_def)

lemma same_outside_write: "p \<in> A \<Longrightarrow> same_outside A s (store_at p n s)"
  by (auto simp: same_outside_def look_write)

lemma same_outside_remove: "p \<in> A \<Longrightarrow> same_outside A s (drop_at p s)"
  by (auto simp: same_outside_def look_remove)

lemma write_then_look [simp]: "look_at (store_at p n s) p = Some n"
  by (simp add: look_write)

lemma remove_then_look [simp]: "look_at (drop_at p s) p = None"
  by (simp add: look_remove)

end

lemma map_of_filter_neq: "map_of (filter (\<lambda>e. fst e \<noteq> p) st) q = (if q = p then None else map_of st q)"
  by (induction st) auto

interpretation fstore: file_store nodeAt putNode delNode
  by unfold_locales (auto simp: nodeAt_def putNode_def delNode_def map_of_filter_neq)

lemma nodeAt_put [simp]: "nodeAt (putNode p n st) q = (if q = p then Some n else nodeAt st q)"
  by (rule fstore.look_write)

lemma nodeAt_del [simp]: "nodeAt (delNode p st) q = (if q = p then None else nodeAt st q)"
  by (rule fstore.look_remove)

lemma entriesIn_empty_iff:
  "entriesIn d st = [] \<longleftrightarrow> (\<forall>p. snd p \<noteq> [] \<longrightarrow> parentOf p = d \<longrightarrow> nodeAt st p = None)"
proof -
  have "nodeAt st p = None \<longleftrightarrow> p \<notin> set (map fst st)" for p
    by (simp add: nodeAt_def map_of_eq_None_iff)
  then show ?thesis
    unfolding entriesIn_def filter_empty_conv by blast
qed

section \<open>System calls\<close>

record os_world =
  tick :: nat
  nodes :: store

record os_env =
  os_fault :: "nat \<Rightarrow> string option"
  os_partial :: "nat \<Rightarrow> nat"
  os_tempname :: "nat \<Rightarrow> string"

definition tempRoot :: gopath where
  "tempRoot = (True, [''tmp''])"

text \<open>
  One call: it fails with the environment's error and no effect, or does \<open>act\<close>.
\<close>

definition syscall ::
  "'e os_env_scheme \<Rightarrow> ('w os_world_scheme \<Rightarrow> (err + 'a) \<times> 'w os_world_scheme) \<Rightarrow>
   (err, 'w os_world_scheme, 'a) io" where
  "syscall E act w =
     (let w' = w\<lparr>tick := Suc (tick w)\<rparr> in
      case os_fault E (tick w) of
        Some m \<Rightarrow> (Inl (OsErr m), w')
      | None \<Rightarrow> act w')"

definition isDirAt :: "store \<Rightarrow> gopath \<Rightarrow> bool" where
  "isDirAt st p \<longleftrightarrow> snd p = [] \<or> nodeAt st p = Some Dir"

definition osStat :: "'e os_env_scheme \<Rightarrow> gopath \<Rightarrow> (err, 'w os_world_scheme, node) io" where
  "osStat E p = syscall E (\<lambda>w. case nodeAt (nodes w) p of
      None \<Rightarrow> (Inl (OsErr ''no such file or directory''), w)
    | Some n \<Rightarrow> (Inr n, w))"

definition osRemove :: "'e os_env_scheme \<Rightarrow> gopath \<Rightarrow> (err, 'w os_world_scheme, unit) io" where
  "osRemove E p = syscall E (\<lambda>w. case nodeAt (nodes w) p of
      None \<Rightarrow> (Inl (OsErr ''no such file or directory''), w)
    | Some Dir \<Rightarrow>
        if entriesIn p (nodes w) = [] then (Inr (), w\<lparr>nodes := delNode p (nodes w)\<rparr>)
        else (Inl (OsErr ''directory not empty''), w)
    | Some (File b) \<Rightarrow> (Inr (), w\<lparr>nodes := delNode p (nodes w)\<rparr>))"

text \<open>The proper prefixes of a path and the path itself, outermost first.\<close>

fun prefixesOf :: "gopath \<Rightarrow> gopath list" where
  "prefixesOf (r, cs) = map (\<lambda>k. (r, take k cs)) [1 ..< Suc (length cs)]"

fun mkdirs :: "gopath list \<Rightarrow> store \<Rightarrow> store option" where
  "mkdirs [] st = Some st"
| "mkdirs (p # ps) st =
     (case nodeAt st p of
        None \<Rightarrow> mkdirs ps (putNode p Dir st)
      | Some Dir \<Rightarrow> mkdirs ps st
      | Some (File b) \<Rightarrow> None)"

definition osMkdirAll :: "'e os_env_scheme \<Rightarrow> gopath \<Rightarrow> (err, 'w os_world_scheme, unit) io" where
  "osMkdirAll E p = syscall E (\<lambda>w. case mkdirs (prefixesOf p) (nodes w) of
      None \<Rightarrow> (Inl (OsErr ''not a directory''), w)
    | Some st \<Rightarrow> (Inr (), w\<lparr>nodes := st\<rparr>))"

definition osReadDir :: "'e os_env_scheme \<Rightarrow> gopath \<Rightarrow> (err, 'w os_world_scheme, gopath list) io" where
  "osReadDir E p = syscall E (\<lambda>w.
      if isDirAt (nodes w) p then (Inr (entriesIn p (nodes w)), w)
      else (Inl (OsErr ''not a directory''), w))"

definition osOpen :: "'e os_env_scheme \<Rightarrow> gopath \<Rightarrow> (err, 'w os_world_scheme, node) io" where
  "osOpen E p = syscall E (\<lambda>w. case nodeAt (nodes w) p of
      None \<Rightarrow> (Inl (OsErr ''no such file or directory''), w)
    | Some n \<Rightarrow> (Inr n, w))"

definition osCreate :: "'e os_env_scheme \<Rightarrow> gopath \<Rightarrow> (err, 'w os_world_scheme, unit) io" where
  "osCreate E p = syscall E (\<lambda>w.
      if \<not> isDirAt (nodes w) (parentOf p) then (Inl (OsErr ''no such file or directory''), w)
      else if isDirAt (nodes w) p then (Inl (OsErr ''is a directory''), w)
      else (Inr (), w\<lparr>nodes := putNode p (File []) (nodes w)\<rparr>))"

text \<open>\<open>io.Copy\<close> from an open source to an open file: a failure leaves some prefix written.\<close>

definition osCopy :: "'e os_env_scheme \<Rightarrow> node \<Rightarrow> gopath \<Rightarrow> (err, 'w os_world_scheme, unit) io" where
  "osCopy E src p w =
     (let w' = w\<lparr>tick := Suc (tick w)\<rparr> in
      case (os_fault E (tick w), src) of
        (None, File b) \<Rightarrow> (Inr (), w'\<lparr>nodes := putNode p (File b) (nodes w')\<rparr>)
      | (Some m, File b) \<Rightarrow>
          (Inl (OsErr m), w'\<lparr>nodes := putNode p (File (take (os_partial E (tick w)) b)) (nodes w')\<rparr>)
      | (_, Dir) \<Rightarrow> (Inl (OsErr ''is a directory''), w'))"

definition osClose :: "'e os_env_scheme \<Rightarrow> (err, 'w os_world_scheme, unit) io" where
  "osClose E = syscall E (\<lambda>w. (Inr (), w))"

text \<open>\<open>os.MkdirTemp\<close> and \<open>os.CreateTemp\<close>: a name that is not in use, under the temp root.\<close>

definition osMkdirTemp :: "'e os_env_scheme \<Rightarrow> (err, 'w os_world_scheme, gopath) io" where
  "osMkdirTemp E = syscall E (\<lambda>w.
     let p = joinPath tempRoot (os_tempname E (tick w)) in
     if nodeAt (nodes w) p = None then (Inr p, w\<lparr>nodes := putNode p Dir (nodes w)\<rparr>)
     else (Inl (OsErr ''file exists''), w))"

definition osCreateTemp :: "'e os_env_scheme \<Rightarrow> (err, 'w os_world_scheme, gopath) io" where
  "osCreateTemp E = syscall E (\<lambda>w.
     let p = joinPath tempRoot (os_tempname E (tick w)) in
     if nodeAt (nodes w) p = None then (Inr p, w\<lparr>nodes := putNode p (File []) (nodes w)\<rparr>)
     else (Inl (OsErr ''file exists''), w))"

definition osRemoveAll :: "'e os_env_scheme \<Rightarrow> gopath \<Rightarrow> (err, 'w os_world_scheme, unit) io" where
  "osRemoveAll E p = syscall E (\<lambda>w.
     (Inr (), w\<lparr>nodes := filter (\<lambda>e. fst e \<noteq> p \<and> \<not> isInside p (fst e)) (nodes w)\<rparr>))"

definition isEmptyDir :: "'e os_env_scheme \<Rightarrow> gopath \<Rightarrow> (err, 'w os_world_scheme, bool) io" where
  "isEmptyDir E p = andThen (osReadDir E p) (\<lambda>es. ret (length es = 0))"

definition copyFile :: "'e os_env_scheme \<Rightarrow> gopath \<Rightarrow> gopath \<Rightarrow> (err, 'w os_world_scheme, unit) io" where
  "copyFile E src dst =
     andThen (osOpen E src) (\<lambda>inp.
     deferring (\<lambda>w. snd (osClose E w))
       (andThen (osCreate E dst) (\<lambda>_.
        andThen (attempt (osCopy E inp dst)) (\<lambda>r. case r of
          Inl e \<Rightarrow> andThen (attempt (osClose E)) (\<lambda>(_ :: err + unit). throw e)
        | Inr _ \<Rightarrow> osClose E))))"

section \<open>Frame properties\<close>

text \<open>Nothing outside \<open>A\<close> changes.\<close>

definition touchesOnly :: "gopath set \<Rightarrow> 'w os_world_scheme \<Rightarrow> 'w os_world_scheme \<Rightarrow> bool" where
  "touchesOnly A w w' \<longleftrightarrow> fstore.same_outside A (nodes w) (nodes w')"

interpretation touching: step_relation "touchesOnly A" for A
  by unfold_locales
    (auto simp: touchesOnly_def intro: fstore.same_outside_refl fstore.same_outside_trans)

lemma touchesOnly_nodeAt: "touchesOnly A w w' \<Longrightarrow> p \<notin> A \<Longrightarrow> nodeAt (nodes w') p = nodeAt (nodes w) p"
  unfolding touchesOnly_def fstore.same_outside_def by blast

lemma touchesOnly_mono: "touchesOnly A w w' \<Longrightarrow> A \<subseteq> B \<Longrightarrow> touchesOnly B w w'"
  by (auto simp: touchesOnly_def fstore.same_outside_def)

lemma touchesOnly_nodes: "nodes w' = nodes w \<Longrightarrow> touchesOnly A w w'"
  by (simp add: touchesOnly_def fstore.same_outside_def)

lemma touchesOnly_tick [simp]: "touchesOnly A (w\<lparr>tick := k\<rparr>) w' = touchesOnly A w w'"
  by (simp add: touchesOnly_def)

lemma keeps_syscall:
  "(\<And>w. touchesOnly A w (snd (act w))) \<Longrightarrow> keeps (touchesOnly A) (syscall E act)"
proof (rule keepsI)
  fix s
  assume act: "\<And>w. touchesOnly A w (snd (act w))"
  show "touchesOnly A s (snd (syscall E act s))"
    using act[of "s\<lparr>tick := Suc (tick s)\<rparr>"]
    by (auto simp: syscall_def Let_def touchesOnly_nodes split: option.splits)
qed

lemma keeps_readonly [frame_intros]:
  "keeps (touchesOnly A) (osStat E p)"
  "keeps (touchesOnly A) (osReadDir E p)"
  "keeps (touchesOnly A) (osOpen E p)"
  "keeps (touchesOnly A) (osClose E)"
  by (auto simp: osStat_def osReadDir_def osOpen_def osClose_def touchesOnly_nodes
      intro!: keeps_syscall split: option.splits)

lemma keeps_osRemove [frame_intros]: "p \<in> A \<Longrightarrow> keeps (touchesOnly A) (osRemove E p)"
  by (auto simp: osRemove_def touchesOnly_def
      intro!: keeps_syscall fstore.same_outside_refl fstore.same_outside_remove
      split: option.splits node.splits)

lemma keeps_osCreate [frame_intros]: "p \<in> A \<Longrightarrow> keeps (touchesOnly A) (osCreate E p)"
  by (auto simp: osCreate_def touchesOnly_def
      intro!: keeps_syscall fstore.same_outside_refl fstore.same_outside_write)

lemma keeps_osCopy [frame_intros]: "p \<in> A \<Longrightarrow> keeps (touchesOnly A) (osCopy E src p)"
  by (auto simp: osCopy_def touchesOnly_def Let_def
      intro!: keepsI fstore.same_outside_refl fstore.same_outside_write
      split: option.splits node.splits)

lemma mkdirs_outside:
  "mkdirs ps st = Some st' \<Longrightarrow> set ps \<subseteq> A \<Longrightarrow> fstore.same_outside A st st'"
  by (induction ps st arbitrary: st' rule: mkdirs.induct)
    (auto split: option.splits node.splits
      intro: fstore.same_outside_refl fstore.same_outside_trans fstore.same_outside_write)

lemma keeps_osMkdirAll [frame_intros]:
  "set (prefixesOf p) \<subseteq> A \<Longrightarrow> keeps (touchesOnly A) (osMkdirAll E p)"
  by (auto simp: osMkdirAll_def touchesOnly_def
      intro!: keeps_syscall fstore.same_outside_refl mkdirs_outside split: option.splits)

lemma touchesOnly_osClose [frame_intros]: "touchesOnly A w (snd (osClose E w))"
  using keeps_readonly(4)[of A E] by (simp only: keeps_def) (erule spec)

lemma keeps_copyFile [frame_intros]: "p \<in> A \<Longrightarrow> keeps (touchesOnly A) (copyFile E src p)"
  unfolding copyFile_def
  by (intro touching.keeps_rules frame_intros; (rule frame_intros | assumption)?)

lemma keeps_isEmptyDir [frame_intros]: "keeps (touchesOnly A) (isEmptyDir E p)"
  by (auto simp: isEmptyDir_def intro!: touching.keeps_rules frame_intros)

end
