(* ===== verification/Go_Strings.thy ===== *)
theory Go_Strings
  imports Prelude
begin

text \<open>
  The parts of Go's \<open>strings\<close>, \<open>unicode\<close> and \<open>utf8\<close> packages the code compares option
  strings with: \<open>TrimSpace\<close>, \<open>ToLower\<close> and \<open>EqualFold\<close>. A Go string is a byte
  sequence, here a \<open>string\<close> (a \<open>char\<close> is a byte); it is decoded to code points first.

  The code only ever compares the result with ASCII literals. Two code points outside
  ASCII have an ASCII lower case (U+0130 and the Kelvin sign U+212A) and two fold to
  an ASCII letter (U+017F and U+212A); every other code point outside ASCII stays
  outside ASCII under both maps, so leaving it unchanged gives the same comparisons.
\<close>

type_synonym rune = nat

definition runeError :: rune where
  "runeError = 65533"

definition cont :: "nat \<Rightarrow> bool" where
  "cont b \<longleftrightarrow> 128 \<le> b \<and> b \<le> 191"

text \<open>Well-formed two, three and four byte sequences (no overlong forms, no surrogates).\<close>

definition seq2 :: "nat \<Rightarrow> nat \<Rightarrow> bool" where
  "seq2 b c \<longleftrightarrow> 194 \<le> b \<and> b \<le> 223 \<and> cont c"

definition seq3 :: "nat \<Rightarrow> nat \<Rightarrow> nat \<Rightarrow> bool" where
  "seq3 b c d \<longleftrightarrow> 224 \<le> b \<and> b \<le> 239 \<and> cont c \<and> cont d \<and>
     (b = 224 \<longrightarrow> 160 \<le> c) \<and> (b = 237 \<longrightarrow> c \<le> 159)"

definition seq4 :: "nat \<Rightarrow> nat \<Rightarrow> nat \<Rightarrow> nat \<Rightarrow> bool" where
  "seq4 b c d e \<longleftrightarrow> 240 \<le> b \<and> b \<le> 244 \<and> cont c \<and> cont d \<and> cont e \<and>
     (b = 240 \<longrightarrow> 144 \<le> c) \<and> (b = 244 \<longrightarrow> c \<le> 143)"

fun decodeUTF8 :: "nat list \<Rightarrow> rune list" where
  "decodeUTF8 [] = []"
| "decodeUTF8 (b # bs) =
     (if b < 128 then b # decodeUTF8 bs
      else (case bs of
        [] \<Rightarrow> [runeError]
      | c # cs \<Rightarrow>
          if seq2 b c then ((b - 192) * 64 + (c - 128)) # decodeUTF8 cs
          else (case cs of
            [] \<Rightarrow> runeError # decodeUTF8 bs
          | d # ds \<Rightarrow>
              if seq3 b c d
              then ((b - 224) * 4096 + (c - 128) * 64 + (d - 128)) # decodeUTF8 ds
              else (case ds of
                [] \<Rightarrow> runeError # decodeUTF8 bs
              | e # es \<Rightarrow>
                  if seq4 b c d e
                  then ((b - 240) * 262144 + (c - 128) * 4096 + (d - 128) * 64 + (e - 128))
                    # decodeUTF8 es
                  else runeError # decodeUTF8 bs))))"

definition runes :: "string \<Rightarrow> rune list" where
  "runes s = decodeUTF8 (map of_char s)"

definition isSpace :: "rune \<Rightarrow> bool" where
  "isSpace r \<longleftrightarrow> r \<in> {9, 10, 11, 12, 13, 32, 133, 160, 5760, 8232, 8233, 8239, 8287, 12288} \<or>
     (8192 \<le> r \<and> r \<le> 8202)"

definition trimSpace :: "rune list \<Rightarrow> rune list" where
  "trimSpace rs = rev (dropWhile isSpace (rev (dropWhile isSpace rs)))"

definition lowerRune :: "rune \<Rightarrow> rune" where
  "lowerRune r =
     (if 65 \<le> r \<and> r \<le> 90 then r + 32
      else if r = 304 then 105
      else if r = 8490 then 107
      else r)"

definition toLower :: "rune list \<Rightarrow> rune list" where
  "toLower rs = map lowerRune rs"

text \<open>The representative of a rune's simple case-folding orbit.\<close>

definition foldRune :: "rune \<Rightarrow> rune" where
  "foldRune r =
     (if 65 \<le> r \<and> r \<le> 90 then r + 32
      else if r = 383 then 115
      else if r = 8490 then 107
      else r)"

definition equalFold :: "rune list \<Rightarrow> rune list \<Rightarrow> bool" where
  "equalFold rs ts \<longleftrightarrow> map foldRune rs = map foldRune ts"

text \<open>\<open>strings.ToLower(strings.TrimSpace(s))\<close>, what the option switches look at.\<close>

definition normalized :: "string \<Rightarrow> rune list" where
  "normalized s = toLower (trimSpace (runes s))"

section \<open>Facts\<close>

text \<open>The definitions to unfold when evaluating a comparison on a literal string.\<close>

lemmas rune_eval = normalized_def toLower_def lowerRune_def trimSpace_def isSpace_def runes_def
  seq2_def seq3_def seq4_def cont_def runeError_def

lemma decodeUTF8_ascii: "\<forall>b \<in> set bs. b < 128 \<Longrightarrow> decodeUTF8 bs = bs"
  by (induction bs) auto

lemma runes_ascii: "\<forall>c \<in> set s. (of_char c :: nat) < 128 \<Longrightarrow> runes s = map of_char s"
  by (simp add: runes_def decodeUTF8_ascii)

lemma set_trimSpace: "set (trimSpace rs) \<subseteq> set rs"
  unfolding trimSpace_def by (metis set_dropWhileD set_rev subsetI)

text \<open>
  Lower-casing and case folding agree rune by rune except on the two code points that
  only one of them maps into ASCII.
\<close>

lemma lowerRune_foldRune: "r \<noteq> 304 \<Longrightarrow> r \<noteq> 383 \<Longrightarrow> lowerRune r = foldRune r"
  by (simp add: lowerRune_def foldRune_def)

lemma map_lowerRune_foldRune:
  "304 \<notin> set rs \<Longrightarrow> 383 \<notin> set rs \<Longrightarrow> map lowerRune rs = map foldRune rs"
  by (induction rs) (auto simp: lowerRune_foldRune)

lemma lowerRune_383: "lowerRune r = 383 \<longleftrightarrow> r = 383"
  by (auto simp: lowerRune_def)

lemma lower_mem_383: "383 \<in> set rs \<Longrightarrow> 383 \<in> set (toLower rs)"
  by (auto simp: toLower_def lowerRune_383 image_iff intro!: bexI[of _ 383])

end
