(* ===== verification/Preset_Map.thy ===== *)
theory Preset_Map
  imports Errors Go_Strings
begin

text \<open>
  \<open>internal/crypto/presetmap.go\<close>: the maps from the user-facing preset, eval-mode and
  encode-type strings to the integer enums of the evi C API.
\<close>

definition eviPresetIP0 :: int where "eviPresetIP0 = 5"
definition eviPresetIP1 :: int where "eviPresetIP1 = 6"
definition eviEvalModeRMP :: int where "eviEvalModeRMP = 0"
definition eviEvalModeFlat :: int where "eviEvalModeFlat = 3"
definition eviEvalModeMM :: int where "eviEvalModeMM = 4"
definition eviEncodeItem :: int where "eviEncodeItem = 0"
definition eviEncodeQuery :: int where "eviEncodeQuery = 1"

definition presetToEnum :: "string \<Rightarrow> err + int" where
  "presetToEnum s =
     (let t = normalized s in
      if t = runes '''' \<or> t = runes ''ip'' \<or> t = runes ''ip0'' then Inr eviPresetIP0
      else if t = runes ''ip1'' then Inr eviPresetIP1
      else Inl (Errorf [Lit ''runespace/crypto: invalid preset '', Quo s,
        Lit '' (supported: ip, ip0, ip1)'']))"

definition evalModeToEnum :: "string \<Rightarrow> err + int" where
  "evalModeToEnum s =
     (let t = normalized s in
      if t = runes '''' \<or> t = runes ''rmp'' then Inr eviEvalModeRMP
      else if t = runes ''flat'' then Inr eviEvalModeFlat
      else if t = runes ''mm'' then Inr eviEvalModeMM
      else Inl (Errorf [Lit ''runespace/crypto: invalid eval_mode '', Quo s,
        Lit '' (supported: rmp, flat, mm)'']))"

definition encodeTypeToEnum :: "string \<Rightarrow> err + int" where
  "encodeTypeToEnum s =
     (let t = normalized s in
      if t = runes ''item'' then Inr eviEncodeItem
      else if t = runes ''query'' then Inr eviEncodeQuery
      else Inl (Errorf [Lit ''runespace/crypto: invalid encode type '', Quo s,
        Lit '' (supported: item, query)'']))"

lemmas enum_defs = presetToEnum_def evalModeToEnum_def encodeTypeToEnum_def
  eviPresetIP0_def eviPresetIP1_def eviEvalModeRMP_def eviEvalModeFlat_def eviEvalModeMM_def
  eviEncodeItem_def eviEncodeQuery_def

text \<open>The strings the SDK itself passes down are all accepted.\<close>

lemma presetToEnum_sdk [simp]: "presetToEnum ''ip0'' = Inr 5" "presetToEnum ''ip1'' = Inr 6"
  by (simp_all add: enum_defs rune_eval)

lemma evalModeToEnum_sdk [simp]:
  "evalModeToEnum ''rmp'' = Inr 0" "evalModeToEnum ''flat'' = Inr 3" "evalModeToEnum ''mm'' = Inr 4"
  by (simp_all add: enum_defs rune_eval)

lemma encodeTypeToEnum_sdk [simp]: "encodeTypeToEnum ''item'' = Inr 0"
  by (simp add: enum_defs rune_eval)

end
