(* ===== verification/Crypto_Cgo.thy ===== *)
theory Crypto_Cgo
  imports Os_Files Preset_Map Go_Float
begin

text \<open>
  \<open>internal/crypto/cryptocgo.go\<close> and \<open>crypto.go\<close>: the provider that binds the evi C
  library. The library itself is not part of the repository's Go code. Every call into it
  is an event of a log; the environment says what the \<open>k\<close>-th call of a run returns (its
  status, the message of the last error, the bytes, counts and scores it produces), so a
  statement for every environment covers every behaviour of the library. A call that
  succeeds in creating an object yields a fresh handle; what the Go code does with the
  handles (their use, their destruction, the order of both) is modelled in full.

  \<open>pinThread\<close>, finalizers, \<open>runtime.KeepAlive\<close> and the read-write locks of the encryptor and
  decryptor have no sequential effect; what they are for is shown in the theories
  \<open>Thread_Pinning\<close>, \<open>Object_Lifetimes\<close> and \<open>Bundle_Lock\<close>. The message of an error is the one the
  failing call left, or what the destruction of an object in between left of it;
  \<open>Thread_Pinning\<close> shows that this is the one the code reads.
\<close>

section \<open>Handles, the log and the environment\<close>

datatype hkind = HContext | HKeyPack | HKeyGen | HSecKey | HEncryptor | HDecryptor
  | HQueryArray | HSearchResult | HMessage | HBuffer

datatype handle = Handle (hkindOf: hkind) (hid: nat)

datatype c_event =
    Called string "handle list" "int list" "gofloat list"
  | Created handle
  | Destroyed handle

record cgo_world = os_world +
  c_log :: "c_event list"

record cgo_env = os_env +
  c_status :: "nat \<Rightarrow> int"
  c_message :: "nat \<Rightarrow> string"
  c_destroyed :: "string \<Rightarrow> string"
  c_blob :: "nat \<Rightarrow> bytes"
  c_count :: "nat \<Rightarrow> nat"
  c_scores :: "nat \<Rightarrow> gofloat list"
  c_partial :: "nat \<Rightarrow> bytes option"
  km_wrap :: "string \<Rightarrow> string \<Rightarrow> bytes \<Rightarrow> bytes"
  km_unwrap :: "string \<Rightarrow> bytes \<Rightarrow> bytes option"

definition EVI_STATUS_SUCCESS :: int where
  "EVI_STATUS_SUCCESS = 0"

definition EVI_DEVICE_TYPE_CPU :: int where
  "EVI_DEVICE_TYPE_CPU = 0"

text \<open>One call into the library: its number and status.\<close>

definition c_invoke ::
  "'e cgo_env_scheme \<Rightarrow> string \<Rightarrow> handle list \<Rightarrow> int list \<Rightarrow> gofloat list \<Rightarrow>
   (err, 'w cgo_world_scheme, nat \<times> int) io" where
  "c_invoke E op hs ns vs w =
     (Inr (tick w, c_status E (tick w)),
      w\<lparr>tick := Suc (tick w), c_log := c_log w @ [Called op hs ns vs]\<rparr>)"

definition c_created :: "handle \<Rightarrow> 'w cgo_world_scheme \<Rightarrow> 'w cgo_world_scheme" where
  "c_created h w = w\<lparr>c_log := c_log w @ [Created h]\<rparr>"

definition c_free :: "handle \<Rightarrow> 'w cgo_world_scheme \<Rightarrow> 'w cgo_world_scheme" where
  "c_free h w = w\<lparr>c_log := c_log w @ [Destroyed h]\<rparr>"

section \<open>Errors of the library\<close>

definition wrapEviError :: "'e cgo_env_scheme \<Rightarrow> nat \<Rightarrow> string \<Rightarrow> int \<Rightarrow> err" where
  "wrapEviError E k op st =
     (let msg = c_message E k in
      if msg = [] then Errorf [Lit ''runespace/crypto: '', Str op, Lit '': status='', Dec st]
      else Errorf [Lit ''runespace/crypto: '', Str op, Lit '': '', Str msg, Lit '' (status='',
        Dec st, Lit '')''])"

text \<open>
  Destroying an object is a call without a status. What it leaves of the last message is the
  library's affair, the field \<open>c_destroyed\<close>; \<open>afterDestroy\<close> is the library as a code path sees it
  that destroys an object before it asks for the message.
\<close>

definition afterDestroy :: "'e cgo_env_scheme \<Rightarrow> 'e cgo_env_scheme" where
  "afterDestroy E = E\<lparr>c_message := \<lambda>k. c_destroyed E (c_message E k)\<rparr>"

lemma afterDestroy_simps [simp]:
  "c_message (afterDestroy E) k = c_destroyed E (c_message E k)" "c_status (afterDestroy E) = c_status E"
  "os_fault (afterDestroy E) = os_fault E" "c_blob (afterDestroy E) = c_blob E"
  by (simp_all add: afterDestroy_def)

text \<open>\<open>kmShimError\<close> and \<open>encShimError\<close> differ in the text of the default case only.\<close>

definition shimError :: "string \<Rightarrow> 'e cgo_env_scheme \<Rightarrow> nat \<Rightarrow> string \<Rightarrow> int \<Rightarrow> err option" where
  "shimError what E k op rc =
     (let msg = c_message E k in
      if rc = 0 then None
      else if rc = -1 then
        (if msg = [] then Some (Errorf [Lit ''runespace/crypto: '', Str op, Lit '': invalid argument''])
         else Some (Errorf [Lit ''runespace/crypto: '', Str op, Lit '': '', Str msg]))
      else
        (if msg = []
         then Some (Errorf [Lit ''runespace/crypto: '', Str op, Lit '': '', Lit what, Lit '' exception (rc='',
           Dec rc, Lit '')''])
         else Some (Errorf [Lit ''runespace/crypto: '', Str op, Lit '': '', Str msg])))"

definition kmShimError :: "'e cgo_env_scheme \<Rightarrow> nat \<Rightarrow> string \<Rightarrow> int \<Rightarrow> err option" where
  "kmShimError E = shimError ''KeyManager'' E"

definition encShimError :: "'e cgo_env_scheme \<Rightarrow> nat \<Rightarrow> string \<Rightarrow> int \<Rightarrow> err option" where
  "encShimError E = shimError ''encryptor shim'' E"

section \<open>Scoped handles\<close>

text \<open>A call that hands out an object: the object exists only if the call reports no error.\<close>

definition c_acquire ::
  "'e cgo_env_scheme \<Rightarrow> hkind \<Rightarrow> string \<Rightarrow> handle list \<Rightarrow> int list \<Rightarrow> gofloat list \<Rightarrow>
   (nat \<Rightarrow> int \<Rightarrow> 'w cgo_world_scheme \<Rightarrow> err option) \<Rightarrow> (err, 'w cgo_world_scheme, handle) io" where
  "c_acquire E kind op hs ns vs failed =
     andThen (c_invoke E op hs ns vs) (\<lambda>(k, st) w.
       case failed k st w of
         Some e \<Rightarrow> (Inl e, w)
       | None \<Rightarrow> (Inr (Handle kind k), c_created (Handle kind k) w))"

definition eviFailed :: "'e cgo_env_scheme \<Rightarrow> string \<Rightarrow> nat \<Rightarrow> int \<Rightarrow> err option" where
  "eviFailed E op k st =
     (if st \<noteq> EVI_STATUS_SUCCESS then Some (wrapEviError E k op st) else None)"

definition c_create ::
  "'e cgo_env_scheme \<Rightarrow> hkind \<Rightarrow> string \<Rightarrow> handle list \<Rightarrow> int list \<Rightarrow> gofloat list \<Rightarrow>
   (err, 'w cgo_world_scheme, handle) io" where
  "c_create E kind op hs ns vs = c_acquire E kind op hs ns vs (\<lambda>k st w. eviFailed E op k st)"

definition c_step ::
  "'e cgo_env_scheme \<Rightarrow> string \<Rightarrow> handle list \<Rightarrow> int list \<Rightarrow> (err, 'w cgo_world_scheme, nat) io" where
  "c_step E op hs ns =
     andThen (c_invoke E op hs ns []) (\<lambda>(k, st).
       if st \<noteq> EVI_STATUS_SUCCESS then throw (wrapEviError E k op st) else ret k)"

text \<open>\<open>C.malloc\<close>, nil on failure, and \<open>C.CString\<close>, which never returns nil.\<close>

definition c_malloc :: "'e cgo_env_scheme \<Rightarrow> (err, 'w cgo_world_scheme, handle) io" where
  "c_malloc E = c_acquire E HBuffer ''malloc'' [] [] []
     (\<lambda>k st w. if st \<noteq> 0 then Some (Errorf [Lit ''runespace/crypto: malloc failed'']) else None)"

definition c_string :: "'e cgo_env_scheme \<Rightarrow> (err, 'w cgo_world_scheme, handle) io" where
  "c_string E = c_acquire E HBuffer ''CString'' [] [] [] (\<lambda>k st w. None)"

text \<open>Create an object, \<open>defer\<close> its destruction, go on.\<close>

definition scoped ::
  "(err, 'w cgo_world_scheme, handle) io \<Rightarrow> (handle \<Rightarrow> (err, 'w cgo_world_scheme, 'a) io) \<Rightarrow>
   (err, 'w cgo_world_scheme, 'a) io" where
  "scoped create body = andThen create (\<lambda>h. deferring (c_free h) (body h))"

section \<open>Context\<close>

record cgoContext =
  ctx_c :: "handle option"

record CKKSParams =
  cp_preset :: string
  cp_dims :: "int list"
  cp_mode :: string

definition toUint64 :: "int \<Rightarrow> int" where
  "toUint64 n = n mod 2 ^ 64"

definition NewCKKSContext ::
  "'e cgo_env_scheme \<Rightarrow> CKKSParams \<Rightarrow> (err, 'w cgo_world_scheme, cgoContext) io" where
  "NewCKKSContext E params =
     (if length (cp_dims params) = 0
      then throw (Errorf [Lit ''runespace/crypto: CKKSParams.DimList must contain at least one dim''])
      else andThen (liftRes (presetToEnum (cp_preset params))) (\<lambda>preset.
        andThen (liftRes (evalModeToEnum (cp_mode params))) (\<lambda>mode.
        andThen (c_create E HContext ''evi_context_create'' []
          [preset, EVI_DEVICE_TYPE_CPU, toUint64 (hd (cp_dims params)), mode] []) (\<lambda>ctx.
        ret \<lparr>ctx_c = Some ctx\<rparr>))))"

text \<open>\<open>Close\<close> destroys each live handle and forgets it.\<close>

definition closeHandle :: "handle option \<Rightarrow> 'w cgo_world_scheme \<Rightarrow> 'w cgo_world_scheme" where
  "closeHandle h w = (case h of None \<Rightarrow> w | Some h \<Rightarrow> c_free h w)"

definition ContextClose :: "cgoContext \<Rightarrow> 'w cgo_world_scheme \<Rightarrow> cgoContext \<times> 'w cgo_world_scheme" where
  "ContextClose c w = (c\<lparr>ctx_c := None\<rparr>, closeHandle (ctx_c c) w)"

section \<open>Key envelopes\<close>

text \<open>
  The shim calls the KeyManager of the library. A call can succeed only if its input is a
  readable file (and, for unwrapping, an envelope of the right kind); then the output file
  holds the converted bytes. A failed call may leave a partial output file. An empty key
  id is refused by the shim with \<open>-1\<close>.
\<close>

definition fileAt :: "store \<Rightarrow> gopath \<Rightarrow> bytes option" where
  "fileAt st p = (case nodeAt st p of Some (File b) \<Rightarrow> Some b | _ \<Rightarrow> None)"

definition km_convert ::
  "'e cgo_env_scheme \<Rightarrow> string \<Rightarrow> bool \<Rightarrow> (bytes \<Rightarrow> bytes option) \<Rightarrow> gopath \<Rightarrow> gopath \<Rightarrow>
   (err, 'w cgo_world_scheme, unit) io" where
  "km_convert E op argsOk conv src dst =
     andThen (c_invoke E op [] [] []) (\<lambda>(k, st) w.
       let out = Option.bind (fileAt (nodes w) src) conv;
           rc = (if \<not> argsOk then -1 else if st = 0 \<and> out = None then -2 else st) in
       case kmShimError E k op rc of
         None \<Rightarrow> (Inr (), w\<lparr>nodes := putNode dst (File (the out)) (nodes w)\<rparr>)
       | Some e \<Rightarrow> (Inl e, (case (if argsOk then c_partial E k else None) of
             None \<Rightarrow> w | Some b \<Rightarrow> w\<lparr>nodes := putNode dst (File b) (nodes w)\<rparr>)))"

definition wrapKey :: "'e cgo_env_scheme \<Rightarrow> string \<Rightarrow> string \<Rightarrow> string \<Rightarrow> gopath \<Rightarrow> gopath \<Rightarrow>
    (err, 'w cgo_world_scheme, unit) io" where
  "wrapKey E kind op keyID binPath jsonPath =
     scoped (c_string E) (\<lambda>_. scoped (c_string E) (\<lambda>_. scoped (c_string E) (\<lambda>_.
       km_convert E op (keyID \<noteq> []) (\<lambda>b. Some (km_wrap E kind keyID b)) binPath jsonPath)))"

definition unwrapKey :: "'e cgo_env_scheme \<Rightarrow> string \<Rightarrow> string \<Rightarrow> gopath \<Rightarrow> gopath \<Rightarrow>
    (err, 'w cgo_world_scheme, unit) io" where
  "unwrapKey E kind op jsonPath binPath =
     scoped (c_string E) (\<lambda>_. scoped (c_string E) (\<lambda>_.
       km_convert E op True (km_unwrap E kind) jsonPath binPath))"

definition WrapSecKey :: "'e cgo_env_scheme \<Rightarrow> string \<Rightarrow> gopath \<Rightarrow> gopath \<Rightarrow> (err, 'w cgo_world_scheme, unit) io" where
  "WrapSecKey E = wrapKey E ''sec'' ''evi_km_wrap_sec_key''"

definition WrapEncKey :: "'e cgo_env_scheme \<Rightarrow> string \<Rightarrow> gopath \<Rightarrow> gopath \<Rightarrow> (err, 'w cgo_world_scheme, unit) io" where
  "WrapEncKey E = wrapKey E ''enc'' ''evi_km_wrap_enc_key''"

definition WrapEvalKey :: "'e cgo_env_scheme \<Rightarrow> string \<Rightarrow> gopath \<Rightarrow> gopath \<Rightarrow> (err, 'w cgo_world_scheme, unit) io" where
  "WrapEvalKey E = wrapKey E ''eval'' ''evi_km_wrap_eval_key''"

definition UnwrapSecKey :: "'e cgo_env_scheme \<Rightarrow> gopath \<Rightarrow> gopath \<Rightarrow> (err, 'w cgo_world_scheme, unit) io" where
  "UnwrapSecKey E = unwrapKey E ''sec'' ''evi_km_unwrap_sec_key''"

definition UnwrapEncKey :: "'e cgo_env_scheme \<Rightarrow> gopath \<Rightarrow> gopath \<Rightarrow> (err, 'w cgo_world_scheme, unit) io" where
  "UnwrapEncKey E = unwrapKey E ''enc'' ''evi_km_unwrap_enc_key''"

definition UnwrapEvalKey :: "'e cgo_env_scheme \<Rightarrow> gopath \<Rightarrow> gopath \<Rightarrow> (err, 'w cgo_world_scheme, unit) io" where
  "UnwrapEvalKey E = unwrapKey E ''eval'' ''evi_km_unwrap_eval_key''"

end
