(* ===== verification/Crypto_Provider.thy ===== *)
theory Crypto_Provider
  imports Crypto_Cgo
begin

text \<open>
  \<open>internal/crypto/cryptocgo.go\<close>, second part: key generation, the encryptor and the
  decryptor. Each function is written over the calls of \<open>Crypto_Cgo\<close>, with the error
  paths and the deferred destructions of the source.
\<close>

section \<open>Key files\<close>

definition encKeyBinFile :: string where "encKeyBinFile = ''EncKey.bin''"
definition evalKeyBinFile :: string where "evalKeyBinFile = ''EvalKey.bin''"
definition secKeyBinFile :: string where "secKeyBinFile = ''SecKey.bin''"
definition encKeyJSONFile :: string where "encKeyJSONFile = ''EncKey.json''"
definition evalKeyJSONFile :: string where "evalKeyJSONFile = ''EvalKey.json''"
definition secKeyJSONFile :: string where "secKeyJSONFile = ''SecKey.json''"

lemmas key_file_defs = encKeyBinFile_def evalKeyBinFile_def secKeyBinFile_def
  encKeyJSONFile_def evalKeyJSONFile_def secKeyJSONFile_def

section \<open>Key generation\<close>

text \<open>\<open>KeyPath\<close> is \<open>None\<close> for the empty string.\<close>

record KeyGenParams =
  kg_ckks :: CKKSParams
  kg_path :: "gopath option"
  kg_id :: string

text \<open>The generator keeps its parameters; making one cannot fail.\<close>

record cgoKeyGen =
  gen_params :: KeyGenParams

definition NewKeyGenerator :: "KeyGenParams \<Rightarrow> (err, 'w cgo_world_scheme, cgoKeyGen) io" where
  "NewKeyGenerator p = ret \<lparr>gen_params = p\<rparr>"

text \<open>
  A saver of the library writes the file it is given; a failing one may leave a partial
  file. The secret key goes through the KeyManager shim, which writes to a temporary name
  beside the target and renames it on success.
\<close>

definition c_save :: "'e cgo_env_scheme \<Rightarrow> string \<Rightarrow> handle list \<Rightarrow> gopath \<Rightarrow>
    (err, 'w cgo_world_scheme, unit) io" where
  "c_save E op hs p =
     andThen (c_invoke E op hs [] []) (\<lambda>(k, st) w.
       if st = EVI_STATUS_SUCCESS then (Inr (), w\<lparr>nodes := putNode p (File (c_blob E k)) (nodes w)\<rparr>)
       else (Inl (wrapEviError E k op st),
         (case c_partial E k of None \<Rightarrow> w | Some b \<Rightarrow> w\<lparr>nodes := putNode p (File b) (nodes w)\<rparr>)))"

definition km_wrap_from_handle :: "'e cgo_env_scheme \<Rightarrow> handle list \<Rightarrow> string \<Rightarrow> gopath \<Rightarrow> string \<Rightarrow>
    (err, 'w cgo_world_scheme, unit) io" where
  "km_wrap_from_handle E hs keyID dir name =
     andThen (c_invoke E ''evi_km_wrap_sec_key_from_handle'' hs [] []) (\<lambda>(k, st) w.
       let rc = (if keyID = [] then -1 else st) in
       case kmShimError E k ''evi_km_wrap_sec_key_from_handle'' rc of
         None \<Rightarrow> (Inr (), w\<lparr>nodes := putNode (joinPath dir name)
             (File (km_wrap E ''sec'' keyID (c_blob E k))) (nodes w)\<rparr>)
       | Some e \<Rightarrow> (Inl e, (case (if keyID \<noteq> [] then c_partial E k else None) of
             None \<Rightarrow> w
           | Some b \<Rightarrow> w\<lparr>nodes := putNode (joinPath dir (name @ ''.tmp'')) (File b) (nodes w)\<rparr>)))"

text \<open>The C sequence of \<open>Generate\<close>, from the context on.\<close>

definition generateTrio ::
  "'e cgo_env_scheme \<Rightarrow> int \<Rightarrow> int \<Rightarrow> int \<Rightarrow> string \<Rightarrow> gopath \<Rightarrow> (err, 'w cgo_world_scheme, unit) io" where
  "generateTrio E preset mode n keyID dir =
     scoped (c_create E HContext ''evi_context_create'' [] [preset, EVI_DEVICE_TYPE_CPU, n, mode] [])
       (\<lambda>ctx.
     scoped (c_create E HKeyPack ''evi_keypack_create'' [ctx] [] []) (\<lambda>pack.
     scoped (c_create E HKeyGen ''evi_keygenerator_create'' [ctx, pack] [] []) (\<lambda>gen.
     scoped (c_create E HSecKey ''evi_keygenerator_generate_secret_key'' [gen] [] []) (\<lambda>sk.
     andThen (c_step E ''evi_keygenerator_generate_public_keys'' [gen, sk] []) (\<lambda>_.
     scoped (c_string E) (\<lambda>encPath.
     andThen (c_save E ''evi_keypack_save_enc_key'' [pack, encPath] (joinPath dir encKeyBinFile)) (\<lambda>_.
     scoped (c_string E) (\<lambda>evalPath.
     andThen (c_save E ''evi_keypack_save_eval_key'' [pack, evalPath] (joinPath dir evalKeyBinFile)) (\<lambda>_.
     scoped (c_string E) (\<lambda>secJSON.
     scoped (c_string E) (\<lambda>cKeyID.
     km_wrap_from_handle E [sk, cKeyID, secJSON] keyID dir secKeyJSONFile)))))))))))"

definition Generate :: "'e cgo_env_scheme \<Rightarrow> KeyGenParams \<Rightarrow> (err, 'w cgo_world_scheme, unit) io" where
  "Generate E p =
     (case kg_path p of
        None \<Rightarrow> throw (Errorf [Lit ''runespace/crypto: KeyPath required''])
      | Some dir \<Rightarrow>
          if length (cp_dims (kg_ckks p)) \<noteq> 1
          then throw (Errorf [Lit ''runespace/crypto: KeyGenerator needs exactly one dim, got '',
            Dec (int (length (cp_dims (kg_ckks p))))])
          else if kg_id p = []
          then throw (Errorf [Lit ''runespace/crypto: KeyID required to envelope the secret key''])
          else andThen (liftRes (presetToEnum (cp_preset (kg_ckks p)))) (\<lambda>preset.
            andThen (liftRes (evalModeToEnum (cp_mode (kg_ckks p)))) (\<lambda>mode.
            andThen (mapErr (wrapf ''runespace/crypto: mkdir key path'') (osMkdirAll E dir)) (\<lambda>_.
            andThen (isEmptyDir E dir) (\<lambda>empty.
            if \<not> empty
            then throw (Errorf [Lit ''runespace/crypto: key path '', Quo (pathString dir),
              Lit '' is not empty''])
            else generateTrio E preset mode (toUint64 (hd (cp_dims (kg_ckks p)))) (kg_id p) dir)))))"

section \<open>The encryptor\<close>

record cgoEncryptor =
  enc_h :: "handle option"
  pack_h :: "handle option"

definition EncryptorClose :: "cgoEncryptor \<Rightarrow> 'w cgo_world_scheme \<Rightarrow> cgoEncryptor \<times> 'w cgo_world_scheme" where
  "EncryptorClose e w = (\<lparr>enc_h = None, pack_h = None\<rparr>, closeHandle (pack_h e) (closeHandle (enc_h e) w))"

text \<open>A path-based loader cannot succeed without the file.\<close>

definition loadFailed :: "'e cgo_env_scheme \<Rightarrow> string \<Rightarrow> gopath \<Rightarrow> nat \<Rightarrow> int \<Rightarrow>
    'w cgo_world_scheme \<Rightarrow> err option" where
  "loadFailed E op p k st w =
     eviFailed E op k (if st = EVI_STATUS_SUCCESS \<and> fileAt (nodes w) p = None then 1 else st)"

definition c_load :: "'e cgo_env_scheme \<Rightarrow> string \<Rightarrow> handle list \<Rightarrow> gopath \<Rightarrow>
    (err, 'w cgo_world_scheme, unit) io" where
  "c_load E op hs p =
     andThen (c_invoke E op hs [] []) (\<lambda>(k, st) w.
       case loadFailed E op p k st w of Some e \<Rightarrow> (Inl e, w) | None \<Rightarrow> (Inr (), w))"

text \<open>
  An error path that destroys what was built so far, then asks for the message and returns
  the error: the calls on it run in \<open>afterDestroy E\<close>.
\<close>

definition orDestroy :: "handle \<Rightarrow> (err, 'w cgo_world_scheme, 'a) io \<Rightarrow>
    (err, 'w cgo_world_scheme, 'a) io" where
  "orDestroy h m = onFailure (c_free h) m"

definition NewEncryptor ::
  "'e cgo_env_scheme \<Rightarrow> cgoContext \<Rightarrow> gopath \<Rightarrow> (err, 'w cgo_world_scheme, cgoEncryptor) io" where
  "NewEncryptor E c keyDir =
     (case ctx_c c of
        None \<Rightarrow> throw (Errorf [Lit ''runespace/crypto: NewEncryptor requires an open cgo context''])
      | Some ctx \<Rightarrow>
          scoped (c_string E) (\<lambda>cKeyDir.
          andThen (c_create E HKeyPack ''evi_keypack_create'' [ctx] [] []) (\<lambda>pack.
          orDestroy pack
            (andThen (c_load (afterDestroy E) ''evi_keypack_load_enc_key'' [pack, cKeyDir] (joinPath keyDir encKeyBinFile)) (\<lambda>_.
             andThen (c_create (afterDestroy E) HEncryptor ''evi_encryptor_create'' [ctx] [] []) (\<lambda>enc.
             ret \<lparr>enc_h = Some enc, pack_h = Some pack\<rparr>))))))"

text \<open>
  \<open>C.GoBytes\<close> takes the size as a \<open>C.int\<close>: 32 bits, signed. A result of \<open>2 ^ 31\<close> bytes or more makes it
  negative or short; a negative size panics in Go, which the model leaves at the empty result.
\<close>

definition goBytes :: "bytes \<Rightarrow> bytes" where
  "goBytes b = take (nat (signed_take_bit 31 (int (length b)))) b"

lemma goBytes_small: "length b < 2 ^ 31 \<Longrightarrow> goBytes b = b"
  by (simp add: goBytes_def signed_take_bit_int_eq_self)

definition encryptorClosed :: err where
  "encryptorClosed = Errorf [Lit ''runespace/crypto: encryptor closed'']"

definition zeroDim :: err where
  "zeroDim = Errorf [Lit ''runespace/crypto: vector dim must be > 0'']"

definition EncryptSingle ::
  "'e cgo_env_scheme \<Rightarrow> cgoEncryptor \<Rightarrow> gofloat list \<Rightarrow> string \<Rightarrow> (err, 'w cgo_world_scheme, bytes) io" where
  "EncryptSingle E e vec encodeType =
     (case (enc_h e, pack_h e) of
        (Some enc, Some pack) \<Rightarrow>
          if vec = [] then throw zeroDim
          else andThen (liftRes (encodeTypeToEnum encodeType)) (\<lambda>encType.
            scoped (c_malloc E) (\<lambda>row.
            scoped (c_malloc E) (\<lambda>ptrArr.
            scoped (c_create E HQueryArray ''evi_encryptor_encrypt_batch_with_pack''
                [enc, pack, ptrArr, row] [int (length vec), 1, encType, 0] vec) (\<lambda>queries.
            if c_count E (hid queries) < 1
            then throw (Errorf [Lit ''runespace/crypto: batch encrypt returned no query''])
            else scoped (c_create E HBuffer ''evi_query_serialize_to_string'' [queries] [] []) (\<lambda>data.
              ret (goBytes (c_blob E (hid data))))))))
      | _ \<Rightarrow> throw encryptorClosed)"

definition EncryptRow ::
  "'e cgo_env_scheme \<Rightarrow> cgoEncryptor \<Rightarrow> gofloat list \<Rightarrow> string \<Rightarrow> int \<Rightarrow>
   (err, 'w cgo_world_scheme, bytes) io" where
  "EncryptRow E e vec encodeType level =
     (case (enc_h e, pack_h e) of
        (Some enc, Some pack) \<Rightarrow>
          if vec = [] then throw zeroDim
          else andThen (liftRes (encodeTypeToEnum encodeType)) (\<lambda>encType.
            scoped (c_malloc E) (\<lambda>row.
            scoped (c_acquire E HBuffer ''evi_enc_encrypt_row'' [enc, pack, row]
                [int (length vec), encType, level] vec
                (\<lambda>k rc w. encShimError E k ''evi_enc_encrypt_row'' rc)) (\<lambda>out.
            ret (goBytes (c_blob E (hid out))))))
      | _ \<Rightarrow> throw encryptorClosed)"

section \<open>The decryptor\<close>

record cgoDecryptor =
  dec_h :: "handle option"
  sk_h :: "handle option"

definition DecryptorClose :: "cgoDecryptor \<Rightarrow> 'w cgo_world_scheme \<Rightarrow> cgoDecryptor \<times> 'w cgo_world_scheme" where
  "DecryptorClose d w = (\<lparr>dec_h = None, sk_h = None\<rparr>, closeHandle (sk_h d) (closeHandle (dec_h d) w))"

definition NewDecryptor ::
  "'e cgo_env_scheme \<Rightarrow> cgoContext \<Rightarrow> gopath \<Rightarrow> (err, 'w cgo_world_scheme, cgoDecryptor) io" where
  "NewDecryptor E c keyDir =
     (case ctx_c c of
        None \<Rightarrow> throw (Errorf [Lit ''runespace/crypto: NewDecryptor requires an open cgo context''])
      | Some ctx \<Rightarrow>
          scoped (c_string E) (\<lambda>cPath.
          andThen (c_acquire E HSecKey ''evi_secret_key_create_from_path'' [cPath] [] []
              (loadFailed E ''evi_secret_key_create_from_path'' (joinPath keyDir secKeyBinFile))) (\<lambda>sk.
          orDestroy sk
            (andThen (c_create (afterDestroy E) HDecryptor ''evi_decryptor_create'' [ctx] [] []) (\<lambda>dec.
             ret \<lparr>dec_h = Some dec, sk_h = Some sk\<rparr>)))))"

definition DecryptSearchResult ::
  "'e cgo_env_scheme \<Rightarrow> cgoDecryptor \<Rightarrow> bytes \<Rightarrow> (err, 'w cgo_world_scheme, gofloat list) io" where
  "DecryptSearchResult E d result =
     (case (dec_h d, sk_h d) of
        (Some dec, Some sk) \<Rightarrow>
          if result = [] then throw (Errorf [Lit ''runespace/crypto: empty search result''])
          else scoped (c_create E HSearchResult ''evi_search_result_deserialize_from_string'' []
              (map uint result) []) (\<lambda>sr.
            scoped (c_create E HMessage ''evi_decryptor_decrypt_search_result_with_seckey'' [dec, sr, sk] [1] [])
              (\<lambda>msg.
            andThen (c_step E ''evi_search_result_get_item_count'' [sr] []) (\<lambda>k.
            let values = c_scores E (hid msg);
                n = min (c_count E k) (length values) in
            ret (take n values))))
      | _ \<Rightarrow> throw (Errorf [Lit ''runespace/crypto: decryptor closed'']))"

end
