(* ===== verification/Keys_Options.thy ===== *)
theory Keys_Options
  imports Errors Go_Strings
begin

text \<open>
  \<open>keysoptions.go\<close>: the functional options of \<open>KeysExist\<close>, \<open>GenerateKeys\<close> and
  \<open>OpenKeys\<close>, their validation, and the choice of key parts. An option is a function on
  the options record, as in the source.
\<close>

section \<open>Key parts and options\<close>

text \<open>\<open>KeyPart\<close> is an \<open>int\<close> type in the source: values other than the three constants exist.\<close>

type_synonym KeyPart = int

definition KeyPartEnc :: KeyPart where "KeyPartEnc = 0"
definition KeyPartEval :: KeyPart where "KeyPartEval = 1"
definition KeyPartSec :: KeyPart where "KeyPartSec = 2"

lemmas key_part_defs = KeyPartEnc_def KeyPartEval_def KeyPartSec_def

record keysOptions =
  Path :: string
  KeyID :: string
  Dim :: int
  Parts :: "KeyPart list"
  FlatMode :: string

type_synonym KeysOption = "keysOptions \<Rightarrow> keysOptions"

definition WithKeyPath :: "string \<Rightarrow> KeysOption" where
  "WithKeyPath p opts = opts\<lparr>Path := p\<rparr>"

definition WithKeyID :: "string \<Rightarrow> KeysOption" where
  "WithKeyID i opts = opts\<lparr>KeyID := i\<rparr>"

definition WithKeyDim :: "int \<Rightarrow> KeysOption" where
  "WithKeyDim d opts = opts\<lparr>Dim := d\<rparr>"

definition WithFlatMode :: "string \<Rightarrow> KeysOption" where
  "WithFlatMode m opts = opts\<lparr>FlatMode := m\<rparr>"

definition WithKeyParts :: "KeyPart list \<Rightarrow> KeysOption" where
  "WithKeyParts ps opts = opts\<lparr>Parts := ps\<rparr>"

lemmas keys_option_defs = WithKeyPath_def WithKeyID_def WithKeyDim_def WithFlatMode_def
  WithKeyParts_def

definition zeroKeysOptions :: keysOptions where
  "zeroKeysOptions = \<lparr>Path = [], KeyID = [], Dim = 0, Parts = [], FlatMode = []\<rparr>"

fun applyOptions :: "('a \<Rightarrow> 'a) list \<Rightarrow> 'a \<Rightarrow> 'a" where
  "applyOptions [] x = x"
| "applyOptions (f # fs) x = applyOptions fs (f x)"

definition buildKeysOptions :: "KeysOption list \<Rightarrow> keysOptions" where
  "buildKeysOptions opts = applyOptions opts zeroKeysOptions"

section \<open>Validation\<close>

definition validate :: "keysOptions \<Rightarrow> err + unit" where
  "validate opts =
     (if Path opts = [] then Inl (Errorf [Lit ''runespace: WithKeyPath required''])
      else if KeyID opts = [] then Inl (Errorf [Lit ''runespace: WithKeyID required''])
      else if Dim opts \<le> 0
        then Inl (Errorf [Lit ''runespace: WithKeyDim required (got '', Dec (Dim opts), Lit '')''])
      else (let t = normalized (FlatMode opts) in
        if t = runes '''' \<or> t = runes ''rmp'' \<or> t = runes ''single'' then Inr ()
        else Inl (Errorf [Lit ''runespace: WithFlatMode '', Quo (FlatMode opts),
          Lit '' must be rmp|single''])))"

fun partFlags :: "KeyPart list \<Rightarrow> bool \<times> bool \<times> bool \<Rightarrow> bool \<times> bool \<times> bool" where
  "partFlags [] fl = fl"
| "partFlags (p # ps) (enc, eval, sec) =
     partFlags ps
       (if p = KeyPartEnc then (True, eval, sec)
        else if p = KeyPartEval then (enc, True, sec)
        else if p = KeyPartSec then (enc, eval, True)
        else (enc, eval, sec))"

definition resolveKeyParts :: "KeyPart list \<Rightarrow> bool \<times> bool \<times> bool" where
  "resolveKeyParts ps = (if ps = [] then (True, True, True) else partFlags ps (False, False, False))"

section \<open>Facts\<close>

lemma applyOptions_append: "applyOptions (fs @ gs) x = applyOptions gs (applyOptions fs x)"
  by (induction fs arbitrary: x) auto

lemma applyOptions_invariant:
  "(\<And>f y. f \<in> set fs \<Longrightarrow> P y \<Longrightarrow> P (f y)) \<Longrightarrow> P x \<Longrightarrow> P (applyOptions fs x)"
  by (induction fs arbitrary: x) auto

lemma partFlags_eq:
  "partFlags ps (enc, eval, sec) =
    (enc \<or> KeyPartEnc \<in> set ps, eval \<or> KeyPartEval \<in> set ps, sec \<or> KeyPartSec \<in> set ps)"
  by (induction ps "(enc, eval, sec)" arbitrary: enc eval sec rule: partFlags.induct)
    (auto simp: key_part_defs)

lemma resolveKeyParts_eq:
  "resolveKeyParts ps =
    (ps = [] \<or> KeyPartEnc \<in> set ps, ps = [] \<or> KeyPartEval \<in> set ps, ps = [] \<or> KeyPartSec \<in> set ps)"
  by (simp add: resolveKeyParts_def partFlags_eq)

lemma validate_ok:
  "validate opts = Inr () \<longleftrightarrow>
    Path opts \<noteq> [] \<and> KeyID opts \<noteq> [] \<and> 0 < Dim opts \<and>
    normalized (FlatMode opts) \<in> {runes '''', runes ''rmp'', runes ''single''}"
  by (auto simp: validate_def Let_def)

lemma validate_not_sentinel: "validate opts = Inl e \<Longrightarrow> \<not> errorsIs e t"
  by (auto simp: validate_def Let_def split: if_splits)

end
