(* ===== verification/Key_Bundles.thy ===== *)
theory Key_Bundles
  imports Crypto_Provider Keys_Options
begin

text \<open>
  \<open>keys.go\<close>: the two key bundles of a key set, their generation on disk, opening, use and
  closing. A \<open>Keys\<close> value is a pointer in the source, shared between the caller and every
  client it is attached to, and \<open>Close\<close> mutates what all of them see: the world carries
  the allocated key sets and a \<open>Keys\<close> pointer is an index (\<open>None\<close> for nil).
\<close>

section \<open>Kinds and bundles\<close>

record keyKind =
  kk_name :: string
  kk_preset :: string
  kk_mode :: string
  kk_subdir :: string

definition rmpKind :: keyKind where
  "rmpKind = \<lparr>kk_name = ''rmp'', kk_preset = ''ip0'', kk_mode = ''rmp'', kk_subdir = ''rmp''\<rparr>"

definition mmKind :: keyKind where
  "mmKind = \<lparr>kk_name = ''mm'', kk_preset = ''ip1'', kk_mode = ''mm'', kk_subdir = ''mm''\<rparr>"

definition flatBundleKind :: "string \<Rightarrow> keyKind" where
  "flatBundleKind flatMode =
     (if equalFold (trimSpace (runes flatMode)) (runes ''single'') then rmpKind\<lparr>kk_mode := ''flat''\<rparr>
      else rmpKind)"

record keyBundle =
  kb_kind :: keyKind
  kb_dir :: gopath
  kb_ckks :: "cgoContext option"
  kb_enc :: "cgoEncryptor option"
  kb_dec :: "cgoDecryptor option"

record Keys =
  k_id :: string
  k_dim :: int
  k_rmp :: "keyBundle option"
  k_mm :: "keyBundle option"

type_synonym keysRef = "nat option"

record keys_world = cgo_world +
  k_objs :: "Keys list"

text \<open>\<open>close\<close>: the encryptor, the decryptor, the context; each is set to nil.\<close>

definition bundleClose :: "keyBundle \<Rightarrow> 'w cgo_world_scheme \<Rightarrow> keyBundle \<times> 'w cgo_world_scheme" where
  "bundleClose b w =
     (let w1 = (case kb_enc b of None \<Rightarrow> w | Some e \<Rightarrow> snd (EncryptorClose e w));
          w2 = (case kb_dec b of None \<Rightarrow> w1 | Some d \<Rightarrow> snd (DecryptorClose d w1));
          w3 = (case kb_ckks b of None \<Rightarrow> w2 | Some c \<Rightarrow> snd (ContextClose c w2))
      in (b\<lparr>kb_enc := None, kb_dec := None, kb_ckks := None\<rparr>, w3))"

section \<open>Slots on disk\<close>

definition resolveKeySlot :: "'e os_env_scheme \<Rightarrow> gopath \<Rightarrow> string \<Rightarrow> string \<Rightarrow>
    (err, 'w os_world_scheme, (gopath \<times> bool) option) io" where
  "resolveKeySlot E dir binName jsonName =
     andThen (attempt (osStat E (joinPath dir jsonName))) (\<lambda>r. case r of
       Inr _ \<Rightarrow> ret (Some (joinPath dir jsonName, True))
     | Inl _ \<Rightarrow> andThen (attempt (osStat E (joinPath dir binName))) (\<lambda>r. case r of
         Inr _ \<Rightarrow> ret (Some (joinPath dir binName, False))
       | Inl _ \<Rightarrow> ret None))"

definition slotPresent :: "'e os_env_scheme \<Rightarrow> gopath \<Rightarrow> string \<times> string \<Rightarrow>
    (err, 'w os_world_scheme, bool) io" where
  "slotPresent E dir s = andThen (resolveKeySlot E dir (fst s) (snd s)) (\<lambda>r. ret (\<not> Option.is_none r))"

definition encSlot :: "string \<times> string" where "encSlot = (encKeyBinFile, encKeyJSONFile)"
definition evalSlot :: "string \<times> string" where "evalSlot = (evalKeyBinFile, evalKeyJSONFile)"
definition secSlot :: "string \<times> string" where "secSlot = (secKeyBinFile, secKeyJSONFile)"

lemmas slot_defs = encSlot_def evalSlot_def secSlot_def

fun allSlots :: "'e os_env_scheme \<Rightarrow> gopath \<Rightarrow> (bool \<times> string \<times> string) list \<Rightarrow>
    (err, 'w os_world_scheme, bool) io" where
  "allSlots E dir [] = ret True"
| "allSlots E dir ((wanted, s) # ss) =
     (if wanted then andThen (slotPresent E dir s) (\<lambda>ok. if \<not> ok then ret False else allSlots E dir ss)
      else allSlots E dir ss)"

definition rmpDirOf :: "keysOptions \<Rightarrow> gopath" where
  "rmpDirOf opts = joinPath (cleanPath (Path opts)) (kk_subdir rmpKind)"

definition mmDirOf :: "keysOptions \<Rightarrow> gopath" where
  "mmDirOf opts = joinPath (cleanPath (Path opts)) (kk_subdir mmKind)"

definition KeysExist :: "'e os_env_scheme \<Rightarrow> KeysOption list \<Rightarrow> (err, 'w os_world_scheme, bool) io" where
  "KeysExist E opts =
     (let o' = buildKeysOptions opts in
      if Path o' = [] then ret False
      else (case resolveKeyParts (Parts o') of (wantEnc, wantEval, wantSec) \<Rightarrow>
        allSlots E (rmpDirOf o') [(wantEnc, encSlot), (wantEval, evalSlot), (wantSec, secSlot)]))"

fun anySlot :: "'e os_env_scheme \<Rightarrow> gopath \<Rightarrow> (string \<times> string) list \<Rightarrow>
    (err, 'w os_world_scheme, bool) io" where
  "anySlot E dir [] = ret False"
| "anySlot E dir (s # ss) = andThen (slotPresent E dir s) (\<lambda>ok. if ok then ret True else anySlot E dir ss)"

definition anySlotExists :: "'e os_env_scheme \<Rightarrow> gopath \<Rightarrow> (err, 'w os_world_scheme, bool) io" where
  "anySlotExists E dir = anySlot E dir [encSlot, evalSlot, secSlot]"

section \<open>Generation\<close>

definition keyFileNames :: "string list" where
  "keyFileNames = [encKeyBinFile, evalKeyBinFile, secKeyBinFile, encKeyJSONFile, evalKeyJSONFile,
     secKeyJSONFile]"

fun removeAllOf :: "'e os_env_scheme \<Rightarrow> gopath list \<Rightarrow> 'w os_world_scheme \<Rightarrow> 'w os_world_scheme" where
  "removeAllOf E [] w = w"
| "removeAllOf E (p # ps) w = removeAllOf E ps (ignoring (osRemove E p) w)"

definition removeKeyArtifacts :: "'e os_env_scheme \<Rightarrow> gopath \<Rightarrow> 'w os_world_scheme \<Rightarrow> 'w os_world_scheme" where
  "removeKeyArtifacts E dir = removeAllOf E (map (joinPath dir) keyFileNames)"

fun wrapSteps :: "'e cgo_env_scheme \<Rightarrow> keysOptions \<Rightarrow> gopath \<Rightarrow>
    (string \<times> string \<times> (string \<Rightarrow> gopath \<Rightarrow> gopath \<Rightarrow> (err, 'w cgo_world_scheme, unit) io)) list \<Rightarrow>
    (err, 'w cgo_world_scheme, unit) io" where
  "wrapSteps E opts dir [] = ret ()"
| "wrapSteps E opts dir ((binFile, jsonFile, wrap) # ss) =
     andThen (mapErr (wrapf (''runespace: wrap '' @ binFile))
       (wrap (KeyID opts) (joinPath dir binFile) (joinPath dir jsonFile))) (\<lambda>_.
     andThen (mapErr (wrapf (''runespace: remove '' @ binFile)) (osRemove E (joinPath dir binFile))) (\<lambda>_.
     wrapSteps E opts dir ss))"

definition generateBundle :: "'e cgo_env_scheme \<Rightarrow> keysOptions \<Rightarrow> keyKind \<Rightarrow> bool \<Rightarrow>
    (err, 'w cgo_world_scheme, unit) io" where
  "generateBundle E opts kind wrapJSON =
     (let dir = joinPath (cleanPath (Path opts)) (kk_subdir kind) in
      andThen (mapErr (wrapf (''runespace: mkdir '' @ kk_name kind @ '' key dir'')) (osMkdirAll E dir)) (\<lambda>_.
      andThen (mapErr (wrapf (''runespace: new '' @ kk_name kind @ '' key generator''))
        (NewKeyGenerator \<lparr>kg_ckks = \<lparr>cp_preset = kk_preset kind, cp_dims = [Dim opts], cp_mode = kk_mode kind\<rparr>,
         kg_path = Some dir, kg_id = KeyID opts\<rparr>)) (\<lambda>gen.
      andThen (Generate E (gen_params gen)) (\<lambda>_.
      if \<not> wrapJSON then ret ()
      else wrapSteps E opts dir [(encKeyBinFile, encKeyJSONFile, WrapEncKey E)]))))"

text \<open>Making the generator is no step of its own.\<close>

lemma andThen_ret: "andThen (mapErr g (ret x)) f = f x"
  by (rule ext) (simp add: andThen_def mapErr_def ret_def)

lemma generateBundle_unfold:
  "generateBundle E opts kind wrapJSON =
     (let dir = joinPath (cleanPath (Path opts)) (kk_subdir kind) in
      andThen (mapErr (wrapf (''runespace: mkdir '' @ kk_name kind @ '' key dir'')) (osMkdirAll E dir)) (\<lambda>_.
      andThen (Generate E
        \<lparr>kg_ckks = \<lparr>cp_preset = kk_preset kind, cp_dims = [Dim opts], cp_mode = kk_mode kind\<rparr>,
         kg_path = Some dir, kg_id = KeyID opts\<rparr>) (\<lambda>_.
      if \<not> wrapJSON then ret ()
      else wrapSteps E opts dir [(encKeyBinFile, encKeyJSONFile, WrapEncKey E)])))"
  by (simp add: generateBundle_def NewKeyGenerator_def andThen_ret)

definition rollback :: "'e os_env_scheme \<Rightarrow> gopath \<Rightarrow> gopath \<Rightarrow> 'w os_world_scheme \<Rightarrow> 'w os_world_scheme" where
  "rollback E rmpDir mmDir w =
     ignoring (osRemove E mmDir) (removeKeyArtifacts E mmDir
       (ignoring (osRemove E rmpDir) (removeKeyArtifacts E rmpDir w)))"

definition GenerateKeys :: "'e cgo_env_scheme \<Rightarrow> KeysOption list \<Rightarrow> (err, 'w cgo_world_scheme, unit) io" where
  "GenerateKeys E opts =
     (let o' = buildKeysOptions opts in
      andThen (liftRes (validate o')) (\<lambda>_.
      let rmpDir = joinPath (cleanPath (Path o')) (kk_subdir (flatBundleKind (FlatMode o')));
          mmDir = mmDirOf o' in
      andThen (anySlotExists E rmpDir) (\<lambda>r.
      andThen (if r then ret True else anySlotExists E mmDir) (\<lambda>present.
      if present then throw (Sentinel ErrKeysAlreadyExist)
      else onFailure (rollback E rmpDir mmDir)
        (andThen (generateBundle E o' (flatBundleKind (FlatMode o')) True) (\<lambda>_.
         generateBundle E o' mmKind True))))))"

section \<open>Opening\<close>

definition materialise ::
  "'e cgo_env_scheme \<Rightarrow> gopath \<Rightarrow> gopath \<Rightarrow> string \<Rightarrow> string \<Rightarrow>
   (gopath \<Rightarrow> gopath \<Rightarrow> (err, 'w cgo_world_scheme, unit) io) \<Rightarrow> (err, 'w cgo_world_scheme, unit) io" where
  "materialise E dir stage binName jsonName unwrap =
     andThen (resolveKeySlot E dir binName jsonName) (\<lambda>slot. case slot of
       None \<Rightarrow> throw (Sentinel ErrKeysNotFound)
     | Some (src, isJSON) \<Rightarrow>
         if isJSON then mapErr (wrapf (''runespace: unwrap '' @ jsonName)) (unwrap src (joinPath stage binName))
         else mapErr (wrapf (''runespace: stage '' @ binName)) (copyFile E src (joinPath stage binName)))"

definition openKeyBundle ::
  "'e cgo_env_scheme \<Rightarrow> keysOptions \<Rightarrow> keyKind \<Rightarrow> (err, 'w cgo_world_scheme, keyBundle) io" where
  "openKeyBundle E opts kind =
     (case resolveKeyParts (Parts opts) of (wantEnc, _, wantSec) \<Rightarrow>
      let dir = joinPath (cleanPath (Path opts)) (kk_subdir kind) in
      andThen (mapErr (wrapf ''runespace: stage tempdir'') (osMkdirTemp E)) (\<lambda>stage.
      deferring (ignoring (osRemoveAll E stage))
        (andThen (if wantEnc then materialise E dir stage encKeyBinFile encKeyJSONFile (UnwrapEncKey E)
                  else ret ()) (\<lambda>_.
         andThen (if wantSec then materialise E dir stage secKeyBinFile secKeyJSONFile (UnwrapSecKey E)
                  else ret ()) (\<lambda>_.
         andThen (mapErr (wrapf ''runespace: new ckks context'') (NewCKKSContext E
             \<lparr>cp_preset = kk_preset kind, cp_dims = [Dim opts], cp_mode = kk_mode kind\<rparr>)) (\<lambda>ckks.
         andThen (if wantEnc
             then onFailure (\<lambda>w. snd (ContextClose ckks w)) (mapErr (wrapf ''runespace: new encryptor'')
               (andThen (NewEncryptor E ckks stage) (\<lambda>e. ret (Some e))))
             else ret None) (\<lambda>enc.
         let b = \<lparr>kb_kind = kind, kb_dir = dir, kb_ckks = Some ckks, kb_enc = enc, kb_dec = None\<rparr> in
         if wantSec
         then onFailure (\<lambda>w. snd (bundleClose b w)) (mapErr (wrapf ''runespace: new decryptor'')
             (andThen (NewDecryptor E ckks stage) (\<lambda>d. ret (b\<lparr>kb_dec := Some d\<rparr>))))
         else ret b)))))))"

definition newKeys :: "Keys \<Rightarrow> (err, 'w keys_world_scheme, nat) io" where
  "newKeys k w = (Inr (length (k_objs w)), w\<lparr>k_objs := k_objs w @ [k]\<rparr>)"

definition OpenKeys :: "'e cgo_env_scheme \<Rightarrow> KeysOption list \<Rightarrow> (err, 'w keys_world_scheme, nat) io" where
  "OpenKeys E opts =
     (let o' = buildKeysOptions opts in
      andThen (liftRes (validate o')) (\<lambda>_.
      andThen (openKeyBundle E o' (flatBundleKind (FlatMode o'))) (\<lambda>rmp.
      andThen (onFailure (\<lambda>w. snd (bundleClose rmp w)) (openKeyBundle E o' mmKind)) (\<lambda>mm.
      newKeys \<lparr>k_id = KeyID o', k_dim = Dim o', k_rmp = Some rmp, k_mm = Some mm\<rparr>))))"

section \<open>Use\<close>

text \<open>The object behind a pointer, \<open>None\<close> for nil.\<close>

definition keysAt :: "'w keys_world_scheme \<Rightarrow> keysRef \<Rightarrow> Keys option" where
  "keysAt w k = (case k of None \<Rightarrow> None
     | Some i \<Rightarrow> if i < length (k_objs w) then Some (k_objs w ! i) else None)"

definition ID :: "Keys \<Rightarrow> string" where
  "ID k = k_id k"

definition KeysDim :: "Keys \<Rightarrow> int" where
  "KeysDim k = k_dim k"

definition EncryptFlat :: "'e cgo_env_scheme \<Rightarrow> keysRef \<Rightarrow> gofloat list \<Rightarrow>
    (err, 'w keys_world_scheme, bytes) io" where
  "EncryptFlat E k vec w =
     (case Option.bind (Option.bind (keysAt w k) k_rmp) kb_enc of
        None \<Rightarrow> throw (Sentinel ErrKeysNotForEncrypt) w
      | Some e \<Rightarrow> EncryptSingle E e vec ''item'' w)"

definition EncryptClustered :: "'e cgo_env_scheme \<Rightarrow> keysRef \<Rightarrow> gofloat list \<Rightarrow>
    (err, 'w keys_world_scheme, bytes) io" where
  "EncryptClustered E k vec w =
     (case Option.bind (Option.bind (keysAt w k) k_mm) kb_enc of
        None \<Rightarrow> throw (Sentinel ErrKeysNotForEncrypt) w
      | Some e \<Rightarrow> EncryptRow E e vec ''item'' 1 w)"

definition DecryptResult :: "'e cgo_env_scheme \<Rightarrow> keysRef \<Rightarrow> bytes \<Rightarrow>
    (err, 'w keys_world_scheme, gofloat list) io" where
  "DecryptResult E k result w =
     (case Option.bind (Option.bind (keysAt w k) k_rmp) kb_dec of
        None \<Rightarrow> throw (Sentinel ErrKeysNotForDecrypt) w
      | Some d \<Rightarrow> DecryptSearchResult E d result w)"

definition DecryptClustered :: "'e cgo_env_scheme \<Rightarrow> keysRef \<Rightarrow> bytes \<Rightarrow>
    (err, 'w keys_world_scheme, gofloat list) io" where
  "DecryptClustered E k result w =
     (case Option.bind (Option.bind (keysAt w k) k_mm) kb_dec of
        None \<Rightarrow> throw (Sentinel ErrKeysNotForDecrypt) w
      | Some d \<Rightarrow> DecryptSearchResult E d result w)"

definition closeOpt :: "keyBundle option \<Rightarrow> 'w cgo_world_scheme \<Rightarrow> keyBundle option \<times> 'w cgo_world_scheme" where
  "closeOpt b w = (case b of None \<Rightarrow> (None, w) | Some b \<Rightarrow> (case bundleClose b w of (b', w') \<Rightarrow> (Some b', w')))"

definition KeysClose :: "keysRef \<Rightarrow> (err, 'w keys_world_scheme, unit) io" where
  "KeysClose k w =
     (case (k, keysAt w k) of
        (Some i, Some ks) \<Rightarrow>
          (case closeOpt (k_rmp ks) w of (rmp, w1) \<Rightarrow>
            (case closeOpt (k_mm ks) w1 of (mm, w2) \<Rightarrow>
              (Inr (), w2\<lparr>k_objs := (k_objs w2)[i := ks\<lparr>k_rmp := rmp, k_mm := mm\<rparr>]\<rparr>)))
      | _ \<Rightarrow> (Inr (), w))"

section \<open>The evaluation key on disk\<close>

record evalReader =
  er_node :: node
  er_size :: int
  er_tmp :: "gopath option"

definition nodeSize :: "'e os_env_scheme \<Rightarrow> nat \<Rightarrow> node \<Rightarrow> int" where
  "nodeSize E k n = (case n of File b \<Rightarrow> int (length b) | Dir \<Rightarrow> int (os_partial E k))"

definition statOpen :: "'e os_env_scheme \<Rightarrow> node \<Rightarrow> (err, 'w os_world_scheme, int) io" where
  "statOpen E n = syscall E (\<lambda>w. (Inr (nodeSize E (tick w) n), w))"

text \<open>The cleanup that \<open>openEvalKeyReader\<close> returns: close, and remove the staged copy.\<close>

definition readerCleanup :: "'e os_env_scheme \<Rightarrow> evalReader \<Rightarrow> 'w os_world_scheme \<Rightarrow> 'w os_world_scheme" where
  "readerCleanup E r w =
     (let w1 = ignoring (osClose E) w in
      case er_tmp r of None \<Rightarrow> w1 | Some p \<Rightarrow> ignoring (osRemove E p) w1)"

definition openEvalKeyReader ::
  "'e cgo_env_scheme \<Rightarrow> gopath \<Rightarrow> (err, 'w cgo_world_scheme, evalReader) io" where
  "openEvalKeyReader E dir =
     andThen (resolveKeySlot E dir evalKeyBinFile evalKeyJSONFile) (\<lambda>slot. case slot of
       None \<Rightarrow> throw (Sentinel ErrKeysNotFound)
     | Some (src, isJSON) \<Rightarrow>
         if \<not> isJSON
         then andThen (osOpen E src) (\<lambda>f.
           andThen (onFailure (ignoring (osClose E)) (statOpen E f)) (\<lambda>n.
           ret \<lparr>er_node = f, er_size = n, er_tmp = None\<rparr>))
         else andThen (mapErr (wrapf ''runespace: stage eval'') (osCreateTemp E)) (\<lambda>tmp.
           andThen (attempt (osClose E)) (\<lambda>(_ :: err + unit).
           onFailure (ignoring (osRemove E tmp))
             (andThen (mapErr (wrapf ''runespace: unwrap eval'') (UnwrapEvalKey E src tmp)) (\<lambda>_.
              andThen (osOpen E tmp) (\<lambda>f.
              andThen (onFailure (ignoring (osClose E)) (statOpen E f)) (\<lambda>n.
              ret \<lparr>er_node = f, er_size = n, er_tmp = Some tmp\<rparr>)))))))"

end
