(* ===== verification/Key_Frames.thy ===== *)
theory Key_Frames
  imports Key_Bundles
begin

text \<open>
  What the key operations leave alone on disk. Two relations between the state before and
  after are shown for every step: \<open>touchesOnly A\<close> (of \<open>Os_Files\<close>) and \<open>noNewDirs A\<close>, by
  which no path of \<open>A\<close> becomes a directory.
\<close>

section \<open>C calls and the file system\<close>

lemma keeps_c_quiet [frame_intros]:
  "keeps (touchesOnly A) (c_invoke E op hs ns vs)"
  "keeps (touchesOnly A) (c_acquire E kind op hs ns vs failed)"
  "keeps (touchesOnly A) (c_create E kind op hs ns vs)"
  "keeps (touchesOnly A) (c_malloc E)"
  "keeps (touchesOnly A) (c_string E)"
  "keeps (touchesOnly A) (c_step E op hs ns)"
  "keeps (touchesOnly A) (c_load E op hs p)"
  unfolding c_create_def c_malloc_def c_string_def
  by (auto intro!: keepsI touchesOnly_nodes split: option.splits
      simp: c_acquire_def c_step_def c_load_def c_invoke_def c_created_def andThen_def run_simps)

lemma touchesOnly_c_free [frame_intros]: "touchesOnly A w (c_free h w)"
  by (simp add: touchesOnly_nodes c_free_def)

lemma keeps_scoped [frame_intros]:
  "keeps (touchesOnly A) m \<Longrightarrow> (\<And>h. keeps (touchesOnly A) (k h)) \<Longrightarrow> keeps (touchesOnly A) (scoped m k)"
  unfolding scoped_def by (intro touching.keeps_rules frame_intros)

lemma touchesOnly_put: "p \<in> A \<Longrightarrow> touchesOnly A w (w\<lparr>nodes := putNode p n (nodes w)\<rparr>)"
  by (simp add: touchesOnly_def fstore.same_outside_write)

lemma keeps_invoke_then:
  assumes "\<And>k st w. touchesOnly A w (snd (c (k, st) w))"
  shows "keeps (touchesOnly A) (andThen (c_invoke E op hs ns vs) c)"
  by (rule touching.keeps_andThen) (auto intro!: frame_intros keepsI assms)

lemma keeps_writers [frame_intros]:
  "p \<in> A \<Longrightarrow> keeps (touchesOnly A) (c_save E op hs p)"
  "joinPath dir name \<in> A \<Longrightarrow> joinPath dir (name @ ''.tmp'') \<in> A \<Longrightarrow>
     keeps (touchesOnly A) (km_wrap_from_handle E hs keyID dir name)"
  "dst \<in> A \<Longrightarrow> keeps (touchesOnly A) (km_convert E op b conv src dst)"
  unfolding c_save_def km_wrap_from_handle_def km_convert_def
  by (rule keeps_invoke_then;
      auto simp: Let_def touchesOnly_nodes intro!: touchesOnly_put split: option.split)+

lemma keeps_wrappers [frame_intros]:
  "p \<in> A \<Longrightarrow> keeps (touchesOnly A) (WrapEncKey E keyID src p)"
  "p \<in> A \<Longrightarrow> keeps (touchesOnly A) (WrapSecKey E keyID src p)"
  "p \<in> A \<Longrightarrow> keeps (touchesOnly A) (WrapEvalKey E keyID src p)"
  "p \<in> A \<Longrightarrow> keeps (touchesOnly A) (UnwrapEncKey E src p)"
  "p \<in> A \<Longrightarrow> keeps (touchesOnly A) (UnwrapSecKey E src p)"
  "p \<in> A \<Longrightarrow> keeps (touchesOnly A) (UnwrapEvalKey E src p)"
  unfolding WrapEncKey_def WrapSecKey_def WrapEvalKey_def UnwrapEncKey_def UnwrapSecKey_def
    UnwrapEvalKey_def wrapKey_def unwrapKey_def
  by (intro frame_intros; assumption)+

text \<open>The names \<open>Generate\<close> and the rollback deal with, and the directories on the way.\<close>

definition keyPathsIn :: "gopath \<Rightarrow> gopath set" where
  "keyPathsIn dir = set (prefixesOf dir) \<union> joinPath dir ` set (keyFileNames @ [secKeyJSONFile @ ''.tmp''])"

lemma keyPathsIn_names [simp]:
  "joinPath dir encKeyBinFile \<in> keyPathsIn dir" "joinPath dir evalKeyBinFile \<in> keyPathsIn dir"
  "joinPath dir secKeyBinFile \<in> keyPathsIn dir" "joinPath dir encKeyJSONFile \<in> keyPathsIn dir"
  "joinPath dir evalKeyJSONFile \<in> keyPathsIn dir" "joinPath dir secKeyJSONFile \<in> keyPathsIn dir"
  "joinPath dir (secKeyJSONFile @ ''.tmp'') \<in> keyPathsIn dir"
  "set (prefixesOf dir) \<subseteq> keyPathsIn dir"
  by (auto simp: keyPathsIn_def keyFileNames_def)

lemma prefixesOf_self: "snd p \<noteq> [] \<Longrightarrow> p \<in> set (prefixesOf p)"
proof (cases p)
  case (Pair r cs)
  assume "snd p \<noteq> []"
  with Pair have "p = (\<lambda>k. (r, take k cs)) (length cs)" and "length cs \<in> {1 ..< Suc (length cs)}"
    by (auto simp: Suc_le_eq)
  then show ?thesis unfolding Pair prefixesOf.simps set_map set_upt by blast
qed

lemmas keyPathsIn_within = keyPathsIn_names(1-7)[THEN rev_subsetD]

lemma keyPathsIn_subset:
  "keyPathsIn dir \<subseteq> A \<Longrightarrow> set (prefixesOf dir) \<subseteq> A"
  by (meson keyPathsIn_names(8) subset_trans)

lemma joinPath_self [simp]: "joinPath p n \<in> keyPathsIn (joinPath p n)"
  using prefixesOf_self[of "joinPath p n"] by (cases p) (auto simp: keyPathsIn_def)

lemma keeps_Generate [frame_intros]:
  assumes "kg_path p = Some dir" and "keyPathsIn dir \<subseteq> A"
  shows "keeps (touchesOnly A) (Generate E p)"
proof -
  have "keeps (touchesOnly A) (generateTrio E a b c keyID dir)" for a b c keyID
    unfolding generateTrio_def
    by (intro touching.keeps_rules frame_intros; (simp add: subsetD[OF assms(2)])?)
  then show ?thesis
    unfolding Generate_def assms(1) option.case
    by (intro touching.keeps_rules frame_intros keyPathsIn_subset[OF assms(2)])
qed

definition bundleDir :: "keysOptions \<Rightarrow> keyKind \<Rightarrow> gopath" where
  "bundleDir opts kind = joinPath (cleanPath (Path opts)) (kk_subdir kind)"

lemma keeps_generateBundle [frame_intros]:
  assumes "keyPathsIn (bundleDir opts kind) \<subseteq> A"
  shows "keeps (touchesOnly A) (generateBundle E opts kind b)"
proof -
  let ?dir = "joinPath (cleanPath (Path opts)) (kk_subdir kind)"
  have sub: "keyPathsIn ?dir \<subseteq> A" using assms by (simp add: bundleDir_def)
  show ?thesis
    unfolding generateBundle_unfold Let_def wrapSteps.simps
    by (intro touching.keeps_rules frame_intros keyPathsIn_within[OF sub] keyPathsIn_subset[OF sub]; (rule sub | simp))
qed

lemma touchesOnly_removeAllOf:
  "set ps \<subseteq> A \<Longrightarrow> touchesOnly A w (removeAllOf E ps w)"
proof (induction E ps w rule: removeAllOf.induct)
  case (2 E p ps w)
  have "touchesOnly A w (ignoring (osRemove E p) w)"
    using 2(2) by (intro touching.ignoring_related frame_intros) simp
  with 2 show ?case by (auto intro: touching.R_trans)
qed (simp add: touching.R_refl)

lemma keeps_slots [frame_intros]:
  "keeps (touchesOnly A) (resolveKeySlot E dir b j)"
  "keeps (touchesOnly A) (slotPresent E dir s)"
  "keeps (touchesOnly A) (anySlotExists E dir)"
proof -
  show 1: "keeps (touchesOnly A) (resolveKeySlot E dir b j)" for b j
    unfolding resolveKeySlot_def by (intro touching.keeps_rules frame_intros)
  show 2: "keeps (touchesOnly A) (slotPresent E dir s)" for s
    unfolding slotPresent_def by (intro touching.keeps_rules 1)
  show "keeps (touchesOnly A) (anySlotExists E dir)"
    unfolding anySlotExists_def anySlot.simps by (intro touching.keeps_rules 2)
qed

lemma rollback_touches:
  assumes "keyPathsIn (joinPath p a) \<subseteq> A" and "keyPathsIn (joinPath q b) \<subseteq> A"
  shows "touchesOnly A w (rollback E (joinPath p a) (joinPath q b) w)"
proof -
  have art: "touchesOnly A w (removeKeyArtifacts E (joinPath p a) w)" if "keyPathsIn (joinPath p a) \<subseteq> A"
    for p a w
    unfolding removeKeyArtifacts_def using that
    by (intro touchesOnly_removeAllOf) (auto simp: keyPathsIn_def)
  have rem: "touchesOnly A w (ignoring (osRemove E (joinPath p a)) w)" if "keyPathsIn (joinPath p a) \<subseteq> A"
    for p a w
    using that joinPath_self[of p a] by (intro touching.ignoring_related frame_intros) blast
  show ?thesis
    unfolding rollback_def using assms by (meson art rem touching.R_trans)
qed

lemma flatBundleKind_subdir [simp]: "kk_subdir (flatBundleKind m) = kk_subdir rmpKind"
  by (simp add: flatBundleKind_def rmpKind_def)

lemma bundleDir_cases [simp]:
  "bundleDir opts (flatBundleKind m) = rmpDirOf opts" "bundleDir opts mmKind = mmDirOf opts"
  by (simp_all add: bundleDir_def rmpDirOf_def mmDirOf_def)

definition keyPaths :: "keysOptions \<Rightarrow> gopath set" where
  "keyPaths opts = keyPathsIn (rmpDirOf opts) \<union> keyPathsIn (mmDirOf opts)"

text \<open>
  \<open>GenerateKeys\<close> with the generation and the rollback as they are once the guard passed.
\<close>

definition generateBoth :: "'e cgo_env_scheme \<Rightarrow> keysOptions \<Rightarrow> (err, 'w cgo_world_scheme, unit) io" where
  "generateBoth E opts = onFailure (rollback E (rmpDirOf opts) (mmDirOf opts))
     (andThen (generateBundle E opts (flatBundleKind (FlatMode opts)) True)
       (\<lambda>_. generateBundle E opts mmKind True))"

lemma GenerateKeys_unfold:
  "GenerateKeys E opts =
     (let o' = buildKeysOptions opts in
      andThen (liftRes (validate o')) (\<lambda>_.
      andThen (anySlotExists E (rmpDirOf o')) (\<lambda>r.
      andThen (if r then ret True else anySlotExists E (mmDirOf o')) (\<lambda>present.
      if present then throw (Sentinel ErrKeysAlreadyExist) else generateBoth E o'))))"
  unfolding GenerateKeys_def generateBoth_def Let_def flatBundleKind_subdir rmpDirOf_def ..

lemma keeps_generateBoth [frame_intros]: "keeps (touchesOnly (keyPaths opts)) (generateBoth E opts)"
proof -
  have roll: "touchesOnly (keyPaths opts) w (rollback E (rmpDirOf opts) (mmDirOf opts) w)" for w :: "'a cgo_world_scheme"
    unfolding rmpDirOf_def mmDirOf_def
    by (rule rollback_touches) (auto simp: keyPaths_def rmpDirOf_def mmDirOf_def)
  show ?thesis
    unfolding generateBoth_def
    by (intro touching.keeps_rules keeps_generateBundle roll) (simp_all add: keyPaths_def)
qed

lemma keeps_GenerateKeys [frame_intros]:
  "keeps (touchesOnly (keyPaths (buildKeysOptions opts))) (GenerateKeys E opts)"
  unfolding GenerateKeys_unfold Let_def by (intro touching.keeps_rules frame_intros)

section \<open>No path becomes a directory\<close>

definition noNewDirs :: "gopath set \<Rightarrow> 'w os_world_scheme \<Rightarrow> 'w os_world_scheme \<Rightarrow> bool" where
  "noNewDirs A w w' \<longleftrightarrow>
     (\<forall>p \<in> A. nodeAt (nodes w') p = Some Dir \<longrightarrow> nodeAt (nodes w) p = Some Dir)"

interpretation nodirs: step_relation "noNewDirs A" for A
  by unfold_locales (auto simp: noNewDirs_def)

lemma noNewDirs_nodes: "nodes w' = nodes w \<Longrightarrow> noNewDirs A w w'"
  by (simp add: noNewDirs_def)

lemma noNewDirs_file: "noNewDirs A w (w\<lparr>nodes := putNode p (File b) (nodes w)\<rparr>)"
  by (auto simp: noNewDirs_def)

lemma touchesOnly_noNewDirs: "touchesOnly B w w' \<Longrightarrow> A \<inter> B = {} \<Longrightarrow> noNewDirs A w w'"
  by (metis disjoint_iff noNewDirs_def touchesOnly_nodeAt)

lemma keeps_touchesOnly_noNewDirs: "keeps (touchesOnly B) m \<Longrightarrow> A \<inter> B = {} \<Longrightarrow> keeps (noNewDirs A) m"
  unfolding keeps_def using touchesOnly_noNewDirs by blast

end
