(* ===== verification/Handle_Discipline.thy ===== *)
theory Handle_Discipline
  imports Crypto_Provider
begin

text \<open>
  Memory discipline of the C objects. The log of calls is replayed over the set of live
  handles: using or destroying a handle that is not live, or creating one that is, gets the
  replay stuck. \<open>trade H Cs Cf m own\<close> says of an operation \<open>m\<close> that borrows the live
  handles \<open>H\<close>: it never gets the replay stuck; if it succeeds it gives up the handles \<open>Cs\<close>
  and what it returns owns the handles \<open>own x\<close>, all others being as before; if it fails it
  gives up \<open>Cf\<close> and nothing else. With \<open>Cs = Cf = {}\<close> this is the absence of use after
  free, double free and leaks.
\<close>

section \<open>Replaying a log\<close>

fun replayFrom :: "handle set \<Rightarrow> c_event list \<Rightarrow> handle set option" where
  "replayFrom live [] = Some live"
| "replayFrom live (Called op hs ns vs # es) =
     (if set hs \<subseteq> live then replayFrom live es else None)"
| "replayFrom live (Created h # es) = (if h \<in> live then None else replayFrom (insert h live) es)"
| "replayFrom live (Destroyed h # es) = (if h \<in> live then replayFrom (live - {h}) es else None)"

definition liveAfter :: "c_event list \<Rightarrow> handle set option" where
  "liveAfter es = replayFrom {} es"

lemma replayFrom_append:
  "replayFrom live (es @ fs) = Option.bind (replayFrom live es) (\<lambda>l. replayFrom l fs)"
  by (induction live es rule: replayFrom.induct) auto

lemma liveAfter_snoc [simp]:
  "liveAfter (es @ [Called op hs ns vs]) =
     Option.bind (liveAfter es) (\<lambda>l. if set hs \<subseteq> l then Some l else None)"
  "liveAfter (es @ [Created h]) = Option.bind (liveAfter es) (\<lambda>l. if h \<in> l then None else Some (insert h l))"
  "liveAfter (es @ [Destroyed h]) =
     Option.bind (liveAfter es) (\<lambda>l. if h \<in> l then Some (l - {h}) else None)"
  by (simp_all add: liveAfter_def replayFrom_append if_distrib cong: if_cong)

text \<open>The live handles of a world are older than its clock.\<close>

definition holding :: "handle set \<Rightarrow> 'w cgo_world_scheme \<Rightarrow> bool" where
  "holding live w \<longleftrightarrow> liveAfter (c_log w) = Some live \<and> (\<forall>h \<in> live. hid h < tick w)"

definition trade ::
  "handle set \<Rightarrow> handle set \<Rightarrow> handle set \<Rightarrow> (err, 'w cgo_world_scheme, 'a) io \<Rightarrow>
   ('a \<Rightarrow> handle set) \<Rightarrow> bool" where
  "trade H Cs Cf m own \<longleftrightarrow>
     (\<forall>w live. holding live w \<longrightarrow> H \<union> Cs \<union> Cf \<subseteq> live \<longrightarrow> H \<inter> (Cs \<union> Cf) = {} \<longrightarrow>
       (case m w of
          (Inr x, w') \<Rightarrow> holding (live - Cs \<union> own x) w' \<and> own x \<inter> (live - Cs) = {}
        | (Inl e, w') \<Rightarrow> holding (live - Cf) w'))"

lemma tradeI:
  assumes "\<And>w live x w'. holding live w \<Longrightarrow> H \<union> Cs \<union> Cf \<subseteq> live \<Longrightarrow> H \<inter> (Cs \<union> Cf) = {} \<Longrightarrow>
      m w = (Inr x, w') \<Longrightarrow> holding (live - Cs \<union> own x) w' \<and> own x \<inter> (live - Cs) = {}"
    and "\<And>w live e w'. holding live w \<Longrightarrow> H \<union> Cs \<union> Cf \<subseteq> live \<Longrightarrow> H \<inter> (Cs \<union> Cf) = {} \<Longrightarrow>
      m w = (Inl e, w') \<Longrightarrow> holding (live - Cf) w'"
  shows "trade H Cs Cf m own"
  unfolding trade_def using assms by (auto split: prod.splits sum.splits)

lemma tradeD:
  assumes "trade H Cs Cf m own" and "holding live w" and "H \<union> Cs \<union> Cf \<subseteq> live" and "H \<inter> (Cs \<union> Cf) = {}"
  shows "m w = (Inr x, w') \<Longrightarrow> holding (live - Cs \<union> own x) w'"
    and "m w = (Inr x, w') \<Longrightarrow> own x \<inter> (live - Cs) = {}"
    and "m w = (Inl e, w') \<Longrightarrow> holding (live - Cf) w'"
  using assms unfolding trade_def by fastforce+

abbreviation "balanced H m \<equiv> trade H {} {} m (\<lambda>_. {})"

lemma balanced_keeps:
  assumes "balanced H m" and "holding live w" and "H \<subseteq> live"
  shows "holding live (snd (m w))"
proof (cases "m w")
  case (Pair r w')
  with assms tradeD[OF assms(1,2)] show ?thesis by (cases r) auto
qed

lemma balancedI:
  fixes m :: "(err, 'w cgo_world_scheme, 'a) io"
  assumes "\<And>w live. holding live w \<Longrightarrow> H \<subseteq> live \<Longrightarrow> holding live (snd (m w))"
  shows "balanced H m"
proof (rule tradeI)
  fix w :: "'w cgo_world_scheme" and live x w'
  assume h: "holding live w" "H \<union> {} \<union> {} \<subseteq> live"
  then have s: "holding live (snd (m w))" using assms by blast
  {
    assume "m w = (Inr x, w')"
    with s show "holding (live - {} \<union> {}) w' \<and> {} \<inter> (live - {}) = {}" by simp
  next
    fix e
    assume "m w = (Inl e, w')"
    with s show "holding (live - {}) w'" by simp
  }
qed

section \<open>Rules\<close>

lemma trade_ret: "own x = C \<Longrightarrow> trade H C Cf (ret x) own"
  by (rule tradeI) (auto simp: run_simps Un_absorb2)

lemma balanced_pure [frame_intros]:
  "balanced H (ret x)" "trade H Cs {} (throw e) own" "balanced H (liftRes r)"
  by (auto intro!: tradeI simp: run_simps)

text \<open>A balanced step, then the rest.\<close>

lemma trade_step:
  fixes m :: "(err, 'w cgo_world_scheme, 'b) io"
  assumes m: "balanced (H \<union> Cs) m" and k: "\<And>x. trade H Cs {} (k x) own"
  shows "trade H Cs {} (andThen m k) own"
proof (rule tradeI)
  fix w :: "'w cgo_world_scheme" and live x w'
  assume h: "holding live w" "H \<union> Cs \<union> {} \<subseteq> live" "H \<inter> (Cs \<union> {}) = {}"
  {
    assume "andThen m k w = (Inr x, w')"
    then obtain y w1 where s: "m w = (Inr y, w1)" "k y w1 = (Inr x, w')" by (rule andThen_InrE)
    from balanced_keeps[OF m h(1)] h(2) s(1) have "holding live w1" by simp
    from tradeD[OF k this h(2,3)] s(2)
    show "holding (live - Cs \<union> own x) w' \<and> own x \<inter> (live - Cs) = {}" by blast
  next
    fix e
    assume "andThen m k w = (Inl e, w')"
    then show "holding (live - {}) w'"
    proof (cases rule: andThen_cases)
      case (first e)
      with balanced_keeps[OF m h(1)] h(2) show ?thesis by simp
    next
      case (second y w1)
      from balanced_keeps[OF m h(1)] h(2) second(1) have "holding live w1" by simp
      from tradeD(3)[OF k this h(2,3)] second(2) show ?thesis by blast
    qed
  }
qed

abbreviation "acquires H m \<equiv> trade H {} {} m (\<lambda>h. {h})"

text \<open>A fresh handle that the rest either gives to its result or destroys when it fails.\<close>

lemma trade_acquire:
  fixes m :: "(err, 'w cgo_world_scheme, handle) io"
  assumes m: "acquires H m" and k: "\<And>h. trade H (insert h Cs) {h} (k h) own"
  shows "trade H Cs {} (andThen m k) own"
proof (rule tradeI)
  fix w :: "'w cgo_world_scheme" and live x w'
  assume h: "holding live w" "H \<union> Cs \<union> {} \<subseteq> live" "H \<inter> (Cs \<union> {}) = {}"
  then have h0: "H \<union> {} \<union> {} \<subseteq> live" "H \<inter> ({} \<union> {}) = {}" by auto
  have next_world: "holding (insert y live) w1 \<and> y \<notin> live" if "m w = (Inr y, w1)" for y w1
    using tradeD(1,2)[OF m h(1) h0 that] by auto
  {
    assume "andThen m k w = (Inr x, w')"
    then obtain y w1 where s: "m w = (Inr y, w1)" "k y w1 = (Inr x, w')" by (rule andThen_InrE)
    note n = next_world[OF s(1)]
    have "insert y live - insert y Cs = live - Cs" using n by auto
    with tradeD(1,2)[OF k conjunct1[OF n] _ _ s(2)] n h
    show "holding (live - Cs \<union> own x) w' \<and> own x \<inter> (live - Cs) = {}" by auto
  next
    fix e
    assume "andThen m k w = (Inl e, w')"
    then show "holding (live - {}) w'"
    proof (cases rule: andThen_cases)
      case (first e)
      with tradeD(3)[OF m h(1) h0] show ?thesis by auto
    next
      case (second y w1)
      note n = next_world[OF second(1)]
      have "insert y live - {y} = live" using n by auto
      with tradeD(3)[OF k conjunct1[OF n] _ _ second(2)] n h show ?thesis by auto
    qed
  }
qed

lemma holding_free: "holding live w \<Longrightarrow> h \<in> live \<Longrightarrow> holding (live - {h}) (c_free h w)"
  by (auto simp: holding_def c_free_def)

lemma trade_orDestroy:
  fixes m :: "(err, 'w cgo_world_scheme, 'a) io"
  assumes m: "trade H Cs {} m own" and h: "h \<in> Cs"
  shows "trade H Cs {h} (orDestroy h m) own"
proof (rule tradeI)
  fix w :: "'w cgo_world_scheme" and live x w'
  assume a: "holding live w" "H \<union> Cs \<union> {h} \<subseteq> live" "H \<inter> (Cs \<union> {h}) = {}"
  then have a': "H \<union> Cs \<union> {} \<subseteq> live" "H \<inter> (Cs \<union> {}) = {}" by auto
  {
    assume "orDestroy h m w = (Inr x, w')"
    then have "m w = (Inr x, w')" by (auto simp: orDestroy_def onFailure_def split: prod.splits sum.splits)
    with tradeD(1,2)[OF m a(1) a']
    show "holding (live - Cs \<union> own x) w' \<and> own x \<inter> (live - Cs) = {}" by blast
  next
    fix e
    assume "orDestroy h m w = (Inl e, w')"
    then obtain w1 where "m w = (Inl e, w1)" and w': "w' = c_free h w1"
      by (auto simp: orDestroy_def onFailure_def split: prod.splits sum.splits)
    with tradeD(3)[OF m a(1) a'] have "holding live w1" by simp
    with a(2) w' show "holding (live - {h}) w'" by (auto intro: holding_free)
  }
qed

lemma trade_keep:
  assumes "acquires H m" and "\<And>h. trade H (insert h Cs) {} (k h) own"
  shows "trade H Cs {} (andThen m (\<lambda>h. orDestroy h (k h))) own"
  by (intro trade_acquire trade_orDestroy assms) simp

lemma trade_scoped:
  fixes m :: "(err, 'w cgo_world_scheme, handle) io"
  assumes m: "acquires H m" and k: "\<And>h. trade (insert h H) Cs {} (k h) own"
  shows "trade H Cs {} (scoped m k) own"
proof (rule tradeI)
  fix w :: "'w cgo_world_scheme" and live x w'
  assume h: "holding live w" "H \<union> Cs \<union> {} \<subseteq> live" "H \<inter> (Cs \<union> {}) = {}"
  then have h0: "H \<union> {} \<union> {} \<subseteq> live" "H \<inter> ({} \<union> {}) = {}" by auto
  have next_world: "holding (insert y live) w1 \<and> y \<notin> live" if "m w = (Inr y, w1)" for y w1
    using tradeD(1,2)[OF m h(1) h0 that] by auto
  {
    assume "scoped m k w = (Inr x, w')"
    then obtain y w1 w2 where s: "m w = (Inr y, w1)" "k y w1 = (Inr x, w2)" "w' = c_free y w2"
      unfolding scoped_def by (auto elim!: andThen_InrE simp: deferring_def split: prod.splits)
    note n = next_world[OF s(1)]
    have pre: "insert y H \<union> Cs \<union> {} \<subseteq> insert y live" "insert y H \<inter> (Cs \<union> {}) = {}"
      using n h by auto
    note t = tradeD(1,2)[OF k conjunct1[OF n] pre s(2)]
    have y: "y \<notin> Cs" "y \<notin> own x" using t(2) n h by auto
    then have "insert y live - Cs \<union> own x - {y} = live - Cs \<union> own x" using n by auto
    with holding_free[OF t(1), of y] y s(3) t(2)
    show "holding (live - Cs \<union> own x) w' \<and> own x \<inter> (live - Cs) = {}" by auto
  next
    fix e
    assume "scoped m k w = (Inl e, w')"
    then show "holding (live - {}) w'" unfolding scoped_def
    proof (cases rule: andThen_cases)
      case (first e)
      with tradeD(3)[OF m h(1) h0] show ?thesis by auto
    next
      case (second y w1)
      then obtain w2 where s: "k y w1 = (Inl e, w2)" "w' = c_free y w2"
        by (auto simp: deferring_def split: prod.splits)
      note n = next_world[OF second(1)]
      have pre: "insert y H \<union> Cs \<union> {} \<subseteq> insert y live" "insert y H \<inter> (Cs \<union> {}) = {}"
        using n h by auto
      from tradeD(3)[OF k conjunct1[OF n] pre s(1)] have "holding (insert y live) w2" by simp
      from holding_free[OF this, of y] s(2) n show ?thesis by simp
    qed
  }
qed

section \<open>Primitive calls\<close>

lemma holding_tick: "holding live w \<Longrightarrow> tick w \<le> k \<Longrightarrow> holding live (w\<lparr>tick := k\<rparr>)"
  by (auto simp: holding_def)

lemma holding_nodes [simp]: "holding live (w\<lparr>nodes := st\<rparr>) = holding live w"
  by (simp add: holding_def)

lemma holding_invoke:
  "holding live w \<Longrightarrow> set hs \<subseteq> live \<Longrightarrow> holding live (snd (c_invoke E op hs ns vs w))"
  by (fastforce simp: c_invoke_def holding_def)

lemma acquires_acquire [frame_intros]:
  fixes failed :: "nat \<Rightarrow> int \<Rightarrow> 'w cgo_world_scheme \<Rightarrow> err option"
  assumes "set hs \<subseteq> H"
  shows "acquires H (c_acquire E kind op hs ns vs failed)"
proof (rule tradeI)
  fix w :: "'w cgo_world_scheme" and live x w'
  assume h: "holding live w" "H \<union> {} \<union> {} \<subseteq> live"
  let ?w = "snd (c_invoke E op hs ns vs w)"
  have i: "holding live ?w" using h assms by (intro holding_invoke) auto
  have fresh: "Handle kind (tick w) \<notin> live" using h(1) by (force simp: holding_def)
  have run: "c_acquire E kind op hs ns vs failed w =
      (case failed (tick w) (c_status E (tick w)) ?w of
         Some e \<Rightarrow> (Inl e, ?w)
       | None \<Rightarrow> (Inr (Handle kind (tick w)), c_created (Handle kind (tick w)) ?w))"
    by (simp add: c_acquire_def c_invoke_def andThen_def split: option.split)
  have t: "tick ?w = Suc (tick w)" by (simp add: c_invoke_def)
  {
    assume "c_acquire E kind op hs ns vs failed w = (Inr x, w')"
    with run have "x = Handle kind (tick w)" "w' = c_created (Handle kind (tick w)) ?w"
      by (auto split: option.splits)
    with i fresh t show "holding (live - {} \<union> {x}) w' \<and> {x} \<inter> (live - {}) = {}"
      by (auto simp: holding_def c_created_def)
  next
    fix e
    assume "c_acquire E kind op hs ns vs failed w = (Inl e, w')"
    with run i show "holding (live - {}) w'" by (auto split: option.splits)
  }
qed

lemma acquires_all [frame_intros]:
  "set hs \<subseteq> H \<Longrightarrow> acquires H (c_create E kind op hs ns vs)"
  "acquires H (c_malloc E)" "acquires H (c_string E)"
  by (auto simp: c_create_def c_malloc_def c_string_def intro!: acquires_acquire)

text \<open>A call whose continuation only reads the log, or changes the file system.\<close>

lemma balanced_invoke_then:
  assumes "set hs \<subseteq> H" and "\<And>k st w live. holding live w \<Longrightarrow> holding live (snd (c k st w))"
  shows "balanced H (andThen (c_invoke E op hs ns vs) (\<lambda>(k, st). c k st))"
proof -
  have "holding live (snd (andThen (c_invoke E op hs ns vs) (\<lambda>(k, st). c k st) w))"
    if "holding live w" "H \<subseteq> live" for live w
    using assms(2)[OF holding_invoke[OF that(1)]] assms(1) that(2)
    by (simp add: andThen_def c_invoke_def)
  then show ?thesis by (rule balancedI)
qed

lemma balanced_calls [frame_intros]:
  "set hs \<subseteq> H \<Longrightarrow> balanced H (c_step E op hs ns)"
  "set hs \<subseteq> H \<Longrightarrow> balanced H (c_save E op hs p)"
  "set hs \<subseteq> H \<Longrightarrow> balanced H (c_load E op hs p)"
  "set hs \<subseteq> H \<Longrightarrow> balanced H (km_wrap_from_handle E hs keyID dir name)"
  "balanced H (km_convert E op b conv src dst)"
  unfolding c_step_def c_save_def c_load_def km_wrap_from_handle_def km_convert_def
  by (rule balanced_invoke_then;
      auto simp: Let_def run_simps split: option.splits)+

text \<open>System calls leave the log alone.\<close>

lemma balanced_quiet:
  assumes "\<And>w. c_log (snd (m w)) = c_log w \<and> tick w \<le> tick (snd (m w))"
  shows "balanced H m"
proof -
  have "holding live (snd (m w))" if "holding live w" for live w
    using that assms[of w] unfolding holding_def by force
  then show ?thesis by (rule balancedI)
qed

lemma balanced_os [frame_intros]:
  "balanced H (osStat E p)" "balanced H (osRemove E p)" "balanced H (osMkdirAll E p)"
  "balanced H (osReadDir E p)" "balanced H (osOpen E p)" "balanced H (osCreate E p)"
  "balanced H (osCopy E src p)" "balanced H (osClose E)" "balanced H (osMkdirTemp E)"
  "balanced H (osCreateTemp E)" "balanced H (osRemoveAll E p)"
  unfolding osStat_def osRemove_def osMkdirAll_def osReadDir_def osOpen_def osCreate_def
    osCopy_def osClose_def osMkdirTemp_def osCreateTemp_def osRemoveAll_def
  by (rule balanced_quiet;
      auto simp: syscall_def Let_def split: option.splits node.splits)+

lemma balanced_isEmptyDir [frame_intros]: "balanced H (isEmptyDir E p)"
  unfolding isEmptyDir_def by (intro trade_step frame_intros)

lemma balanced_mapErr [frame_intros]: "balanced H m \<Longrightarrow> balanced H (mapErr g m)"
  by (rule balancedI, drule (2) balanced_keeps) (auto simp: mapErr_def split: prod.splits sum.splits)

lemma balanced_attempt [frame_intros]: "balanced H m \<Longrightarrow> balanced H (attempt m)"
  by (rule balancedI, drule (2) balanced_keeps) (auto simp: attempt_def split: prod.splits)

lemma trade_liftRes:
  "(\<And>x. r = Inr x \<Longrightarrow> trade H Cs {} (k x) own) \<Longrightarrow> trade H Cs {} (andThen (liftRes r) k) own"
  by (cases r) (simp_all add: trade_def andThen_def run_simps)

section \<open>The provider\<close>

lemmas discipline = trade_step trade_scoped balanced_pure frame_intros

lemma balanced_Generate [frame_intros]: "balanced {} (Generate E p)"
proof -
  have trio: "balanced {} (generateTrio E a b c keyID dir)" for a b c keyID dir
    unfolding generateTrio_def by (intro trade_scoped trade_step frame_intros; simp)
  show ?thesis
    unfolding Generate_def
    by (auto split: option.split intro!: trade_step balanced_pure trio frame_intros)
qed

lemma trade_NewContext:
  "trade {} {} {} (NewCKKSContext E p) (\<lambda>c. set_option (ctx_c c))"
  unfolding NewCKKSContext_def
  by (auto intro!: trade_liftRes trade_acquire balanced_pure frame_intros trade_ret)

definition encryptorHandles :: "cgoEncryptor \<Rightarrow> handle set" where
  "encryptorHandles e = set_option (enc_h e) \<union> set_option (pack_h e)"

definition decryptorHandles :: "cgoDecryptor \<Rightarrow> handle set" where
  "decryptorHandles d = set_option (dec_h d) \<union> set_option (sk_h d)"

lemma trade_NewEncryptor:
  "trade (set_option (ctx_c c)) {} {} (NewEncryptor E c dir) encryptorHandles"
proof (cases "ctx_c c")
  case (Some ctx)
  have inner: "trade {h, ctx} {pack} {}
      (andThen (c_load E' op [pack, h] p) (\<lambda>_. andThen (c_create E' HEncryptor op' [ctx] [] [])
        (\<lambda>enc. ret \<lparr>enc_h = Some enc, pack_h = Some pack\<rparr>))) encryptorHandles" for h pack op op' p E'
    by (rule trade_step[OF balanced_calls(3)], simp)
      (rule trade_acquire[OF acquires_all(1)]; auto intro: trade_ret simp: encryptorHandles_def)
  show ?thesis
    unfolding NewEncryptor_def Some option.case
    by (rule trade_scoped trade_keep acquires_all inner | simp)+
qed (simp add: NewEncryptor_def balanced_pure)

lemma trade_NewDecryptor:
  "trade (set_option (ctx_c c)) {} {} (NewDecryptor E c dir) decryptorHandles"
proof (cases "ctx_c c")
  case (Some ctx)
  have inner: "trade {h, ctx} {sk} {}
      (andThen (c_create E' HDecryptor op [ctx] [] [])
        (\<lambda>dec. ret \<lparr>dec_h = Some dec, sk_h = Some sk\<rparr>)) decryptorHandles" for h sk op E'
    by (rule trade_acquire[OF acquires_all(1)]; auto intro: trade_ret simp: decryptorHandles_def)
  show ?thesis
    unfolding NewDecryptor_def Some option.case
    by (rule trade_scoped trade_keep acquires_all acquires_acquire inner | simp)+
qed (simp add: NewDecryptor_def balanced_pure)

lemma balanced_EncryptSingle:
  "balanced (encryptorHandles e) (EncryptSingle E e vec ty)"
  unfolding EncryptSingle_def
  by (auto split: option.split intro!: trade_scoped trade_step frame_intros balanced_pure simp: encryptorHandles_def)

lemma balanced_EncryptRow:
  "balanced (encryptorHandles e) (EncryptRow E e vec ty level)"
  unfolding EncryptRow_def
  by (auto split: option.split intro!: trade_scoped trade_step frame_intros balanced_pure simp: encryptorHandles_def)

lemma balanced_DecryptSearchResult:
  "balanced (decryptorHandles d) (DecryptSearchResult E d blob)"
  unfolding DecryptSearchResult_def Let_def
  by (auto split: option.split intro!: trade_scoped trade_step frame_intros balanced_pure simp: decryptorHandles_def)

end
