(* ===== verification/Key_Safety.thy ===== *)
theory Key_Safety
  imports Key_Frames Handle_Discipline
begin

text \<open>
  What \<open>GenerateKeys\<close> and \<open>KeysExist\<close> guarantee about the key files: an existing set is
  not overwritten, nothing but the key paths is touched, a failed generation leaves no key
  slot behind, a successful one leaves exactly the documented layout.
\<close>

section \<open>Slots of a store\<close>

definition slotIn :: "store \<Rightarrow> gopath \<Rightarrow> string \<times> string \<Rightarrow> bool" where
  "slotIn st dir s \<longleftrightarrow> nodeAt st (joinPath dir (snd s)) \<noteq> None \<or> nodeAt st (joinPath dir (fst s)) \<noteq> None"

definition anySlotIn :: "store \<Rightarrow> gopath \<Rightarrow> bool" where
  "anySlotIn st dir \<longleftrightarrow> slotIn st dir encSlot \<or> slotIn st dir evalSlot \<or> slotIn st dir secSlot"

text \<open>No file-system call fails spuriously.\<close>

definition reliable :: "'e os_env_scheme \<Rightarrow> bool" where
  "reliable E \<longleftrightarrow> (\<forall>k. os_fault E k = None)"

lemma osStat_reliable:
  "reliable E \<Longrightarrow> osStat E p w = (case nodeAt (nodes w) p of
      None \<Rightarrow> (Inl (OsErr ''no such file or directory''), w\<lparr>tick := Suc (tick w)\<rparr>)
    | Some n \<Rightarrow> (Inr n, w\<lparr>tick := Suc (tick w)\<rparr>))"
  by (simp add: reliable_def osStat_def syscall_def Let_def split: option.split)

definition advanced :: "'w os_world_scheme \<Rightarrow> 'w os_world_scheme \<Rightarrow> bool" where
  "advanced w w' \<longleftrightarrow> (\<exists>t. w' = w\<lparr>tick := t\<rparr>)"

lemma advanced_nodes: "advanced w w' \<Longrightarrow> nodes w' = nodes w"
  by (auto simp: advanced_def)

interpretation adv: step_relation advanced
proof
  show "advanced s s" for s :: "'a os_world_scheme"
    unfolding advanced_def by (rule exI[of _ "tick s"]) simp
  show "advanced s u" if "advanced s t" "advanced t u" for s t u :: "'a os_world_scheme"
    using that unfolding advanced_def by auto
qed

lemma adv_resolve: "keeps advanced (resolveKeySlot E dir b j)"
proof -
  have "keeps advanced (osStat E p)" for p :: gopath
    by (rule keepsI) (auto simp: advanced_def osStat_def syscall_def Let_def split: option.split)
  then show ?thesis unfolding resolveKeySlot_def by (intro adv.keeps_rules)
qed

lemma adv_slot: "keeps advanced (slotPresent E dir s)"
  unfolding slotPresent_def by (intro adv.keeps_rules adv_resolve)

lemma slotPresent_reliable:
  assumes "reliable E"
  obtains w' where "slotPresent E dir s w = (Inr (slotIn (nodes w) dir s), w')" and "advanced w w'"
proof -
  have "fst (slotPresent E dir s w) = Inr (slotIn (nodes w) dir s)"
    by (simp add: slotPresent_def resolveKeySlot_def slotIn_def osStat_reliable[OF assms] andThen_def
        attempt_def run_simps split: option.split)
  moreover have "advanced w (snd (slotPresent E dir s w))"
    using adv_slot unfolding keeps_def by blast
  ultimately show thesis using that by (metis prod.collapse)
qed

lemma anySlotExists_reliable:
  assumes "reliable E"
  obtains w' where "anySlotExists E dir w = (Inr (anySlotIn (nodes w) dir), w')" and "advanced w w'"
proof -
  have "\<exists>w'. anySlot E dir ss w = (Inr (\<exists>s \<in> set ss. slotIn (nodes w) dir s), w') \<and> advanced w w'" for ss
  proof (induction ss arbitrary: w)
    case (Cons s ss)
    obtain w1 where w1: "slotPresent E dir s w = (Inr (slotIn (nodes w) dir s), w1)" "advanced w w1"
      using slotPresent_reliable[OF assms] by blast
    from Cons[of w1] obtain w2 where
      "anySlot E dir ss w1 = (Inr (\<exists>s \<in> set ss. slotIn (nodes w) dir s), w2)" "advanced w1 w2"
      using advanced_nodes[OF w1(2)] by auto
    with w1 show ?case
      by (auto simp: andThen_def run_simps intro: adv.R_trans)
  qed (simp add: run_simps adv.R_refl)
  from this[of "[encSlot, evalSlot, secSlot]"] that show thesis
    by (auto simp: anySlotExists_def anySlotIn_def)
qed

lemma anySlotExists_total: "\<exists>b w'. anySlotExists E dir w = (Inr b, w') \<and> nodes w' = nodes w"
proof -
  have r: "\<exists>b w'. slotPresent E dir s w = (Inr b, w') \<and> advanced w w'" for s w
  proof -
    have "advanced w (snd (slotPresent E dir s w))"
      using adv_slot unfolding keeps_def by blast
    moreover have "\<not> isl (fst (slotPresent E dir s w))"
      by (auto simp: slotPresent_def resolveKeySlot_def andThen_def attempt_def run_simps
          split: prod.split sum.split)
    ultimately show ?thesis by (metis prod.collapse sum.collapse(2))
  qed
  have "\<exists>b w'. anySlot E dir ss w = (Inr b, w') \<and> advanced w w'" for ss
  proof (induction ss arbitrary: w)
    case (Cons s ss)
    obtain b w1 where w1: "slotPresent E dir s w = (Inr b, w1)" "advanced w w1" using r by blast
    with Cons[of w1] show ?case by (auto simp: andThen_def run_simps intro: adv.R_trans)
  qed (auto simp: run_simps adv.R_refl)
  then show ?thesis unfolding anySlotExists_def using advanced_nodes by blast
qed

section \<open>The guard\<close>

lemma GenerateKeys_guard:
  assumes "reliable E" and "validate (buildKeysOptions opts) = Inr ()"
  obtains w1 where "advanced w w1"
    and "GenerateKeys E opts w =
      (if anySlotIn (nodes w) (rmpDirOf (buildKeysOptions opts)) \<or>
          anySlotIn (nodes w) (mmDirOf (buildKeysOptions opts))
       then (Inl (Sentinel ErrKeysAlreadyExist), w1) else generateBoth E (buildKeysOptions opts) w1)"
proof -
  let ?o = "buildKeysOptions opts"
  obtain wa where a: "anySlotExists E (rmpDirOf ?o) w = (Inr (anySlotIn (nodes w) (rmpDirOf ?o)), wa)"
    "advanced w wa" using anySlotExists_reliable[OF assms(1)] by blast
  obtain wb where b: "anySlotExists E (mmDirOf ?o) wa = (Inr (anySlotIn (nodes w) (mmDirOf ?o)), wb)"
    "advanced wa wb" using anySlotExists_reliable[OF assms(1)] advanced_nodes[OF a(2)] by metis
  show thesis
  proof (cases "anySlotIn (nodes w) (rmpDirOf ?o)")
    case True
    with a show thesis
      by (intro that[of wa]) (auto simp: GenerateKeys_unfold Let_def andThen_def run_simps assms)
  next
    case False
    with a b show thesis
      by (intro that[of wb])
        (auto simp: GenerateKeys_unfold Let_def andThen_def run_simps assms intro: adv.R_trans)
  qed
qed

section \<open>Failure leaves no slot\<close>

text \<open>The six key files of the two directories; none of them lies on the way to the directories.\<close>

definition slotPaths :: "gopath \<Rightarrow> gopath set" where
  "slotPaths dir = joinPath dir ` set keyFileNames"

lemma anySlotIn_paths: "anySlotIn st dir \<longleftrightarrow> (\<exists>p \<in> slotPaths dir. nodeAt st p \<noteq> None)"
  by (auto simp: anySlotIn_def slotIn_def slotPaths_def keyFileNames_def slot_defs)

lemma prefixesOf_length: "q \<in> set (prefixesOf p) \<Longrightarrow> length (snd q) \<le> length (snd p)"
  by (cases p) auto

lemma joinPath_length [simp]: "length (snd (joinPath p n)) = Suc (length (snd p))"
  by (cases p) simp

lemma slotPaths_not_prefix:
  "length (snd d) = length (snd e) \<Longrightarrow> slotPaths d \<inter> set (prefixesOf e) = {}"
proof -
  assume l: "length (snd d) = length (snd e)"
  have "length (snd p) = Suc (length (snd d))" if "p \<in> slotPaths d" for p
    using that by (auto simp: slotPaths_def)
  then show ?thesis using l prefixesOf_length by (metis disjoint_iff not_less_eq_eq order_refl)
qed

lemma dirs_length: "length (snd (rmpDirOf opts)) = length (snd (mmDirOf opts))"
  by (simp add: rmpDirOf_def mmDirOf_def)

lemma rmp_neq_mm [simp]: "rmpDirOf opts \<noteq> mmDirOf opts" "mmDirOf opts \<noteq> rmpDirOf opts"
  by (simp_all add: rmpDirOf_def mmDirOf_def rmpKind_def mmKind_def)

definition bothSlots :: "keysOptions \<Rightarrow> gopath set" where
  "bothSlots opts = slotPaths (rmpDirOf opts) \<union> slotPaths (mmDirOf opts)"

lemma keeps_nodirs_mkdir:
  "dir = rmpDirOf opts \<or> dir = mmDirOf opts \<Longrightarrow> keeps (noNewDirs (bothSlots opts)) (osMkdirAll E dir)"
proof (rule keeps_touchesOnly_noNewDirs[OF keeps_osMkdirAll[OF order_refl]])
  assume "dir = rmpDirOf opts \<or> dir = mmDirOf opts"
  then have "length (snd (rmpDirOf opts)) = length (snd dir)" "length (snd (mmDirOf opts)) = length (snd dir)"
    using dirs_length by auto
  then show "bothSlots opts \<inter> set (prefixesOf dir) = {}"
    by (simp only: bothSlots_def Int_Un_distrib2 slotPaths_not_prefix Un_empty_left)
qed

text \<open>Removal only removes, and reaches every path that is not a directory.\<close>

definition shrinks :: "'w os_world_scheme \<Rightarrow> 'w os_world_scheme \<Rightarrow> bool" where
  "shrinks w w' \<longleftrightarrow> (\<forall>p. nodeAt (nodes w') p = None \<or> nodeAt (nodes w') p = nodeAt (nodes w) p)"

interpretation shrinking: step_relation shrinks
  by unfold_locales (simp_all add: shrinks_def, metis)

lemma shrinks_remove: "shrinks w (ignoring (osRemove E p) w)"
  by (auto simp: ignoring_def osRemove_def syscall_def Let_def shrinks_def split: option.split node.split)

lemma shrinks_removeAllOf: "shrinks w (removeAllOf E ps w)"
  by (induction E ps w rule: removeAllOf.induct)
    (auto intro: shrinking.R_refl shrinking.R_trans shrinks_remove)

lemma shrinks_None: "shrinks w w' \<Longrightarrow> nodeAt (nodes w) p = None \<Longrightarrow> nodeAt (nodes w') p = None"
  by (metis shrinks_def)

lemma shrinks_not_Dir: "shrinks w w' \<Longrightarrow> nodeAt (nodes w) p \<noteq> Some Dir \<Longrightarrow> nodeAt (nodes w') p \<noteq> Some Dir"
  by (metis option.distinct(1) shrinks_def)

lemma shrinks_noNewDirs: "shrinks w w' \<Longrightarrow> noNewDirs A w w'"
  unfolding noNewDirs_def using shrinks_not_Dir by blast

lemmas nodirs_quiet = keeps_touchesOnly_noNewDirs[where B = "{}", OF _ Int_empty_right]

lemma nodirs_invoke_then:
  assumes "\<And>k st w. noNewDirs A w (snd (c (k, st) w))"
  shows "keeps (noNewDirs A) (andThen (c_invoke E op hs ns vs) c)"
  by (rule nodirs.keeps_andThen[OF nodirs_quiet[OF keeps_c_quiet(1)]]) (auto intro!: keepsI assms)

lemma keeps_nodirs:
  "keeps (noNewDirs A) (isEmptyDir E p)"
  "keeps (noNewDirs A) (osRemove E p)"
  "keeps (noNewDirs A) (c_create E kind op hs ns vs)"
  "keeps (noNewDirs A) (c_string E)"
  "keeps (noNewDirs A) (c_step E op hs ns)"
  "keeps (noNewDirs A) (c_save E op hs p)"
  "keeps (noNewDirs A) (km_wrap_from_handle E hs keyID dir name)"
  "keeps (noNewDirs A) (km_convert E op b conv src dst)"
proof -
  show "keeps (noNewDirs A) (isEmptyDir E p)" by (rule nodirs_quiet, rule keeps_isEmptyDir)
  show "keeps (noNewDirs A) (c_create E kind op hs ns vs)" by (rule nodirs_quiet, rule keeps_c_quiet)
  show "keeps (noNewDirs A) (c_string E)" by (rule nodirs_quiet, rule keeps_c_quiet)
  show "keeps (noNewDirs A) (c_step E op hs ns)" by (rule nodirs_quiet, rule keeps_c_quiet)
  show "keeps (noNewDirs A) (osRemove E p)"
    by (rule keepsI) (metis ignoring_def shrinks_noNewDirs shrinks_remove)
  show "keeps (noNewDirs A) (c_save E op hs p)"
    unfolding c_save_def
    by (rule nodirs_invoke_then) (simp add: noNewDirs_nodes noNewDirs_file split: option.split)
  show "keeps (noNewDirs A) (km_wrap_from_handle E hs keyID dir name)"
    unfolding km_wrap_from_handle_def
    by (rule nodirs_invoke_then) (simp add: noNewDirs_nodes noNewDirs_file Let_def split: option.split)
  show "keeps (noNewDirs A) (km_convert E op b conv src dst)"
    unfolding km_convert_def
    by (rule nodirs_invoke_then) (simp add: noNewDirs_nodes noNewDirs_file Let_def split: option.split)
qed

lemma nodirs_scoped:
  "keeps (noNewDirs A) m \<Longrightarrow> (\<And>h. keeps (noNewDirs A) (k h)) \<Longrightarrow> keeps (noNewDirs A) (scoped m k)"
  unfolding scoped_def by (intro nodirs.keeps_rules) (auto simp: noNewDirs_nodes c_free_def)

lemma nodirs_generateBundle:
  assumes "bundleDir opts kind = rmpDirOf opts \<or> bundleDir opts kind = mmDirOf opts"
  shows "keeps (noNewDirs (bothSlots opts)) (generateBundle E opts kind b)"
proof -
  note mk = keeps_nodirs_mkdir[OF assms, unfolded bundleDir_def]
  have "keeps (noNewDirs A) (generateTrio E a b c keyID dir)" for a b c keyID dir and A
    unfolding generateTrio_def by (intro nodirs.keeps_rules nodirs_scoped keeps_nodirs)
  then have "keeps (noNewDirs (bothSlots opts)) (Generate E
      \<lparr>kg_ckks = cp, kg_path = Some (joinPath (cleanPath (Path opts)) (kk_subdir kind)), kg_id = i\<rparr>)"
    for cp i
    unfolding Generate_def KeyGenParams.select_convs option.case
    by (intro nodirs.keeps_rules keeps_nodirs mk)
  then show ?thesis
    unfolding generateBundle_unfold Let_def wrapSteps.simps WrapEncKey_def wrapKey_def
    by (intro nodirs.keeps_rules nodirs_scoped keeps_nodirs mk)
qed

text \<open>Time only passes, so a file system that is quiet from now on stays quiet.\<close>

definition quietFrom :: "'e os_env_scheme \<Rightarrow> nat \<Rightarrow> bool" where
  "quietFrom E n \<longleftrightarrow> (\<forall>k\<ge>n. os_fault E k = None)"

lemma reliable_quiet: "reliable E \<Longrightarrow> quietFrom E n"
  by (simp add: reliable_def quietFrom_def)

definition later :: "'w os_world_scheme \<Rightarrow> 'w os_world_scheme \<Rightarrow> bool" where
  "later w w' \<longleftrightarrow> tick w \<le> tick w'"

interpretation later: step_relation later
  by unfold_locales (auto simp: later_def)

lemma quiet_later: "quietFrom E (tick w) \<Longrightarrow> later w w' \<Longrightarrow> quietFrom E (tick w')"
  by (auto simp: quietFrom_def later_def)

lemma later_syscall: "(\<And>w. tick (snd (act w)) = tick w) \<Longrightarrow> keeps later (syscall E act)"
  by (auto simp: keeps_def later_def syscall_def Let_def split: option.split)

lemma later_invoke_then:
  "(\<And>k st w. later w (snd (c (k, st) w))) \<Longrightarrow> keeps later (andThen (c_invoke E op hs ns vs) c)"
  by (rule later.keeps_andThen) (auto simp: keeps_def later_def c_invoke_def)

lemma keeps_later_os: "keeps later (osMkdirAll E p)" "keeps later (osRemove E p)" "keeps later (isEmptyDir E p)"
proof -
  show "keeps later (osMkdirAll E p)" "keeps later (osRemove E p)"
    unfolding osMkdirAll_def osRemove_def by (auto intro!: later_syscall split: option.split node.split)
  show "keeps later (isEmptyDir E p)"
    unfolding isEmptyDir_def osReadDir_def by (intro later.keeps_rules later_syscall) simp
qed

lemma keeps_later:
  "keeps later (c_create E kind op hs ns vs)" "keeps later (c_string E)" "keeps later (c_step E op hs ns)"
  "keeps later (c_save E op hs p)" "keeps later (km_wrap_from_handle E hs keyID dir name)"
  "keeps later (km_convert E op b conv src dst)"
proof -
  show "keeps later (c_create E kind op hs ns vs)" "keeps later (c_string E)" "keeps later (c_step E op hs ns)"
    unfolding c_create_def c_string_def c_acquire_def c_step_def
    by (intro later_invoke_then; auto simp: later_def c_created_def run_simps split: option.split)+
  show "keeps later (c_save E op hs p)" "keeps later (km_wrap_from_handle E hs keyID dir name)"
    "keeps later (km_convert E op b conv src dst)"
    unfolding c_save_def km_wrap_from_handle_def km_convert_def
    by (intro later_invoke_then; auto simp: later_def Let_def split: option.split)+
qed

lemma later_scoped: "keeps later m \<Longrightarrow> (\<And>h. keeps later (k h)) \<Longrightarrow> keeps later (scoped m k)"
  unfolding scoped_def by (intro later.keeps_rules) (auto simp: later_def c_free_def)

lemma later_generateBundle: "keeps later (generateBundle E opts kind b)"
proof -
  have "keeps later (generateTrio E a b c keyID dir)" for a b c keyID dir
    unfolding generateTrio_def by (intro later.keeps_rules later_scoped keeps_later keeps_later_os)
  then have "keeps later (Generate E p)" for p
    unfolding Generate_def by (intro later.keeps_rules keeps_later_os)
  then show ?thesis
    unfolding generateBundle_unfold Let_def wrapSteps.simps WrapEncKey_def wrapKey_def
    by (intro later.keeps_rules later_scoped keeps_later keeps_later_os)
qed

lemma later_remove: "later w (ignoring (osRemove E p) w)"
  by (rule later.ignoring_related) (rule keeps_later_os)

lemma later_removeAllOf: "later w (removeAllOf E ps w)"
  by (induction E ps w rule: removeAllOf.induct) (auto intro: later.R_refl later.R_trans later_remove)

lemma remove_reaches:
  "quietFrom E (tick w) \<Longrightarrow> nodeAt (nodes w) p \<noteq> Some Dir \<Longrightarrow> nodeAt (nodes (ignoring (osRemove E p) w)) p = None"
  by (auto simp: quietFrom_def ignoring_def osRemove_def syscall_def Let_def split: option.split node.split)

lemma removeAllOf_reaches:
  assumes "quietFrom E (tick w)"
  shows "\<forall>p \<in> set ps. nodeAt (nodes w) p \<noteq> Some Dir \<Longrightarrow> p \<in> set ps \<Longrightarrow>
    nodeAt (nodes (removeAllOf E ps w)) p = None"
  using assms
proof (induction E ps w rule: removeAllOf.induct)
  case (2 E q ps w)
  let ?w = "ignoring (osRemove E q) w"
  have rest: "\<forall>p \<in> set ps. nodeAt (nodes ?w) p \<noteq> Some Dir"
    using 2(2) shrinks_not_Dir[OF shrinks_remove] by (meson list.set_intros(2))
  show ?case
  proof (cases "p = q")
    case True
    with 2(2,4) have "nodeAt (nodes ?w) p = None" by (simp add: remove_reaches)
    then show ?thesis using shrinks_None[OF shrinks_removeAllOf] by simp
  qed (use 2 rest quiet_later[OF 2(4) later_remove[of w E q]] in auto)
qed simp

lemma removeKeyArtifacts_reaches:
  assumes "quietFrom E (tick w)" and "\<forall>p \<in> slotPaths dir. nodeAt (nodes w) p \<noteq> Some Dir"
  shows "\<not> anySlotIn (nodes (removeKeyArtifacts E dir w)) dir"
  using removeAllOf_reaches[OF assms(1), of "map (joinPath dir) keyFileNames"] assms(2)
  by (simp add: removeKeyArtifacts_def anySlotIn_paths slotPaths_def)

lemma anySlotIn_shrinks: "shrinks w w' \<Longrightarrow> \<not> anySlotIn (nodes w) dir \<Longrightarrow> \<not> anySlotIn (nodes w') dir"
proof -
  assume s: "shrinks w w'" and n: "\<not> anySlotIn (nodes w) dir"
  have "nodeAt (nodes w') p = None" if "p \<in> slotPaths dir" for p
    using shrinks_None[OF s] n that by (simp add: anySlotIn_paths)
  then show ?thesis by (simp add: anySlotIn_paths)
qed

lemma rollback_clears:
  assumes "quietFrom E (tick w)" and "\<forall>p \<in> slotPaths a \<union> slotPaths b. nodeAt (nodes w) p \<noteq> Some Dir"
  shows "\<not> anySlotIn (nodes (rollback E a b w)) a \<and> \<not> anySlotIn (nodes (rollback E a b w)) b"
proof -
  define w1 where "w1 = removeKeyArtifacts E a w"
  define w2 where "w2 = ignoring (osRemove E a) w1"
  define w3 where "w3 = removeKeyArtifacts E b w2"
  have s: "shrinks w w1" "shrinks w1 w2" "shrinks w2 w3" "shrinks w3 (rollback E a b w)"
    unfolding rollback_def w1_def w2_def w3_def removeKeyArtifacts_def
    by (rule shrinks_removeAllOf shrinks_remove)+
  have "later w w1" "later w1 w2"
    unfolding w1_def w2_def removeKeyArtifacts_def by (rule later_removeAllOf later_remove)+
  then have q: "quietFrom E (tick w2)" using assms(1) quiet_later later.R_trans by blast
  have "\<not> anySlotIn (nodes w1) a" unfolding w1_def using assms by (intro removeKeyArtifacts_reaches) auto
  moreover have "shrinks w w2" using s shrinking.R_trans by blast
  then have "\<not> anySlotIn (nodes w3) b"
    unfolding w3_def using q assms(2) shrinks_not_Dir by (intro removeKeyArtifacts_reaches) blast+
  ultimately show ?thesis using s anySlotIn_shrinks shrinking.R_trans by metis
qed

lemma generateBoth_failure:
  assumes "reliable E" and "generateBoth E opts w = (Inl e, w')"
    and "\<not> anySlotIn (nodes w) (rmpDirOf opts)" and "\<not> anySlotIn (nodes w) (mmDirOf opts)"
  shows "\<not> anySlotIn (nodes w') (rmpDirOf opts) \<and> \<not> anySlotIn (nodes w') (mmDirOf opts)"
proof -
  let ?m = "andThen (generateBundle E opts (flatBundleKind (FlatMode opts)) True)
       (\<lambda>_. generateBundle E opts mmKind True)"
  from assms(2) obtain w1 where m: "?m w = (Inl e, w1)"
    and w': "w' = rollback E (rmpDirOf opts) (mmDirOf opts) w1"
    by (auto simp: generateBoth_def onFailure_def split: prod.splits sum.splits)
  have "keeps (noNewDirs (bothSlots opts)) ?m"
    by (intro nodirs.keeps_rules nodirs_generateBundle) simp_all
  from keepsD[OF this m] have "noNewDirs (bothSlots opts) w w1" .
  moreover have "\<forall>p \<in> bothSlots opts. nodeAt (nodes w) p = None"
    using assms(3,4) by (auto simp: bothSlots_def anySlotIn_paths)
  ultimately have "\<forall>p \<in> bothSlots opts. nodeAt (nodes w1) p \<noteq> Some Dir"
    by (auto simp: noNewDirs_def)
  then show ?thesis
    unfolding w' by (intro rollback_clears reliable_quiet assms) (simp add: bothSlots_def)
qed

section \<open>Success leaves the documented layout\<close>

text \<open>A post-condition of the successful runs, over the store.\<close>

definition yields :: "(store \<Rightarrow> bool) \<Rightarrow> (err, 'w os_world_scheme, 'a) io \<Rightarrow> (store \<Rightarrow> bool) \<Rightarrow> bool" where
  "yields P m Q \<longleftrightarrow> (\<forall>w x w'. P (nodes w) \<longrightarrow> m w = (Inr x, w') \<longrightarrow> Q (nodes w'))"

lemma yieldsD: "yields P m Q \<Longrightarrow> P (nodes w) \<Longrightarrow> m w = (Inr x, w') \<Longrightarrow> Q (nodes w')"
  by (auto simp: yields_def)

lemma yields_andThen:
  assumes "yields P m Q" and "\<And>x. yields Q (k x) R"
  shows "yields P (andThen m k) R"
  unfolding yields_def
proof (intro allI impI)
  fix w y w'
  assume "P (nodes w)" and "andThen m k w = (Inr y, w')"
  then show "R (nodes w')" using assms by (blast elim: andThen_InrE intro: yieldsD)
qed

lemma yields_scoped:
  assumes "yields P m Q" and "\<And>h. yields Q (k h) R"
  shows "yields P (scoped m k) R"
proof -
  have "yields Q (deferring (c_free h) (k h)) R" for h
    unfolding yields_def
  proof (intro allI impI)
    fix w x w'
    assume q: "Q (nodes w)" and "deferring (c_free h) (k h) w = (Inr x, w')"
    then obtain w1 where "k h w = (Inr x, w1)" "w' = c_free h w1"
      by (auto simp: deferring_def split: prod.splits)
    with yieldsD[OF assms(2) q] show "R (nodes w')" by (simp add: c_free_def)
  qed
  with assms(1) show ?thesis unfolding scoped_def by (rule yields_andThen)
qed

lemma yields_mapErr: "yields P m Q \<Longrightarrow> yields P (mapErr g m) Q"
  by (auto simp: yields_def dest: mapErr_InrE)

lemma yields_throw: "yields P (throw e) Q"
  by (simp add: yields_def run_simps)

lemma yields_ret: "(\<And>st. P st \<Longrightarrow> Q st) \<Longrightarrow> yields P (ret x) Q"
  by (simp add: yields_def run_simps)

lemma yields_if: "(b \<Longrightarrow> yields P m Q) \<Longrightarrow> (\<not> b \<Longrightarrow> yields P n Q) \<Longrightarrow> yields P (if b then m else n) Q"
  by simp

definition isFile :: "store \<Rightarrow> gopath \<Rightarrow> bool" where
  "isFile st p \<longleftrightarrow> (\<exists>b. nodeAt st p = Some (File b))"

definition files :: "gopath set \<Rightarrow> store \<Rightarrow> bool" where
  "files A st \<longleftrightarrow> (\<forall>p \<in> A. isFile st p)"

lemma files_put: "files A st \<Longrightarrow> files (insert p A) (putNode p (File b) st)"
  by (auto simp: files_def isFile_def)

lemma yields_frame:
  assumes "keeps (touchesOnly B) m" and "A \<inter> B = {}"
  shows "yields (files A) m (files A)"
  unfolding yields_def files_def isFile_def
  by (metis assms disjoint_iff keepsD touchesOnly_nodeAt)

lemmas yields_quiet = yields_frame[where B = "{}", OF _ Int_empty_right]

lemma yields_any: "yields P m (files {})"
  by (simp add: yields_def files_def)

lemma yields_save: "yields (files A) (c_save E op hs p) (files (insert p A))"
  by (auto simp: yields_def c_save_def andThen_def c_invoke_def files_put split: if_splits option.splits)

lemma yields_wrap:
  "yields (files A) (km_wrap_from_handle E hs keyID dir name) (files (insert (joinPath dir name) A))"
  by (auto simp: yields_def km_wrap_from_handle_def andThen_def c_invoke_def files_put Let_def
      split: option.splits)

lemma yields_convert: "yields (files A) (km_convert E op b conv src dst) (files (insert dst A))"
  by (auto simp: yields_def km_convert_def andThen_def c_invoke_def files_put Let_def
      split: option.splits)

definition trioOf :: "gopath \<Rightarrow> gopath set" where
  "trioOf dir = {joinPath dir encKeyBinFile, joinPath dir evalKeyBinFile, joinPath dir secKeyJSONFile}"

lemma yields_generateTrio:
  "yields (files {}) (generateTrio E a b c keyID dir) (files (trioOf dir))"
proof -
  note step = yields_scoped[OF yields_quiet[OF keeps_c_quiet(3)]]
    yields_scoped[OF yields_quiet[OF keeps_c_quiet(5)]]
    yields_andThen[OF yields_quiet[OF keeps_c_quiet(6)]]
    yields_andThen[OF yields_save]
  have "yields (files A) (km_wrap_from_handle E hs keyID dir name) (files B)"
    if "B = insert (joinPath dir name) A" for A B hs name
    using yields_wrap that by metis
  note wrap = this
  show ?thesis
    unfolding generateTrio_def
    by (intro step, rule wrap) (simp add: trioOf_def insert_commute)
qed

text \<open>What a generated directory looks like.\<close>

definition generatedIn :: "store \<Rightarrow> gopath \<Rightarrow> bool" where
  "generatedIn st dir \<longleftrightarrow> isFile st (joinPath dir encKeyJSONFile) \<and> isFile st (joinPath dir secKeyJSONFile) \<and>
     isFile st (joinPath dir evalKeyBinFile) \<and> nodeAt st (joinPath dir encKeyBinFile) = None"

lemma yields_Generate:
  "kg_path p = Some dir \<Longrightarrow> yields (files {}) (Generate E p) (files (trioOf dir))"
  unfolding Generate_def
  by (simp, intro impI conjI yields_throw)
    (intro yields_andThen[OF yields_any] yields_if yields_throw yields_generateTrio)

lemma yields_remove:
  "yields P (osRemove E p) (\<lambda>st. nodeAt st p = None \<and> (\<exists>st0. P st0 \<and> (\<forall>q. q \<noteq> p \<longrightarrow> nodeAt st q = nodeAt st0 q)))"
  by (auto simp: yields_def osRemove_def syscall_def Let_def split: option.splits node.splits if_splits)

lemma yields_generateBundle:
  "yields (files {}) (generateBundle E opts kind True) (\<lambda>st. generatedIn st (bundleDir opts kind))"
proof -
  let ?d = "bundleDir opts kind"
  let ?all = "insert (joinPath ?d encKeyJSONFile) (trioOf ?d)"
  have wrap: "yields (files (trioOf ?d)) (WrapEncKey E i (joinPath ?d encKeyBinFile) (joinPath ?d encKeyJSONFile))
      (files ?all)" for i
    unfolding WrapEncKey_def wrapKey_def
    by (intro yields_scoped[OF yields_quiet[OF keeps_c_quiet(5)]] yields_convert)
  have rem: "yields (files ?all) (osRemove E (joinPath ?d encKeyBinFile)) (\<lambda>st. generatedIn st ?d)"
    unfolding yields_def
  proof (intro allI impI)
    fix w x w'
    assume "files ?all (nodes w)" and "osRemove E (joinPath ?d encKeyBinFile) w = (Inr x, w')"
    from yieldsD[OF yields_remove[of "files ?all"] this] obtain st0 where
      n: "nodeAt (nodes w') (joinPath ?d encKeyBinFile) = None" and f: "files ?all st0"
      and o: "\<And>q. q \<noteq> joinPath ?d encKeyBinFile \<Longrightarrow> nodeAt (nodes w') q = nodeAt st0 q" by blast
    have "isFile (nodes w') (joinPath ?d name)" if "isFile st0 (joinPath ?d name)" "name \<noteq> encKeyBinFile" for name
      using that o by (simp add: isFile_def)
    with n f show "generatedIn (nodes w') ?d"
      by (simp add: generatedIn_def files_def trioOf_def key_file_defs)
  qed
  show ?thesis
    unfolding generateBundle_unfold Let_def wrapSteps.simps bundleDir_def[symmetric]
    by (simp only: not_True_eq_False if_False, rule yields_andThen[OF yields_any],
        rule yields_andThen[OF yields_Generate], simp, rule yields_andThen[OF yields_mapErr[OF wrap]],
        rule yields_andThen[OF yields_mapErr[OF rem]], rule yields_ret, assumption)
qed

lemma slot_not_keyPath:
  assumes "length (snd d) = length (snd e)" and "d \<noteq> e"
  shows "joinPath d n \<notin> keyPathsIn e"
proof
  assume "joinPath d n \<in> keyPathsIn e"
  then show False
    unfolding keyPathsIn_def Un_iff
  proof
    assume "joinPath d n \<in> set (prefixesOf e)"
    from prefixesOf_length[OF this] assms(1) show False by simp
  next
    assume "joinPath d n \<in> joinPath e ` set (keyFileNames @ [secKeyJSONFile @ ''.tmp''])"
    with assms(2) show False by (auto simp: joinPath_eq_iff)
  qed
qed

text \<open>A directory with an entry stops \<open>Generate\<close> before it makes a call.\<close>

lemma mkdirs_grows: "mkdirs ps st = Some st' \<Longrightarrow> nodeAt st p \<noteq> None \<Longrightarrow> nodeAt st' p \<noteq> None"
  by (induction ps st rule: mkdirs.induct) (auto split: option.splits node.splits if_splits)

lemma yields_mkdir_occupied: "yields (\<lambda>st. nodeAt st p \<noteq> None) (osMkdirAll E d) (\<lambda>st. nodeAt st p \<noteq> None)"
  unfolding yields_def osMkdirAll_def syscall_def Let_def
  by (intro allI impI) (force split: option.splits dest: mkdirs_grows)

lemma yields_occupied:
  assumes "parentOf p = dir" "snd p \<noteq> []"
  shows "yields (\<lambda>st. nodeAt st p \<noteq> None)
    (andThen (isEmptyDir E dir) (\<lambda>empty. if \<not> empty then throw e else m)) (\<lambda>_. False)"
proof -
  have "entriesIn dir st \<noteq> []" if "nodeAt st p \<noteq> None" for st
    using entriesIn_empty_iff[THEN iffD1, rule_format, of dir st p] that assms by auto
  then show ?thesis
    by (auto simp: yields_def andThen_def isEmptyDir_def osReadDir_def syscall_def Let_def run_simps
        split: option.splits if_splits)
qed

lemma yields_never: "yields (\<lambda>_. False) m Q"
  by (simp add: yields_def)

lemma occupied_refused:
  assumes "nodeAt (nodes w) (joinPath (bundleDir opts kind) n) \<noteq> None"
  shows "generateBundle E opts kind b w \<noteq> (Inr x, w')"
proof
  let ?d = "bundleDir opts kind"
  let ?P = "\<lambda>st. nodeAt st (joinPath ?d n) \<noteq> None"
  have lift: "yields ?P (liftRes r) ?P" for r :: "err + 'z" by (cases r) (simp_all add: yields_def run_simps)
  have "snd (joinPath ?d n) \<noteq> []" by (cases ?d) simp
  then have "yields ?P (Generate E \<lparr>kg_ckks = cp, kg_path = Some ?d, kg_id = i\<rparr>) (\<lambda>_. False)" for cp i
    unfolding Generate_def KeyGenParams.select_convs option.case
    by (intro yields_if yields_throw yields_andThen[OF lift] yields_andThen[OF yields_mapErr[OF yields_mkdir_occupied]]
        yields_occupied) simp_all
  then have never: "yields ?P (generateBundle E opts kind b) (\<lambda>_. False)"
    unfolding generateBundle_unfold Let_def bundleDir_def[symmetric]
    by (intro yields_andThen[OF yields_mapErr[OF yields_mkdir_occupied]] yields_andThen[OF _ yields_never])
  assume "generateBundle E opts kind b w = (Inr x, w')"
  from yieldsD[OF never assms this] show False .
qed

lemma occupied_never_generated:
  assumes "anySlotIn (nodes w) (rmpDirOf opts) \<or> anySlotIn (nodes w) (mmDirOf opts)"
  shows "generateBoth E opts w \<noteq> (Inr x, w')"
proof
  assume "generateBoth E opts w = (Inr x, w')"
  then obtain w1 where a: "generateBundle E opts (flatBundleKind (FlatMode opts)) True w = (Inr (), w1)"
    and b: "generateBundle E opts mmKind True w1 = (Inr (), w')"
    by (auto simp: generateBoth_def onFailure_def split: prod.splits sum.splits elim: andThen_InrE)
  have "keeps (touchesOnly (keyPathsIn (rmpDirOf opts))) (generateBundle E opts (flatBundleKind (FlatMode opts)) True)"
    by (rule keeps_generateBundle) simp
  from touchesOnly_nodeAt[OF keepsD[OF this a]]
  have "nodeAt (nodes w1) (joinPath (mmDirOf opts) n) = nodeAt (nodes w) (joinPath (mmDirOf opts) n)" for n
    by (simp add: slot_not_keyPath dirs_length)
  moreover have "nodeAt (nodes w1) (joinPath (mmDirOf opts) n) = None" for n
    using occupied_refused[of w1 opts mmKind n E True "()" w'] b
    by (cases "nodeAt (nodes w1) (joinPath (mmDirOf opts) n)") auto
  moreover have "nodeAt (nodes w) (joinPath (rmpDirOf opts) n) = None" for n
    using occupied_refused[of w opts "flatBundleKind (FlatMode opts)" n E True "()" w1] a
    by (cases "nodeAt (nodes w) (joinPath (rmpDirOf opts) n)") auto
  ultimately show False using assms by (auto simp: anySlotIn_paths slotPaths_def)
qed

lemma generateBoth_success:
  assumes "generateBoth E opts w = (Inr (), w')"
  shows "generatedIn (nodes w') (rmpDirOf opts) \<and> generatedIn (nodes w') (mmDirOf opts)"
proof -
  from assms obtain w1 where
    a: "generateBundle E opts (flatBundleKind (FlatMode opts)) True w = (Inr (), w1)" and
    b: "generateBundle E opts mmKind True w1 = (Inr (), w')"
    by (auto simp: generateBoth_def onFailure_def split: prod.splits sum.splits elim: andThen_InrE)
  have ga: "generatedIn (nodes w1) (rmpDirOf opts)"
    using yieldsD[OF yields_generateBundle _ a] by (simp add: files_def)
  have gb: "generatedIn (nodes w') (mmDirOf opts)"
    using yieldsD[OF yields_generateBundle _ b] by (simp add: files_def)
  have "keeps (touchesOnly (keyPathsIn (mmDirOf opts))) (generateBundle E opts mmKind True)"
    by (rule keeps_generateBundle) simp
  from touchesOnly_nodeAt[OF keepsD[OF this b]]
  have "nodeAt (nodes w') (joinPath (rmpDirOf opts) n) = nodeAt (nodes w1) (joinPath (rmpDirOf opts) n)" for n
    by (simp add: slot_not_keyPath dirs_length)
  with ga have "generatedIn (nodes w') (rmpDirOf opts)" by (simp add: generatedIn_def isFile_def)
  with gb show ?thesis by simp
qed

end
