(* ===== verification/Key_Generation.thy ===== *)
theory Key_Generation
  imports Key_Safety
begin

text \<open>The properties of \<open>GenerateKeys\<close>, with concrete runs as witnesses.\<close>

section \<open>Concrete environments\<close>

text \<open>Every call of the library succeeds with a one-byte result, every system call works.\<close>

definition calmEnv :: cgo_env where
  "calmEnv = \<lparr>os_fault = (\<lambda>k. None), os_partial = (\<lambda>k. 0), os_tempname = (\<lambda>k. ''t'' @ replicate k CHR ''x''),
     c_status = (\<lambda>k. 0), c_message = (\<lambda>k. []), c_destroyed = (\<lambda>m. m), c_blob = (\<lambda>k. [of_nat k]), c_count = (\<lambda>k. 1),
     c_scores = (\<lambda>k. [Num 1]), c_partial = (\<lambda>k. None), km_wrap = (\<lambda>kind i b. 1 # b),
     km_unwrap = (\<lambda>kind b. case b of [] \<Rightarrow> None | x # xs \<Rightarrow> Some xs)\<rparr>"

definition emptyWorld :: keys_world where
  "emptyWorld = \<lparr>tick = 0, nodes = [], c_log = [], k_objs = []\<rparr>"

definition sampleOpts :: "KeysOption list" where
  "sampleOpts = [WithKeyPath ''/k'', WithKeyID ''id'', WithKeyDim 8]"

lemma calm_reliable: "reliable calmEnv"
  by (simp add: reliable_def calmEnv_def)

lemma sampleOpts_build:
  "buildKeysOptions sampleOpts = \<lparr>Path = ''/k'', KeyID = ''id'', Dim = 8, Parts = [], FlatMode = []\<rparr>"
  by (simp add: buildKeysOptions_def sampleOpts_def keys_option_defs zeroKeysOptions_def)

lemma sampleOpts_valid: "validate (buildKeysOptions sampleOpts) = Inr ()"
  by (simp add: sampleOpts_build validate_ok rune_eval)

lemma sampleOpts_dirs:
  "rmpDirOf (buildKeysOptions sampleOpts) = (True, [''k'', ''rmp''])"
  "mmDirOf (buildKeysOptions sampleOpts) = (True, [''k'', ''mm''])"
  unfolding sampleOpts_build rmpDirOf_def mmDirOf_def by code_simp+


section \<open>Generation succeeds in an empty place\<close>

text \<open>A total-correctness triple over the store.\<close>

definition succeeds :: "(store \<Rightarrow> bool) \<Rightarrow> (err, 'w os_world_scheme, 'a) io \<Rightarrow> (store \<Rightarrow> bool) \<Rightarrow> bool" where
  "succeeds P m Q \<longleftrightarrow> (\<forall>w. P (nodes w) \<longrightarrow> (\<exists>x w'. m w = (Inr x, w') \<and> Q (nodes w')))"

lemma succeeds_andThen:
  fixes m :: "(err, 'w os_world_scheme, 'a) io"
  assumes "succeeds P m Q" and "\<And>x. succeeds Q (k x) R"
  shows "succeeds P (andThen m k) R"
  unfolding succeeds_def
proof (intro allI impI)
  fix w :: "'w os_world_scheme" assume "P (nodes w)"
  then obtain x w1 where "m w = (Inr x, w1)" "Q (nodes w1)" using assms(1) by (auto simp: succeeds_def)
  then show "\<exists>x w'. andThen m k w = (Inr x, w') \<and> R (nodes w')"
    using assms(2)[of x] by (simp add: andThen_Inr succeeds_def)
qed

lemma succeeds_scoped:
  assumes "succeeds P m Q" and "\<And>h. succeeds Q (k h) R"
  shows "succeeds P (scoped m k) R"
proof -
  have "succeeds Q (deferring (c_free h) (k h)) R" for h
    using assms(2)[of h] by (fastforce simp: succeeds_def deferring_def c_free_def)
  with assms(1) show ?thesis unfolding scoped_def by (rule succeeds_andThen)
qed

lemma succeeds_mapErr: "succeeds P m Q \<Longrightarrow> succeeds P (mapErr g m) Q"
  by (fastforce simp: succeeds_def mapErr_def)

lemma succeeds_ret: "(\<And>st. P st \<Longrightarrow> Q st) \<Longrightarrow> succeeds P (ret x) Q"
  by (simp add: succeeds_def run_simps)

definition calm :: "'e cgo_env_scheme \<Rightarrow> bool" where
  "calm E \<longleftrightarrow> reliable E \<and> (\<forall>k. c_status E k = 0)"

lemma calm_calmEnv: "calm calmEnv"
  by (simp add: calm_def calm_reliable) (simp add: calmEnv_def)

lemma isFile_put: "isFile st p \<Longrightarrow> isFile (putNode q (File b) st) p"
  "isFile (putNode p (File b) st) p"
  by (auto simp: isFile_def)

lemmas calm_run = succeeds_def c_create_def c_string_def c_step_def c_acquire_def c_invoke_def andThen_def
  eviFailed_def EVI_STATUS_SUCCESS_def c_created_def calm_def run_simps c_save_def km_wrap_from_handle_def
  km_convert_def kmShimError_def shimError_def Let_def isFile_put

lemma calm_create: "calm E \<Longrightarrow> succeeds P (c_create E kind op hs ns vs) P"
  by (auto simp: calm_run)

lemma calm_string: "calm E \<Longrightarrow> succeeds P (c_string E) P"
  by (auto simp: calm_run)

lemma calm_step: "calm E \<Longrightarrow> succeeds P (c_step E op hs ns) P"
  by (auto simp: calm_run)

lemma calm_save: "calm E \<Longrightarrow> succeeds P (c_save E op hs p) (\<lambda>st. isFile st p)"
  by (auto simp: calm_run)

lemma calm_save_keep: "calm E \<Longrightarrow> succeeds (\<lambda>st. isFile st q) (c_save E op hs p) (\<lambda>st. isFile st q)"
  by (auto simp: calm_run)

lemma calm_wrap:
  "calm E \<Longrightarrow> keyID \<noteq> [] \<Longrightarrow>
    succeeds (\<lambda>st. isFile st q) (km_wrap_from_handle E hs keyID dir name) (\<lambda>st. isFile st q)"
  by (auto simp: calm_run)

lemma calm_convert:
  assumes "calm E"
  shows "succeeds (\<lambda>st. isFile st src) (km_convert E op True (\<lambda>b. Some (f b)) src dst) (\<lambda>st. isFile st src)"
  unfolding succeeds_def
proof (intro allI impI)
  fix w :: "'b cgo_world_scheme"
  assume f: "isFile (nodes w) src"
  then obtain b where "fileAt (nodes w) src = Some b" by (auto simp: isFile_def fileAt_def)
  with assms f show "\<exists>x w'. km_convert E op True (\<lambda>b. Some (f b)) src dst w =
      (Inr x, w') \<and> isFile (nodes w') src"
    by (auto simp: calm_run)
qed

lemma calm_wrapEnc:
  "calm E \<Longrightarrow> keyID \<noteq> [] \<Longrightarrow>
    succeeds (\<lambda>st. isFile st src) (WrapEncKey E keyID src dst) (\<lambda>st. isFile st src)"
  unfolding WrapEncKey_def wrapKey_def
  by (intro succeeds_scoped[OF calm_string]) (simp_all add: calm_convert)

lemma succeeds_trio:
  assumes "calm E" and "keyID \<noteq> []"
  shows "succeeds (\<lambda>st. True) (generateTrio E a b c keyID dir) (\<lambda>st. isFile st (joinPath dir encKeyBinFile))"
proof -
  note a = assms(1)
  show ?thesis
    unfolding generateTrio_def
    by (intro succeeds_scoped[OF calm_create[OF a]] succeeds_andThen[OF calm_step[OF a]],
        rule succeeds_scoped[OF calm_string[OF a]], rule succeeds_andThen[OF calm_save[OF a]],
        rule succeeds_scoped[OF calm_string[OF a]], rule succeeds_andThen[OF calm_save_keep[OF a]],
        intro succeeds_scoped[OF calm_string[OF a]] calm_wrap assms)
qed

text \<open>Directories on the way to \<open>dir\<close> can be made, and \<open>dir\<close> holds nothing.\<close>

definition vacant :: "gopath \<Rightarrow> store \<Rightarrow> bool" where
  "vacant dir st \<longleftrightarrow> (\<forall>p \<in> set (prefixesOf dir). \<not> isFile st p) \<and> entriesIn dir st = []"

lemma mkdirs_keepDir:
  "mkdirs qs st = Some st' \<Longrightarrow> nodeAt st q = Some Dir \<Longrightarrow> nodeAt st' q = Some Dir"
  by (induction qs st arbitrary: st' rule: mkdirs.induct) (auto split: option.splits node.splits if_splits)

lemma mkdirs_dirs: "mkdirs qs st = Some st' \<Longrightarrow> q \<in> set qs \<Longrightarrow> nodeAt st' q = Some Dir"
  by (induction qs st arbitrary: st' rule: mkdirs.induct)
    (auto split: option.splits node.splits if_splits dest: mkdirs_keepDir)

lemma mkdirs_ok: "\<forall>p \<in> set ps. \<not> isFile st p \<Longrightarrow> \<exists>st'. mkdirs ps st = Some st'"
proof (induction ps arbitrary: st)
  case (Cons p ps)
  consider "nodeAt st p = None" | "nodeAt st p = Some Dir"
    using Cons.prems by (cases "nodeAt st p"; cases "the (nodeAt st p)") (auto simp: isFile_def)
  then show ?case
  proof cases
    case 1
    have "\<forall>q \<in> set ps. \<not> isFile (putNode p Dir st) q" using Cons.prems by (simp add: isFile_def)
    from Cons.IH[OF this] 1 show ?thesis by simp
  qed (use Cons in simp)
qed simp

lemma parent_length: "snd p \<noteq> [] \<Longrightarrow> parentOf p = d \<Longrightarrow> length (snd p) = Suc (length (snd d))"
  by (cases p) auto

lemma entriesIn_outside:
  assumes "entriesIn dir st = []" and "\<And>p. length (snd p) = Suc (length (snd dir)) \<Longrightarrow> parentOf p = dir \<Longrightarrow>
    nodeAt st' p = nodeAt st p"
  shows "entriesIn dir st' = []"
  using assms by (simp add: entriesIn_empty_iff parent_length)

lemma vacant_mkdirs:
  assumes "vacant dir st"
  obtains st' where "mkdirs (prefixesOf dir) st = Some st'" and "vacant dir st'"
    and "snd dir \<noteq> [] \<Longrightarrow> isDirAt st' dir"
proof -
  from assms obtain st' where m: "mkdirs (prefixesOf dir) st = Some st'"
    using mkdirs_ok unfolding vacant_def by blast
  have "\<forall>p \<in> set (prefixesOf dir). \<not> isFile st' p"
    using mkdirs_dirs[OF m] by (auto simp: isFile_def)
  moreover have "nodeAt st' p = nodeAt st p" if "length (snd p) = Suc (length (snd dir))" for p
    using mkdirs_outside[OF m order_refl] prefixesOf_length[of p dir] that
    unfolding fstore.same_outside_def by (metis not_less_eq_eq order_refl)
  then have "entriesIn dir st' = []"
    using assms entriesIn_outside unfolding vacant_def by blast
  moreover have "snd dir \<noteq> [] \<Longrightarrow> isDirAt st' dir"
    using mkdirs_dirs[OF m prefixesOf_self] by (simp add: isDirAt_def)
  ultimately show thesis using that m by (simp add: vacant_def)
qed

lemma succeeds_mkdir:
  assumes "calm E" and "snd dir \<noteq> []"
  shows "succeeds (vacant dir) (osMkdirAll E dir) (\<lambda>st. vacant dir st \<and> isDirAt st dir)"
  unfolding succeeds_def
proof (intro allI impI)
  fix w :: "'b os_world_scheme"
  assume "vacant dir (nodes w)"
  then show "\<exists>x w'. osMkdirAll E dir w = (Inr x, w') \<and> vacant dir (nodes w') \<and> isDirAt (nodes w') dir"
    by (rule vacant_mkdirs)
      (use assms in \<open>simp add: osMkdirAll_def syscall_def calm_def reliable_def Let_def\<close>)
qed

lemma succeeds_emptyDir:
  assumes "calm E" and "succeeds (\<lambda>st. True) (k True) R"
  shows "succeeds (\<lambda>st. vacant dir st \<and> isDirAt st dir) (andThen (isEmptyDir E dir) k) R"
  using assms
  by (auto simp: succeeds_def isEmptyDir_def osReadDir_def syscall_def calm_def reliable_def Let_def
      andThen_def run_simps vacant_def)

lemma succeeds_Generate:
  assumes "calm E" and "keyID \<noteq> []" and "snd dir \<noteq> []" and "isl (presetToEnum preset) = False"
    and "isl (evalModeToEnum mode) = False"
  shows "succeeds (vacant dir) (Generate E \<lparr>kg_ckks = \<lparr>cp_preset = preset, cp_dims = [d], cp_mode = mode\<rparr>,
      kg_path = Some dir, kg_id = keyID\<rparr>) (\<lambda>st. isFile st (joinPath dir encKeyBinFile))"
proof -
  have pure: "succeeds P (andThen (liftRes r) k) Q" if "isl r = False" "\<And>x. succeeds P (k x) Q"
    for P Q and r :: "err + int" and k :: "int \<Rightarrow> (err, 'b cgo_world_scheme, unit) io"
    using that by (cases r) (auto simp: succeeds_def andThen_def run_simps)
  show ?thesis
    unfolding Generate_def KeyGenParams.select_convs CKKSParams.select_convs option.case
    using assms(2)
    by (simp, intro pure assms succeeds_andThen[OF succeeds_mapErr[OF succeeds_mkdir]] succeeds_emptyDir)
      (simp_all add: assms succeeds_trio)
qed

lemma succeeds_generateBundle:
  assumes "calm E" and "KeyID opts \<noteq> []" and "kind = flatBundleKind m \<or> kind = mmKind"
  shows "succeeds (vacant (bundleDir opts kind)) (generateBundle E opts kind True) (\<lambda>st. True)"
proof -
  let ?d = "bundleDir opts kind"
  have ne: "snd ?d \<noteq> []" by (cases "cleanPath (Path opts)") (simp add: bundleDir_def)
  have enums: "isl (presetToEnum (kk_preset kind)) = False" "isl (evalModeToEnum (kk_mode kind)) = False"
    using assms(3) by (auto simp: flatBundleKind_def rmpKind_def mmKind_def split: if_splits)
  have rem: "succeeds (\<lambda>st. isFile st p) (osRemove E p) (\<lambda>st. True)" for p
    using assms(1) by (auto simp: succeeds_def osRemove_def syscall_def calm_def reliable_def isFile_def Let_def)
  have mk: "succeeds (vacant ?d) (osMkdirAll E ?d) (vacant ?d)"
    using succeeds_mkdir[OF assms(1) ne] by (fastforce simp: succeeds_def)
  show ?thesis
    unfolding generateBundle_unfold Let_def bundleDir_def[symmetric] wrapSteps.simps
    by (simp, rule succeeds_andThen[OF succeeds_mapErr[OF mk]],
        rule succeeds_andThen[OF succeeds_Generate[OF assms(1,2) ne enums]],
        rule succeeds_andThen[OF succeeds_mapErr[OF calm_wrapEnc[OF assms(1,2)]]],
        rule succeeds_andThen[OF succeeds_mapErr[OF rem]], rule succeeds_ret, simp)
qed

text \<open>Generating the first bundle leaves the place of the second vacant.\<close>

definition noNewFiles :: "gopath set \<Rightarrow> 'w os_world_scheme \<Rightarrow> 'w os_world_scheme \<Rightarrow> bool" where
  "noNewFiles A w w' \<longleftrightarrow> (\<forall>p \<in> A. isFile (nodes w') p \<longrightarrow> isFile (nodes w) p)"

interpretation nofiles: step_relation "noNewFiles A" for A
  by unfold_locales (auto simp: noNewFiles_def)

lemma keeps_touchesOnly_noNewFiles: "keeps (touchesOnly B) m \<Longrightarrow> A \<inter> B = {} \<Longrightarrow> keeps (noNewFiles A) m"
  unfolding keeps_def noNewFiles_def isFile_def by (metis disjoint_iff touchesOnly_nodeAt)

lemma mkdirs_noFiles: "mkdirs ps st = Some st' \<Longrightarrow> isFile st' p \<Longrightarrow> isFile st p"
  by (induction ps st arbitrary: st' rule: mkdirs.induct)
    (auto simp: isFile_def split: option.splits node.splits if_splits)

lemma nofiles_mkdir: "keeps (noNewFiles A) (osMkdirAll E p)"
  by (rule keepsI)
    (auto simp: osMkdirAll_def syscall_def noNewFiles_def Let_def split: option.split dest: mkdirs_noFiles)

lemma nofiles_generateBundle:
  assumes "\<And>n. joinPath (bundleDir opts kind) n \<notin> A"
  shows "keeps (noNewFiles A) (generateBundle E opts kind True)"
proof -
  let ?d = "bundleDir opts kind"
  let ?B = "joinPath ?d ` UNIV"
  have disj: "A \<inter> ?B = {}" using assms by auto
  note frame = keeps_touchesOnly_noNewFiles[OF _ disj]
  have trio: "keeps (noNewFiles A) (generateTrio E a b c keyID ?d)" for a b c keyID
    by (rule frame) (unfold generateTrio_def, intro touching.keeps_rules frame_intros, auto)
  have dirs: "keeps (noNewFiles A) (isEmptyDir E p)" for p by (rule frame, rule keeps_isEmptyDir)
  have rest: "keeps (noNewFiles A) (wrapSteps E opts ?d [(encKeyBinFile, encKeyJSONFile, WrapEncKey E)])"
    unfolding wrapSteps.simps by (rule frame, intro touching.keeps_rules frame_intros) auto
  show ?thesis
    unfolding generateBundle_unfold Let_def bundleDir_def[symmetric] Generate_def KeyGenParams.select_convs option.case
    by (intro nofiles.keeps_rules nofiles_mkdir dirs trio rest)
qed

lemma generateBoth_succeeds:
  assumes "calm E" and "KeyID opts \<noteq> []" and "vacant (rmpDirOf opts) (nodes w)" and "vacant (mmDirOf opts) (nodes w)"
  obtains w' where "generateBoth E opts w = (Inr (), w')"
proof -
  obtain w1 where a: "generateBundle E opts (flatBundleKind (FlatMode opts)) True w = (Inr (), w1)"
    using succeeds_generateBundle[OF assms(1,2) disjI1[OF refl], of "FlatMode opts"] assms(3)
    by (auto simp: succeeds_def)
  have "keeps (noNewFiles (set (prefixesOf (mmDirOf opts))))
      (generateBundle E opts (flatBundleKind (FlatMode opts)) True)"
  proof (rule nofiles_generateBundle)
    show "joinPath (bundleDir opts (flatBundleKind (FlatMode opts))) n \<notin> set (prefixesOf (mmDirOf opts))" for n
      using prefixesOf_length[of "joinPath (rmpDirOf opts) n" "mmDirOf opts"] dirs_length[of opts] by auto
  qed
  from keepsD[OF this a] assms(4) have np: "\<forall>p \<in> set (prefixesOf (mmDirOf opts)). \<not> isFile (nodes w1) p"
    by (auto simp: noNewFiles_def vacant_def)
  have "keeps (touchesOnly (keyPathsIn (rmpDirOf opts))) (generateBundle E opts (flatBundleKind (FlatMode opts)) True)"
    by (rule keeps_generateBundle) simp
  note frame = touchesOnly_nodeAt[OF keepsD[OF this a]]
  have "entriesIn (mmDirOf opts) (nodes w1) = []"
  proof (rule entriesIn_outside)
    show "entriesIn (mmDirOf opts) (nodes w) = []" using assms(4) by (simp add: vacant_def)
    show "nodeAt (nodes w1) p = nodeAt (nodes w) p"
      if l: "length (snd p) = Suc (length (snd (mmDirOf opts)))" and pa: "parentOf p = mmDirOf opts" for p
    proof (rule frame)
      show "p \<notin> keyPathsIn (rmpDirOf opts)"
        using l pa prefixesOf_length[of p "rmpDirOf opts"] dirs_length[of opts]
        by (auto simp: keyPathsIn_def)
    qed
  qed
  with np have "vacant (mmDirOf opts) (nodes w1)" by (simp add: vacant_def)
  then obtain w2 where "generateBundle E opts mmKind True w1 = (Inr (), w2)"
    using succeeds_generateBundle[OF assms(1,2) disjI2[OF refl]] by (auto simp: succeeds_def)
  with a show thesis
    by (intro that[of w2]) (simp add: generateBoth_def onFailure_def andThen_def)
qed

lemma GenerateKeys_succeeds:
  assumes "calm E" and "validate (buildKeysOptions opts) = Inr ()"
    and "vacant (rmpDirOf (buildKeysOptions opts)) (nodes w)"
    and "vacant (mmDirOf (buildKeysOptions opts)) (nodes w)"
  shows "fst (GenerateKeys E opts w) = Inr ()"
proof -
  have none: "\<not> anySlotIn (nodes w) dir" if "vacant dir (nodes w)" for dir
  proof -
    have "nodeAt (nodes w) (joinPath dir n) = None" for n
      using that entriesIn_empty_iff[of dir "nodes w"] by (cases dir) (auto simp: vacant_def)
    then show ?thesis by (simp add: anySlotIn_def slotIn_def)
  qed
  have "reliable E" using assms(1) by (simp add: calm_def)
  then obtain w1 where "advanced w w1" "GenerateKeys E opts w = generateBoth E (buildKeysOptions opts) w1"
    using GenerateKeys_guard[of E opts w] assms none by auto
  moreover have "KeyID (buildKeysOptions opts) \<noteq> []" using assms(2) by (simp add: validate_ok)
  ultimately show ?thesis
    using generateBoth_succeeds[OF assms(1), of "buildKeysOptions opts" w1] assms(3,4)
    by (metis advanced_nodes fst_conv)
qed

lemma sample_paths:
  "cleanPath ''/k'' = (True, [''k''])" "flatBundleKind [] = rmpKind"
  "prefixesOf (True, [a, b]) = [(True, [a]), (True, [a, b])]"
  by (simp add: cleanPath_def Let_def, simp add: flatBundleKind_def rune_eval equalFold_def,
      simp add: upt_conv_Cons)

lemma emptyWorld_vacant: "vacant dir (nodes emptyWorld)"
  by (simp add: vacant_def emptyWorld_def entriesIn_def isFile_def nodeAt_def)

lemma GenerateKeys_leaves:
  assumes "GenerateKeys E opts w = (Inr (), w')"
  shows "generatedIn (nodes w') (rmpDirOf (buildKeysOptions opts)) \<and>
    generatedIn (nodes w') (mmDirOf (buildKeysOptions opts))"
proof -
  from assms[unfolded GenerateKeys_unfold Let_def] obtain present w1 where
    "(if present then throw (Sentinel ErrKeysAlreadyExist) else generateBoth E (buildKeysOptions opts)) w1 =
      (Inr (), w')"
    by (elim andThen_InrE)
  then have "generateBoth E (buildKeysOptions opts) w1 = (Inr (), w')"
    by (cases present) (simp_all add: run_simps)
  then show ?thesis by (rule generateBoth_success)
qed

section \<open>Properties\<close>

text \<open>
  C11. \<open>GenerateKeys\<close> never overwrites: when any key slot, in either format, is present in
  the \<open>rmp\<close> or \<open>mm\<close> directory and no file-system call fails spuriously, it returns
  \<open>ErrKeysAlreadyExist\<close> and the file system is left exactly as it was.
\<close>

theorem generate_never_overwrites:
  assumes "reliable E" and "validate (buildKeysOptions opts) = Inr ()"
    and "anySlotIn (nodes w) (rmpDirOf (buildKeysOptions opts)) \<or>
      anySlotIn (nodes w) (mmDirOf (buildKeysOptions opts))"
  shows "fst (GenerateKeys E opts w) = Inl (Sentinel ErrKeysAlreadyExist) \<and>
    nodes (snd (GenerateKeys E opts w)) = nodes w"
proof -
  obtain w1 where "advanced w w1" "GenerateKeys E opts w = (Inl (Sentinel ErrKeysAlreadyExist), w1)"
    using GenerateKeys_guard[OF assms(1,2), of w] assms(3) by auto
  then show ?thesis by (simp add: advanced_nodes)
qed

text \<open>A world that holds one raw evaluation key of the clustered tier.\<close>

definition ownedWorld :: keys_world where
  "ownedWorld = emptyWorld\<lparr>nodes := [((True, [''k'', ''mm'', ''EvalKey.bin'']), File [7])]\<rparr>"

lemma ownedWorld_slot: "anySlotIn (nodes ownedWorld) (mmDirOf (buildKeysOptions sampleOpts))"
  by (simp add: sampleOpts_dirs anySlotIn_def slotIn_def slot_defs key_file_defs ownedWorld_def nodeAt_def)

theorem generate_never_overwrites_witness:
  "fst (GenerateKeys calmEnv sampleOpts ownedWorld) = Inl (Sentinel ErrKeysAlreadyExist) \<and>
   nodes (snd (GenerateKeys calmEnv sampleOpts ownedWorld)) = nodes ownedWorld"
  by (rule generate_never_overwrites[OF calm_reliable sampleOpts_valid disjI2[OF ownedWorld_slot]])

text \<open>
  Whatever the library and the file system do, and whatever \<open>GenerateKeys\<close> returns,
  it creates, changes or removes nothing but the two tier directories, the directories
  leading to them, and in each of them the six key files and the secret key's temporary
  file.
\<close>

theorem generate_touches_only_key_paths:
  "touchesOnly (keyPaths (buildKeysOptions opts)) w (snd (GenerateKeys E opts w))"
  using keeps_GenerateKeys unfolding keeps_def by blast

text \<open>
  C13. A failed generation does not block a retry: once the existence check has passed, an
  error of any later step (of the library or of a directory call) leaves no key slot in
  either directory, partial files included.
\<close>

theorem failed_generation_leaves_no_slot:
  assumes "reliable E" and "validate (buildKeysOptions opts) = Inr ()"
    and "GenerateKeys E opts w = (Inl e, w')" and "e \<noteq> Sentinel ErrKeysAlreadyExist"
  shows "\<not> anySlotIn (nodes w') (rmpDirOf (buildKeysOptions opts)) \<and>
    \<not> anySlotIn (nodes w') (mmDirOf (buildKeysOptions opts))"
proof -
  let ?o = "buildKeysOptions opts"
  let ?present = "anySlotIn (nodes w) (rmpDirOf ?o) \<or> anySlotIn (nodes w) (mmDirOf ?o)"
  obtain w1 where a: "advanced w w1" and r: "GenerateKeys E opts w =
      (if ?present then (Inl (Sentinel ErrKeysAlreadyExist), w1) else generateBoth E ?o w1)"
    using GenerateKeys_guard[OF assms(1,2)] by blast
  have np: "\<not> ?present" using r assms(3,4) by (cases ?present) simp_all
  then have "generateBoth E ?o w1 = (Inl e, w')" using r assms(3) by simp
  from generateBoth_failure[OF assms(1) this] np show ?thesis by (simp add: advanced_nodes[OF a])
qed

text \<open>The library fails to save the first evaluation key and leaves a partial file.\<close>

definition fullDiskEnv :: cgo_env where
  "fullDiskEnv = calmEnv\<lparr>c_status := (\<lambda>k. if k = 23 then 1 else 0), c_partial := (\<lambda>k. Some [0])\<rparr>"

lemma fullDisk_guard:
  "anySlotExists fullDiskEnv dir (emptyWorld\<lparr>tick := t\<rparr>) = (Inr False, emptyWorld\<lparr>tick := t + 6\<rparr>)"
proof -
  have r: "reliable fullDiskEnv" by (simp add: fullDiskEnv_def calmEnv_def reliable_def)
  have "slotPresent fullDiskEnv dir s (emptyWorld\<lparr>tick := t\<rparr>) = (Inr False, emptyWorld\<lparr>tick := t + 2\<rparr>)" for s t
    by (simp add: slotPresent_def resolveKeySlot_def andThen_def attempt_def osStat_reliable[OF r] run_simps
        emptyWorld_def nodeAt_def)
  then show ?thesis by (simp add: anySlotExists_def andThen_def run_simps)
qed

lemma fullDisk_bundle:
  "fst (generateBundle fullDiskEnv (buildKeysOptions sampleOpts) rmpKind True (emptyWorld\<lparr>tick := 12\<rparr>)) =
    Inl (Errorf [Lit ''runespace/crypto: '', Str ''evi_keypack_save_eval_key'', Lit '': status='', Dec 1])"
proof -
  define w0 where "w0 = emptyWorld\<lparr>tick := 12\<rparr>"
  define w1 where "w1 = w0\<lparr>tick := 13, nodes := [((True, [''k'', ''rmp'']), Dir), ((True, [''k'']), Dir)]\<rparr>"
  define w2 where "w2 = w1\<lparr>tick := 15\<rparr>"
  have r: "os_fault fullDiskEnv k = None" for k by (simp add: fullDiskEnv_def calmEnv_def)
  let ?d = "(True, [''k'', ''rmp''])"
  have 1: "osMkdirAll fullDiskEnv ?d w0 = (Inr (), w1)"
    by (simp add: osMkdirAll_def syscall_def r sample_paths Let_def w0_def w1_def emptyWorld_def
        nodeAt_def putNode_def)
  have 2: "osMkdirAll fullDiskEnv ?d w1 = (Inr (), w1\<lparr>tick := 14\<rparr>)"
    by (simp add: osMkdirAll_def syscall_def r sample_paths Let_def w0_def w1_def emptyWorld_def
        nodeAt_def)
  have 3: "isEmptyDir fullDiskEnv ?d (w1\<lparr>tick := 14\<rparr>) = (Inr True, w2)"
    by (simp add: isEmptyDir_def osReadDir_def syscall_def r Let_def w0_def w1_def w2_def emptyWorld_def
        nodeAt_def entriesIn_def andThen_def run_simps isDirAt_def)
  have 4: "fst (generateTrio fullDiskEnv 5 0 8 ''id'' ?d w2) = Inl (Errorf [Lit ''runespace/crypto: '',
      Str ''evi_keypack_save_eval_key'', Lit '': status='', Dec 1])"
    by (simp add: generateTrio_def scoped_def c_create_def c_string_def c_step_def c_acquire_def c_invoke_def
        andThen_def deferring_def eviFailed_def EVI_STATUS_SUCCESS_def c_created_def run_simps c_save_def
        w0_def w1_def w2_def emptyWorld_def fullDiskEnv_def calmEnv_def wrapEviError_def)
  obtain w3 where 5: "generateTrio fullDiskEnv 5 0 8 ''id'' ?d w2 = (Inl (Errorf [Lit ''runespace/crypto: '',
      Str ''evi_keypack_save_eval_key'', Lit '': status='', Dec 1]), w3)"
    using 4 by (metis prod.collapse)
  show ?thesis
    unfolding sampleOpts_build w0_def[symmetric]
    by (simp add: generateBundle_unfold Generate_def rmpKind_def Let_def sample_paths 1 2 3 5 toUint64_def
        andThen_Inr andThen_Inl mapErr_def run_simps)
qed

lemma fullDisk_run:
  obtains w' where "GenerateKeys fullDiskEnv sampleOpts emptyWorld = (Inl (Errorf [Lit ''runespace/crypto: '',
      Str ''evi_keypack_save_eval_key'', Lit '': status='', Dec 1]), w')"
proof -
  have g: "anySlotExists fullDiskEnv d emptyWorld = (Inr False, emptyWorld\<lparr>tick := 6\<rparr>)" for d
    using fullDisk_guard[of d 0] by (simp add: emptyWorld_def)
  have k: "flatBundleKind (FlatMode (buildKeysOptions sampleOpts)) = rmpKind"
    by (simp add: sampleOpts_build sample_paths)
  have "fst (generateBoth fullDiskEnv (buildKeysOptions sampleOpts) (emptyWorld\<lparr>tick := 12\<rparr>)) =
      Inl (Errorf [Lit ''runespace/crypto: '', Str ''evi_keypack_save_eval_key'', Lit '': status='', Dec 1])"
    using fullDisk_bundle
    by (auto simp: generateBoth_def k onFailure_def andThen_def split: prod.splits sum.splits)
  then have "fst (GenerateKeys fullDiskEnv sampleOpts emptyWorld) =
      Inl (Errorf [Lit ''runespace/crypto: '', Str ''evi_keypack_save_eval_key'', Lit '': status='', Dec 1])"
    using fullDisk_guard[of _ 6]
    by (simp add: GenerateKeys_unfold Let_def sampleOpts_valid andThen_def run_simps g)
  then show thesis using that by (metis prod.collapse)
qed

theorem failed_generation_leaves_no_slot_witness:
  "\<not> anySlotIn (nodes (snd (GenerateKeys fullDiskEnv sampleOpts emptyWorld)))
     (rmpDirOf (buildKeysOptions sampleOpts))"
proof -
  have r: "reliable fullDiskEnv" by (simp add: fullDiskEnv_def calmEnv_def reliable_def)
  obtain w' where "GenerateKeys fullDiskEnv sampleOpts emptyWorld = (Inl (Errorf [Lit ''runespace/crypto: '',
      Str ''evi_keypack_save_eval_key'', Lit '': status='', Dec 1]), w')" by (rule fullDisk_run)
  from failed_generation_leaves_no_slot[OF r sampleOpts_valid this] this show ?thesis by simp
qed

text \<open>
  C16. What success means on disk: both tier directories hold \<open>EncKey.json\<close>,
  \<open>SecKey.json\<close> and the raw \<open>EvalKey.bin\<close>, and the raw \<open>EncKey.bin\<close> is gone.
\<close>

theorem generation_leaves_documented_layout:
  assumes "GenerateKeys E opts w = (Inr (), w')"
  shows "generatedIn (nodes w') (rmpDirOf (buildKeysOptions opts)) \<and>
    generatedIn (nodes w') (mmDirOf (buildKeysOptions opts))"
  using assms by (rule GenerateKeys_leaves)

lemma sample_generates:
  obtains w' where "GenerateKeys calmEnv sampleOpts emptyWorld = (Inr (), w')"
  using GenerateKeys_succeeds[OF calm_calmEnv sampleOpts_valid emptyWorld_vacant emptyWorld_vacant]
  by (metis prod.collapse)

theorem generation_leaves_documented_layout_witness:
  "generatedIn (nodes (snd (GenerateKeys calmEnv sampleOpts emptyWorld))) (True, [''k'', ''rmp''])"
  by (rule sample_generates)
    (use generation_leaves_documented_layout[of calmEnv sampleOpts emptyWorld] in \<open>simp add: sampleOpts_dirs\<close>)

text \<open>
  C17. Generation does succeed: if the file system and the library report no failure, the
  options are valid, no file stands in the way of the two directories and both are absent
  or empty, \<open>GenerateKeys\<close> returns without error.
\<close>

theorem generation_succeeds:
  assumes "calm E" and "validate (buildKeysOptions opts) = Inr ()"
    and "vacant (rmpDirOf (buildKeysOptions opts)) (nodes w)"
    and "vacant (mmDirOf (buildKeysOptions opts)) (nodes w)"
  shows "fst (GenerateKeys E opts w) = Inr ()"
  using assms by (rule GenerateKeys_succeeds)

theorem generation_succeeds_witness: "fst (GenerateKeys calmEnv sampleOpts emptyWorld) = Inr ()"
  by (rule generation_succeeds[OF calm_calmEnv sampleOpts_valid emptyWorld_vacant emptyWorld_vacant])

text \<open>Existence checks that fail see nothing.\<close>

lemma blind_slot:
  assumes "os_fault E (tick w) \<noteq> None" "os_fault E (Suc (tick w)) \<noteq> None"
  shows "slotPresent E dir s w = (Inr False, w\<lparr>tick := tick w + 2\<rparr>)"
  using assms
  by (auto simp: slotPresent_def resolveKeySlot_def osStat_def syscall_def Let_def andThen_def attempt_def run_simps)

lemma blind_slots:
  assumes "\<forall>k<2 * length ss. os_fault E (tick w + k) \<noteq> None"
  shows "anySlot E dir ss w = (Inr False, w\<lparr>tick := tick w + 2 * length ss\<rparr>)"
  using assms
proof (induction ss arbitrary: w)
  case (Cons s ss)
  have "os_fault E (tick w) \<noteq> None" "os_fault E (Suc (tick w)) \<noteq> None"
    using Cons.prems[rule_format, of 0] Cons.prems[rule_format, of 1] by simp_all
  moreover have "os_fault E (tick w + 2 + k) \<noteq> None" if "k < 2 * length ss" for k
    using Cons.prems[rule_format, of "2 + k"] that by (simp add: add.assoc)
  ultimately show ?case
    using Cons.IH[of "w\<lparr>tick := tick w + 2\<rparr>"] by (simp add: andThen_def blind_slot)
qed (simp add: run_simps)

lemma blind_check:
  "\<forall>k<6. os_fault E (tick w + k) \<noteq> None \<Longrightarrow> anySlotExists E dir w = (Inr False, w\<lparr>tick := tick w + 6\<rparr>)"
  unfolding anySlotExists_def by (subst blind_slots) simp_all

text \<open>
  C18. The existence check takes any failure of \<open>Stat\<close> for absence. If the checks fail
  transiently while key files are on disk and the file system works again afterwards, the directory
  check of \<open>Generate\<close> refuses to overwrite them and \<open>GenerateKeys\<close> returns an error, but its
  rollback, which the source describes as never touching a pre-existing key set, then deletes them:
  after the call no key file of any slot is left in either directory, whatever was there before and
  whatever the library does. The options are valid, and no directory has the name of a key file.
\<close>

theorem transient_stat_failure_destroys_keys:
  assumes "validate (buildKeysOptions opts) = Inr ()"
    and "\<forall>k<12. os_fault E (tick w + k) \<noteq> None" and "\<forall>k\<ge>tick w + 12. os_fault E k = None"
    and "anySlotIn (nodes w) (rmpDirOf (buildKeysOptions opts)) \<or> anySlotIn (nodes w) (mmDirOf (buildKeysOptions opts))"
    and "\<forall>p\<in>bothSlots (buildKeysOptions opts). nodeAt (nodes w) p \<noteq> Some Dir"
  shows "isl (fst (GenerateKeys E opts w)) \<and>
    (\<forall>p\<in>bothSlots (buildKeysOptions opts). nodeAt (nodes (snd (GenerateKeys E opts w))) p = None)"
proof -
  let ?o = "buildKeysOptions opts" and ?w = "w\<lparr>tick := tick w + 12\<rparr>"
  let ?m = "andThen (generateBundle E ?o (flatBundleKind (FlatMode ?o)) True) (\<lambda>_. generateBundle E ?o mmKind True)"
  have "anySlotExists E d w = (Inr False, w\<lparr>tick := tick w + 6\<rparr>)" for d
    using assms(2) by (intro blind_check) simp
  moreover have "anySlotExists E d (w\<lparr>tick := tick w + 6\<rparr>) = (Inr False, ?w)" for d
    using assms(2) blind_check[of E "w\<lparr>tick := tick w + 6\<rparr>"] by (simp add: add.assoc)
  ultimately have run: "GenerateKeys E opts w = generateBoth E ?o ?w"
    by (simp add: GenerateKeys_unfold Let_def assms(1) andThen_def run_simps)
  obtain e w1 where m: "?m ?w = (Inl e, w1)" and r: "generateBoth E ?o ?w = (Inl e, rollback E (rmpDirOf ?o) (mmDirOf ?o) w1)"
  proof (cases "?m ?w")
    case (Pair r w1)
    then show thesis using occupied_never_generated[of ?w ?o E "()" w1] assms(4) that
      by (cases r) (simp_all add: generateBoth_def onFailure_def)
  qed
  have "keeps (noNewDirs (bothSlots ?o)) ?m"
    by (intro nodirs.keeps_rules nodirs_generateBundle) simp_all
  from keepsD[OF this m] have "noNewDirs (bothSlots ?o) ?w w1" .
  moreover have "keeps later ?m" by (intro later.keeps_rules later_generateBundle)
  from keepsD[OF this m] have "later ?w w1" .
  ultimately have "\<forall>p\<in>bothSlots ?o. nodeAt (nodes w1) p \<noteq> Some Dir" "quietFrom E (tick w1)"
    using assms(3,5) by (auto simp: noNewDirs_def later_def quietFrom_def)
  then show ?thesis using rollback_clears[of E w1 "rmpDirOf ?o" "mmDirOf ?o"]
    unfolding run r by (auto simp: bothSlots_def anySlotIn_paths)
qed

text \<open>The flat tier holds a secret key, and the twelve existence checks fail.\<close>

definition riskWorld :: keys_world where
  "riskWorld = emptyWorld\<lparr>nodes := [((True, [''k'']), Dir), ((True, [''k'', ''rmp'']), Dir),
     ((True, [''k'', ''rmp'', ''SecKey.json'']), File [7])]\<rparr>"

definition flakyEnv :: cgo_env where
  "flakyEnv = calmEnv\<lparr>os_fault := (\<lambda>k. if k < 12 then Some ''input/output error'' else None)\<rparr>"

lemma transient_stat_failure_destroys_keys_witness:
  "nodeAt (nodes riskWorld) (True, [''k'', ''rmp'', ''SecKey.json'']) = Some (File [7]) \<and>
   isl (fst (GenerateKeys flakyEnv sampleOpts riskWorld)) \<and>
   nodeAt (nodes (snd (GenerateKeys flakyEnv sampleOpts riskWorld))) (True, [''k'', ''rmp'', ''SecKey.json'']) = None"
proof -
  let ?o = "buildKeysOptions sampleOpts" and ?p = "(True, [''k'', ''rmp'', ''SecKey.json''])"
  have there: "nodeAt (nodes riskWorld) ?p = Some (File [7])" by (simp add: riskWorld_def nodeAt_def)
  have slots: "rmpDirOf ?o = (True, [''k'', ''rmp''])" "mmDirOf ?o = (True, [''k'', ''mm''])"
    by (simp_all add: sampleOpts_dirs)
  have p: "?p \<in> bothSlots ?o"
    unfolding bothSlots_def slotPaths_def slots keyFileNames_def by (simp add: key_file_defs)
  then have "anySlotIn (nodes riskWorld) (rmpDirOf ?o) \<or> anySlotIn (nodes riskWorld) (mmDirOf ?o)"
    using there unfolding bothSlots_def anySlotIn_paths by force
  moreover have "\<forall>p\<in>bothSlots ?o. nodeAt (nodes riskWorld) p \<noteq> Some Dir"
    unfolding bothSlots_def slotPaths_def slots keyFileNames_def
    by (simp add: key_file_defs riskWorld_def nodeAt_def)
  ultimately show ?thesis
    using transient_stat_failure_destroys_keys[OF sampleOpts_valid, of flakyEnv riskWorld] there p
    by (simp add: flakyEnv_def riskWorld_def emptyWorld_def)
qed

end
