(* ===== verification/Key_Lifecycle.thy ===== *)
theory Key_Lifecycle
  imports Key_Generation
begin

text \<open>
  Opening, using and closing a key set: every C object is destroyed exactly once, nothing
  staged on disk survives, and a closed set refuses every operation.
\<close>

section \<open>Exchange rules\<close>

lemma holding_free_set:
  "holding live w \<Longrightarrow> set_option h \<subseteq> live \<Longrightarrow> holding (live - set_option h) (closeHandle h w)"
  by (cases h) (simp_all add: closeHandle_def holding_free)

lemma trade_exchange:
  fixes m :: "(err, 'w cgo_world_scheme, 'a) io"
  assumes "trade H {} {} m own" and "H \<subseteq> C"
  shows "trade {} C {} m (\<lambda>x. C \<union> own x)"
proof (rule tradeI)
  fix w :: "'w cgo_world_scheme" and live x w'
  assume h: "holding live w" "{} \<union> C \<union> {} \<subseteq> live"
  then have pre: "H \<union> {} \<union> {} \<subseteq> live" "H \<inter> ({} \<union> {}) = {}" using assms(2) by auto
  {
    assume r: "m w = (Inr x, w')"
    have "live - C \<union> (C \<union> own x) = live - {} \<union> own x" using h(2) by auto
    with tradeD(1,2)[OF assms(1) h(1) pre r]
    show "holding (live - C \<union> (C \<union> own x)) w' \<and> (C \<union> own x) \<inter> (live - C) = {}" by auto
  next
    fix e
    assume "m w = (Inl e, w')"
    from tradeD(3)[OF assms(1) h(1) pre this] show "holding (live - {}) w'" .
  }
qed

lemma trade_onFailure:
  fixes m :: "(err, 'w cgo_world_scheme, 'a) io"
  assumes m: "trade {} C {} m own"
    and c: "\<And>w :: 'w cgo_world_scheme. \<And>live. holding live w \<Longrightarrow> C \<subseteq> live \<Longrightarrow> holding (live - C) (c w)"
  shows "trade {} C C (onFailure c m) own"
proof (rule tradeI)
  fix w :: "'w cgo_world_scheme" and live x w'
  assume h: "holding live w" "{} \<union> C \<union> C \<subseteq> live"
  then have pre: "{} \<union> C \<union> {} \<subseteq> live" "{} \<inter> (C \<union> {}) = {}" by auto
  {
    assume "onFailure c m w = (Inr x, w')"
    then have "m w = (Inr x, w')" by (auto simp: onFailure_def split: prod.splits sum.splits)
    with tradeD(1,2)[OF m h(1) pre] show "holding (live - C \<union> own x) w' \<and> own x \<inter> (live - C) = {}" by blast
  next
    fix e
    assume "onFailure c m w = (Inl e, w')"
    then obtain w1 where "m w = (Inl e, w1)" and w': "w' = c w1"
      by (auto simp: onFailure_def split: prod.splits sum.splits)
    with tradeD(3)[OF m h(1) pre] have "holding live w1" by simp
    with c h(2) show "holding (live - C) w'" unfolding w' by simp
  }
qed

definition returns :: "(err, 's, 'a) io \<Rightarrow> ('a \<Rightarrow> bool) \<Rightarrow> bool" where
  "returns m R \<longleftrightarrow> (\<forall>s x s'. m s = (Inr x, s') \<longrightarrow> R x)"

lemma trade_seq:
  fixes m :: "(err, 'w cgo_world_scheme, 'b) io"
  assumes m: "trade {} C C m own1" and r: "returns m R"
    and kR: "\<And>x. R x \<Longrightarrow> trade {} (own1 x) (own1 x) (k x) own"
  shows "trade {} C C (andThen m k) own"
proof (rule tradeI)
  fix w :: "'w cgo_world_scheme" and live x w'
  assume h: "holding live w" "{} \<union> C \<union> C \<subseteq> live"
  have sub: "live - C \<union> own1 y - own1 y = live - C" if "own1 y \<inter> (live - C) = {}" for y
    using that by auto
  {
    assume "andThen m k w = (Inr x, w')"
    then obtain y w1 where s: "m w = (Inr y, w1)" "k y w1 = (Inr x, w')" by (rule andThen_InrE)
    have k: "trade {} (own1 y) (own1 y) (k y) own" by (rule kR) (use r s(1) in \<open>unfold returns_def, blast\<close>)
    note n = tradeD(1,2)[OF m h _ s(1), simplified]
    from tradeD(1,2)[OF k n(1) _ _ s(2)] sub[OF n(2)]
    show "holding (live - C \<union> own x) w' \<and> own x \<inter> (live - C) = {}" by auto
  next
    fix e
    assume "andThen m k w = (Inl e, w')"
    then show "holding (live - C) w'"
    proof (cases rule: andThen_cases)
      case (first e')
      with tradeD(3)[OF m h] show ?thesis by auto
    next
      case (second y w1)
      have k: "trade {} (own1 y) (own1 y) (k y) own" by (rule kR) (use r second(1) in \<open>unfold returns_def, blast\<close>)
      note n = tradeD(1,2)[OF m h _ second(1), simplified]
      from tradeD(3)[OF k n(1) _ _ second(2)] sub[OF n(2)] show ?thesis by auto
    qed
  }
qed

lemma trade_relabel:
  fixes m :: "(err, 'w cgo_world_scheme, 'a) io" and n :: "(err, 'w cgo_world_scheme, 'b) io"
  assumes m: "trade H Cs Cf m own"
    and ok: "\<And>w y w'. n w = (Inr y, w') \<Longrightarrow> \<exists>x w1. m w = (Inr x, w1) \<and> own' y = own x \<and>
      (\<forall>live. holding live w1 \<longrightarrow> holding live w')"
    and bad: "\<And>w e w'. n w = (Inl e, w') \<Longrightarrow> \<exists>e' w1. m w = (Inl e', w1) \<and>
      (\<forall>live. holding live w1 \<longrightarrow> holding live w')"
  shows "trade H Cs Cf n own'"
proof (rule tradeI)
  fix w :: "'w cgo_world_scheme" and live y w'
  assume h: "holding live w" "H \<union> Cs \<union> Cf \<subseteq> live" "H \<inter> (Cs \<union> Cf) = {}"
  {
    assume "n w = (Inr y, w')"
    from ok[OF this] obtain x w1 where "m w = (Inr x, w1)" and o: "own' y = own x"
      and l: "\<forall>live. holding live w1 \<longrightarrow> holding live w'" by blast
    with tradeD(1,2)[OF m h] show "holding (live - Cs \<union> own' y) w' \<and> own' y \<inter> (live - Cs) = {}"
      unfolding o by blast
  next
    fix e
    assume "n w = (Inl e, w')"
    from bad[OF this] obtain e' w1 where "m w = (Inl e', w1)"
      and l: "\<forall>live. holding live w1 \<longrightarrow> holding live w'" by blast
    with tradeD(3)[OF m h] show "holding (live - Cf) w'" by blast
  }
qed

lemma trade_mapErr: "trade H Cs Cf m own \<Longrightarrow> trade H Cs Cf (mapErr g m) own"
  by (erule trade_relabel) (auto simp: mapErr_def split: prod.splits sum.splits)

lemma trade_map:
  "trade H Cs Cf m own \<Longrightarrow> (\<And>x. own' (f x) = own x) \<Longrightarrow>
    trade H Cs Cf (andThen m (\<lambda>x. ret (f x))) own'"
  by (erule trade_relabel) (auto simp: andThen_def run_simps split: prod.splits sum.splits)

lemma trade_deferring:
  fixes m :: "(err, 'w cgo_world_scheme, 'a) io"
  assumes "trade H Cs Cf m own" and "\<And>w :: 'w cgo_world_scheme. \<And>live. holding live w \<Longrightarrow> holding live (c w)"
  shows "trade H Cs Cf (deferring c m) own"
  using assms(1) by (rule trade_relabel) (use assms(2) in \<open>auto simp: deferring_def split: prod.splits\<close>)

section \<open>What a result looks like\<close>

lemma returns_any: "returns m (\<lambda>x. True)"
  by (simp add: returns_def)

lemma returns_andThen:
  "returns m R \<Longrightarrow> (\<And>x. R x \<Longrightarrow> returns (k x) Q) \<Longrightarrow> returns (andThen m k) Q"
  unfolding returns_def by (blast elim: andThen_InrE)

lemma returns_pure: "R x \<Longrightarrow> returns (ret x) R" "returns (throw e) R"
  by (simp_all add: returns_def run_simps)

lemma returns_deferring: "returns m R \<Longrightarrow> returns (deferring c m) R"
  by (auto simp: returns_def deferring_def split: prod.splits)

lemma returns_onFailure: "returns m R \<Longrightarrow> returns (onFailure c m) R"
  by (auto simp: returns_def onFailure_def split: prod.splits sum.splits)

lemma returns_mapErr: "returns m R \<Longrightarrow> returns (mapErr g m) R"
  by (auto simp: returns_def dest: mapErr_InrE)

lemma returns_acquire: "returns (c_acquire E kind op hs ns vs failed) (\<lambda>h. hkindOf h = kind)"
  by (auto simp: returns_def c_acquire_def c_invoke_def andThen_def split: option.splits)

lemma returns_create: "returns (c_create E kind op hs ns vs) (\<lambda>h. hkindOf h = kind)"
  unfolding c_create_def by (rule returns_acquire)

lemmas returns_rules = returns_pure returns_deferring returns_onFailure returns_mapErr

definition optKind :: "hkind \<Rightarrow> handle option \<Rightarrow> bool" where
  "optKind k h \<longleftrightarrow> (\<forall>x. h = Some x \<longrightarrow> hkindOf x = k)"

definition encKinds :: "cgoEncryptor \<Rightarrow> bool" where
  "encKinds e \<longleftrightarrow> optKind HEncryptor (enc_h e) \<and> optKind HKeyPack (pack_h e)"

definition decKinds :: "cgoDecryptor \<Rightarrow> bool" where
  "decKinds d \<longleftrightarrow> optKind HDecryptor (dec_h d) \<and> optKind HSecKey (sk_h d)"

definition ctxKind :: "cgoContext \<Rightarrow> bool" where
  "ctxKind c \<longleftrightarrow> optKind HContext (ctx_c c)"

lemma returns_NewContext: "returns (NewCKKSContext E p) ctxKind"
  unfolding NewCKKSContext_def
  by (cases "cp_dims p = []")
    (auto intro!: returns_rules returns_andThen[OF returns_any] returns_andThen[OF returns_create]
      simp: ctxKind_def optKind_def)

lemma returns_NewEncryptor: "returns (NewEncryptor E c dir) encKinds"
proof (cases "ctx_c c")
  case (Some ctx)
  have "returns (andThen (c_load E' op hs p) (\<lambda>_. andThen (c_create E' HEncryptor op' hs' ns vs)
      (\<lambda>enc. ret \<lparr>enc_h = Some enc, pack_h = Some pack\<rparr>))) encKinds" if "hkindOf pack = HKeyPack"
    for op hs p op' hs' ns vs pack E'
    by (rule returns_andThen[OF returns_any], rule returns_andThen[OF returns_create], rule returns_pure)
      (simp add: encKinds_def optKind_def that)
  note last = this
  show ?thesis
    unfolding NewEncryptor_def Some option.case scoped_def orDestroy_def
    by (rule returns_andThen[OF returns_any], rule returns_deferring, rule returns_andThen[OF returns_create],
        rule returns_onFailure, erule last)
qed (simp add: NewEncryptor_def returns_pure)

lemma returns_NewDecryptor: "returns (NewDecryptor E c dir) decKinds"
proof (cases "ctx_c c")
  case (Some ctx)
  have "returns (andThen (c_create E' HDecryptor op' hs' ns vs)
      (\<lambda>dec. ret \<lparr>dec_h = Some dec, sk_h = Some sk\<rparr>)) decKinds" if "hkindOf sk = HSecKey"
    for op' hs' ns vs sk E'
    by (rule returns_andThen[OF returns_create], rule returns_pure)
      (simp add: decKinds_def optKind_def that)
  note last = this
  show ?thesis
    unfolding NewDecryptor_def Some option.case scoped_def orDestroy_def
    by (rule returns_andThen[OF returns_any], rule returns_deferring, rule returns_andThen[OF returns_acquire],
        rule returns_onFailure, erule last)
qed (simp add: NewDecryptor_def returns_pure)

section \<open>Closing\<close>

definition optHandles :: "('a \<Rightarrow> handle set) \<Rightarrow> 'a option \<Rightarrow> handle set" where
  "optHandles f x = (case x of None \<Rightarrow> {} | Some y \<Rightarrow> f y)"

definition contextHandles :: "cgoContext \<Rightarrow> handle set" where
  "contextHandles c = set_option (ctx_c c)"

definition bundleHandles :: "keyBundle \<Rightarrow> handle set" where
  "bundleHandles b = optHandles encryptorHandles (kb_enc b) \<union> optHandles decryptorHandles (kb_dec b) \<union>
     optHandles contextHandles (kb_ckks b)"

definition bundleKinds :: "keyBundle \<Rightarrow> bool" where
  "bundleKinds b \<longleftrightarrow> pred_option encKinds (kb_enc b) \<and> pred_option decKinds (kb_dec b) \<and>
     pred_option ctxKind (kb_ckks b)"

lemma holding_ContextClose:
  "holding live w \<Longrightarrow> contextHandles c \<subseteq> live \<Longrightarrow> holding (live - contextHandles c) (snd (ContextClose c w))"
  by (simp add: ContextClose_def contextHandles_def holding_free_set)

lemma holding_two:
  assumes "holding live w" and "set_option a \<union> set_option b \<subseteq> live"
    and "optKind k a" and "optKind k' b" and "k \<noteq> k'"
  shows "holding (live - (set_option a \<union> set_option b)) (closeHandle b (closeHandle a w))"
proof -
  have "set_option a \<inter> set_option b = {}" using assms(3-5) by (auto simp: optKind_def)
  then have "set_option b \<subseteq> live - set_option a" using assms(2) by auto
  from holding_free_set[OF holding_free_set[OF assms(1)] this] assms(2) show ?thesis
    by (simp add: Diff_eq Int_assoc)
qed

lemma holding_bundleClose:
  assumes "holding live w" and "bundleHandles b \<subseteq> live" and "bundleKinds b"
  shows "holding (live - bundleHandles b) (snd (bundleClose b w))"
proof -
  let ?e = "optHandles encryptorHandles (kb_enc b)" and ?d = "optHandles decryptorHandles (kb_dec b)"
    and ?c = "optHandles contextHandles (kb_ckks b)"
  have kinds: "\<forall>h \<in> ?e. hkindOf h \<in> {HEncryptor, HKeyPack}" "\<forall>h \<in> ?d. hkindOf h \<in> {HDecryptor, HSecKey}"
    "\<forall>h \<in> ?c. hkindOf h = HContext"
    using assms(3)
    by (auto simp: bundleKinds_def optHandles_def encryptorHandles_def decryptorHandles_def contextHandles_def
        encKinds_def decKinds_def ctxKind_def optKind_def split: option.splits)
  then have disj: "?e \<inter> ?d = {}" "?e \<inter> ?c = {}" "?d \<inter> ?c = {}" by fastforce+
  define w1 where "w1 = (case kb_enc b of None \<Rightarrow> w | Some e \<Rightarrow> snd (EncryptorClose e w))"
  define w2 where "w2 = (case kb_dec b of None \<Rightarrow> w1 | Some d \<Rightarrow> snd (DecryptorClose d w1))"
  have 1: "holding (live - ?e) w1"
    using assms unfolding w1_def
    by (cases "kb_enc b") (auto simp: optHandles_def EncryptorClose_def encryptorHandles_def bundleKinds_def
        encKinds_def bundleHandles_def intro!: holding_two[of _ _ _ _ HEncryptor HKeyPack])
  have 2: "holding (live - ?e - ?d) w2"
    using assms 1 disj(1) unfolding w2_def
    by (cases "kb_dec b") (auto simp: optHandles_def DecryptorClose_def decryptorHandles_def bundleKinds_def
        decKinds_def bundleHandles_def intro!: holding_two[of _ _ _ _ HDecryptor HSecKey])
  have "?c \<subseteq> live - ?e - ?d" using assms(2) disj by (auto simp: bundleHandles_def)
  then have "holding (live - ?e - ?d - ?c) (case kb_ckks b of None \<Rightarrow> w2 | Some c \<Rightarrow> snd (ContextClose c w2))"
    using 2 by (cases "kb_ckks b") (auto simp: optHandles_def intro: holding_ContextClose)
  moreover have "live - ?e - ?d - ?c = live - bundleHandles b" by (auto simp: bundleHandles_def)
  moreover have "snd (bundleClose b w) = (case kb_ckks b of None \<Rightarrow> w2 | Some c \<Rightarrow> snd (ContextClose c w2))"
    by (simp only: bundleClose_def Let_def w1_def w2_def snd_conv)
  ultimately show ?thesis by simp
qed

section \<open>Opening\<close>

lemma balanced_ignoring: "balanced {} m \<Longrightarrow> holding live w \<Longrightarrow> holding live (ignoring m w)"
  using balanced_keeps[of "{}" m live w] by (simp add: ignoring_def)

lemma balanced_resolve: "balanced {} (resolveKeySlot E dir b j)"
  unfolding resolveKeySlot_def
  by (intro trade_step) (auto intro!: balanced_os balanced_attempt trade_step balanced_pure split: sum.split)

lemma balanced_copyFile: "balanced {} (copyFile E a b)"
  unfolding copyFile_def
  by (intro trade_step trade_deferring)
    (auto intro!: frame_intros trade_step balanced_ignoring[unfolded ignoring_def] split: sum.split)

lemma balanced_unwrap: "balanced {} (UnwrapEncKey E a b)" "balanced {} (UnwrapSecKey E a b)"
  "balanced {} (UnwrapEvalKey E a b)"
  unfolding UnwrapEncKey_def UnwrapSecKey_def UnwrapEvalKey_def unwrapKey_def
  by (intro trade_scoped frame_intros)+

lemma balanced_materialise:
  assumes "\<And>a b. balanced {} (unwrap a b)"
  shows "balanced {} (materialise E dir stage bn jn unwrap)"
  unfolding materialise_def
proof (rule trade_step)
  show "balanced ({} \<union> {}) (resolveKeySlot E dir bn jn)" by (simp add: balanced_resolve)
  show "balanced {} (case slot of None \<Rightarrow> throw (Sentinel ErrKeysNotFound)
     | Some (src, isJSON) \<Rightarrow>
         if isJSON then mapErr (wrapf (''runespace: unwrap '' @ jn)) (unwrap src (joinPath stage bn))
         else mapErr (wrapf (''runespace: stage '' @ bn)) (copyFile E src (joinPath stage bn)))" for slot
    by (cases slot; cases "the slot"; cases "snd (the slot)")
      (simp_all add: balanced_pure balanced_mapErr assms balanced_copyFile)
qed

lemma returns_openKeyBundle: "returns (openKeyBundle E opts kind) bundleKinds"
proof -
  obtain a b c where p: "resolveKeyParts (Parts opts) = (a, b, c)" by (cases "resolveKeyParts (Parts opts)")
  have e: "returns (if a then onFailure g (mapErr f (andThen (NewEncryptor E ck st) (\<lambda>e. ret (Some e)))) else ret None)
      (pred_option encKinds)" for f g ck st
    by (auto intro!: returns_rules returns_andThen[OF returns_NewEncryptor])
  show ?thesis
    unfolding openKeyBundle_def p Let_def prod.case
    by (rule returns_andThen[OF returns_any], rule returns_deferring, rule returns_andThen[OF returns_any],
        rule returns_andThen[OF returns_any], rule returns_andThen[OF returns_mapErr[OF returns_NewContext]],
        rule returns_andThen[OF e])
      (auto simp: bundleKinds_def intro!: returns_rules returns_andThen[OF returns_NewDecryptor])
qed

lemma trade_openKeyBundle: "trade {} {} {} (openKeyBundle E opts kind) bundleHandles"
proof -
  obtain a b c where p: "resolveKeyParts (Parts opts) = (a, b, c)" by (cases "resolveKeyParts (Parts opts)")
  let ?own = "\<lambda>ck enc. contextHandles ck \<union> optHandles encryptorHandles enc"
  have enc: "trade {} (contextHandles ck) (contextHandles ck)
      (if a then onFailure (\<lambda>w. snd (ContextClose ck w)) (mapErr f
          (andThen (NewEncryptor E ck st) (\<lambda>e. ret (Some e)))) else ret None)
      (\<lambda>enc. ?own ck enc)" for f ck st
  proof (cases a)
    case True
    have "trade {} (contextHandles ck) {} (NewEncryptor E ck st) (\<lambda>e. contextHandles ck \<union> encryptorHandles e)"
      by (rule trade_exchange[OF trade_NewEncryptor]) (simp add: contextHandles_def)
    then have "trade {} (contextHandles ck) {} (mapErr f (andThen (NewEncryptor E ck st) (\<lambda>e. ret (Some e))))
        (\<lambda>enc. ?own ck enc)"
      by (intro trade_mapErr trade_map[where own = "\<lambda>e. contextHandles ck \<union> encryptorHandles e"])
        (simp_all add: optHandles_def)
    then show ?thesis unfolding if_P[OF True] by (rule trade_onFailure) (rule holding_ContextClose)
  qed (simp add: trade_ret optHandles_def)
  have dec: "trade {} (bundleHandles k) (bundleHandles k)
      (if c then onFailure (\<lambda>w. snd (bundleClose k w)) (mapErr f
          (andThen (NewDecryptor E ck st) (\<lambda>d. ret (k\<lparr>kb_dec := Some d\<rparr>)))) else ret k) bundleHandles"
    if k: "bundleKinds k" "kb_dec k = None" "kb_ckks k = Some ck" for k f ck st
  proof (cases c)
    case True
    have "trade {} (bundleHandles k) {} (NewDecryptor E ck st) (\<lambda>d. bundleHandles k \<union> decryptorHandles d)"
      by (rule trade_exchange[OF trade_NewDecryptor])
        (auto simp: bundleHandles_def k optHandles_def contextHandles_def)
    then have "trade {} (bundleHandles k) {} (mapErr f (andThen (NewDecryptor E ck st) (\<lambda>d. ret (k\<lparr>kb_dec := Some d\<rparr>))))
        bundleHandles"
      by (intro trade_mapErr trade_map[where own = "\<lambda>d. bundleHandles k \<union> decryptorHandles d"])
        (auto simp: optHandles_def bundleHandles_def k)
    then show ?thesis unfolding if_P[OF True] by (rule trade_onFailure) (rule holding_bundleClose[OF _ _ k(1)])
  qed (simp add: trade_ret)
  have encK: "returns (if a then onFailure g (mapErr f (andThen (NewEncryptor E ck st) (\<lambda>e. ret (Some e)))) else ret None)
      (pred_option encKinds)" for f g ck st
    by (auto intro!: returns_rules returns_andThen[OF returns_NewEncryptor])
  have own: "?own ck enc = bundleHandles \<lparr>kb_kind = kd, kb_dir = d, kb_ckks = Some ck, kb_enc = enc, kb_dec = None\<rparr>"
    for ck enc kd d
    by (auto simp: bundleHandles_def optHandles_def)
  show ?thesis
    unfolding openKeyBundle_def p Let_def prod.case
    apply (rule trade_step, rule balanced_mapErr, rule frame_intros, rule trade_deferring)
     apply (rule trade_step, simp add: balanced_materialise balanced_unwrap balanced_pure)
     apply (rule trade_step, simp add: balanced_materialise balanced_unwrap balanced_pure)
     apply (rule trade_seq[OF trade_mapErr[OF trade_NewContext, folded contextHandles_def] returns_mapErr[OF returns_NewContext]])
     apply (rule trade_seq[OF enc encK])
     apply (subst own, subst own, rule dec)
       apply (simp_all add: bundleKinds_def)
    apply (rule balanced_ignoring, rule frame_intros, assumption)
    done
qed

section \<open>Key sets\<close>

text \<open>The part of the world that the C calls and the file system do not reach.\<close>

definition sameRest :: "'w cgo_world_scheme \<Rightarrow> 'w cgo_world_scheme \<Rightarrow> bool" where
  "sameRest w w' \<longleftrightarrow> cgo_world.more w' = cgo_world.more w"

interpretation rest: step_relation sameRest
  by unfold_locales (simp_all add: sameRest_def)

lemma sameRest_os:
  "os_world.more w' = os_world.more w \<Longrightarrow> sameRest w w'"
  by (cases w; cases w') (simp add: sameRest_def)

lemma keeps_rest_os:
  "keeps sameRest (osStat E p)" "keeps sameRest (osRemove E p)" "keeps sameRest (osMkdirAll E p)"
  "keeps sameRest (osReadDir E p)" "keeps sameRest (osOpen E p)" "keeps sameRest (osCreate E p)"
  "keeps sameRest (osCopy E n p)" "keeps sameRest (osClose E)" "keeps sameRest (osMkdirTemp E)"
  "keeps sameRest (osCreateTemp E)" "keeps sameRest (osRemoveAll E p)" "keeps sameRest (statOpen E n)"
  unfolding osStat_def osRemove_def osMkdirAll_def osReadDir_def osOpen_def osCreate_def osCopy_def osClose_def
    osMkdirTemp_def osCreateTemp_def osRemoveAll_def statOpen_def
  by (auto intro!: keepsI simp: syscall_def Let_def sameRest_def split: option.split node.split)

lemma keeps_rest_cgo:
  "keeps sameRest (c_invoke E op hs ns vs)" "keeps sameRest (c_acquire E kind op hs ns vs failed)"
  "keeps sameRest (c_create E kind op hs ns vs)" "keeps sameRest (c_malloc E)" "keeps sameRest (c_string E)"
  "keeps sameRest (c_step E op hs ns)" "keeps sameRest (c_load E op hs p)"
  unfolding c_create_def c_malloc_def c_string_def
  by (auto intro!: keepsI split: option.splits
      simp: sameRest_def c_acquire_def c_step_def c_load_def c_invoke_def c_created_def andThen_def run_simps)

lemma keeps_rest_convert: "keeps sameRest (km_convert E op b conv src dst)"
  unfolding km_convert_def
  by (rule rest.keeps_andThen, rule keeps_rest_cgo)
    (auto intro!: keepsI simp: Let_def sameRest_def split: option.split)

lemma rest_free: "sameRest w (c_free h w)" "sameRest w (closeHandle ho w)"
  by (simp_all add: sameRest_def c_free_def closeHandle_def split: option.split)

lemma rest_scoped:
  "keeps sameRest m \<Longrightarrow> (\<And>h. keeps sameRest (k h)) \<Longrightarrow> keeps sameRest (scoped m k)"
  unfolding scoped_def by (intro rest.keeps_rules rest_free)

lemma rest_parts:
  "sameRest w (snd (ContextClose c w))" "sameRest w (snd (EncryptorClose e w))"
  "sameRest w (snd (DecryptorClose d w))"
  by (simp_all add: ContextClose_def EncryptorClose_def DecryptorClose_def rest_free
      rest.R_trans[OF rest_free(2) rest_free(2)])

lemma rest_bundleClose: "sameRest w (snd (bundleClose b w))"
  by (simp add: bundleClose_def Let_def sameRest_def rest_parts[unfolded sameRest_def] split: option.split)

lemmas rest_closers = rest_parts rest_bundleClose

lemma rest_resolve: "keeps sameRest (resolveKeySlot E dir b j)"
  unfolding resolveKeySlot_def by (intro rest.keeps_rules keeps_rest_os)

lemma rest_copyFile: "keeps sameRest (copyFile E a b)"
  unfolding copyFile_def
  by (intro rest.keeps_rules keeps_rest_os rest.ignoring_related[unfolded ignoring_def])

lemma rest_unwrap: "keeps sameRest (UnwrapEncKey E a b)" "keeps sameRest (UnwrapSecKey E a b)"
  "keeps sameRest (UnwrapEvalKey E a b)"
  unfolding UnwrapEncKey_def UnwrapSecKey_def UnwrapEvalKey_def unwrapKey_def
  by (intro rest_scoped keeps_rest_cgo keeps_rest_convert)+

lemma rest_materialise:
  assumes "\<And>a b. keeps sameRest (unwrap a b)"
  shows "keeps sameRest (materialise E dir stage bn jn unwrap)"
  unfolding materialise_def
  by (intro rest.keeps_rules rest_resolve) (auto intro!: rest.keeps_rules assms rest_copyFile split: prod.split)

lemma rest_constructors:
  "keeps sameRest (NewCKKSContext E p)" "keeps sameRest (NewEncryptor E c dir)" "keeps sameRest (NewDecryptor E c dir)"
  unfolding NewCKKSContext_def NewEncryptor_def NewDecryptor_def orDestroy_def
  by (intro rest.keeps_rules rest_scoped keeps_rest_cgo rest_free)+

lemma rest_openKeyBundle: "keeps sameRest (openKeyBundle E opts kind)"
proof -
  obtain a b c where p: "resolveKeyParts (Parts opts) = (a, b, c)" by (cases "resolveKeyParts (Parts opts)")
  show ?thesis
    unfolding openKeyBundle_def p Let_def prod.case
    by (intro rest.keeps_rules rest.ignoring_related keeps_rest_os rest_materialise rest_unwrap rest_constructors
        rest_closers)
qed

definition keysHandles :: "Keys \<Rightarrow> handle set" where
  "keysHandles k = optHandles bundleHandles (k_rmp k) \<union> optHandles bundleHandles (k_mm k)"

text \<open>An open key set: its bundles are distinct objects of the right kinds, all live.\<close>

definition ownsKeys :: "handle set \<Rightarrow> Keys \<Rightarrow> bool" where
  "ownsKeys live k \<longleftrightarrow> keysHandles k \<subseteq> live \<and>
     optHandles bundleHandles (k_rmp k) \<inter> optHandles bundleHandles (k_mm k) = {} \<and>
     pred_option bundleKinds (k_rmp k) \<and> pred_option bundleKinds (k_mm k)"

lemma holding_closeOpt:
  "holding live w \<Longrightarrow> optHandles bundleHandles b \<subseteq> live \<Longrightarrow> pred_option bundleKinds b \<Longrightarrow>
    holding (live - optHandles bundleHandles b) (snd (closeOpt b w))"
  using holding_bundleClose[of live w "the b"]
  by (cases b) (auto simp: closeOpt_def optHandles_def split: prod.split)

lemma holding_objs [simp]: "holding live (w\<lparr>k_objs := ks\<rparr>) = holding live w"
  by (simp add: holding_def)

lemma rest_objs: "sameRest w w' \<Longrightarrow> k_objs w' = k_objs w"
  by (cases w; cases w') (simp add: sameRest_def)

lemma OpenKeys_cases:
  assumes "OpenKeys E opts w = (r, w')" and "holding live w"
  obtains (failed) e where "r = Inl e" and "holding live w'" and "k_objs w' = k_objs w"
  | (opened) k where "r = Inr (length (k_objs w))" and "k_objs w' = k_objs w @ [k]"
      and "holding (live \<union> keysHandles k) w'" and "keysHandles k \<inter> live = {}"
      and "ownsKeys (live \<union> keysHandles k) k" and "k_id k = KeyID (buildKeysOptions opts)"
      and "k_dim k = Dim (buildKeysOptions opts)"
proof -
  let ?o = "buildKeysOptions opts"
  let ?rmp = "openKeyBundle E ?o (flatBundleKind (FlatMode ?o))"
  note objs = rest_objs
  note mono = trade_openKeyBundle[of E ?o]
  from assms(1) show thesis
    unfolding OpenKeys_def Let_def
  proof (cases rule: andThen_cases)
    case (first e)
    then show thesis using failed assms(2) by (simp add: run_simps)
  next
    case (second u w0)
    then have w0: "w0 = w" by (simp add: run_simps)
    from second(2) show thesis unfolding w0
    proof (cases rule: andThen_cases)
      case (first e)
      then show thesis
        using failed tradeD(3)[OF mono assms(2), of _ e] objs[OF keepsD[OF rest_openKeyBundle first(1)]] by simp
    next
      case (second rmp w1)
      note n1 = tradeD(1,2)[OF mono assms(2) _ _ second(1), simplified]
      have k1: "bundleKinds rmp"
        using returns_openKeyBundle second(1) unfolding returns_def by blast
      have o1: "k_objs w1 = k_objs w" by (rule objs[OF keepsD[OF rest_openKeyBundle second(1)]])
      from second(2) show thesis
      proof (cases rule: andThen_cases)
        case (first e)
        then obtain w2 where m: "openKeyBundle E ?o mmKind w1 = (Inl e, w2)"
          and w': "w' = snd (bundleClose rmp w2)"
          by (auto simp: onFailure_def split: prod.splits sum.splits)
        from tradeD(3)[OF mono n1(1) _ _ m] have "holding (live \<union> bundleHandles rmp) w2" by simp
        from holding_bundleClose[OF this _ k1] n1(2) have "holding live w'"
          unfolding w' by (metis Un_Diff Diff_cancel Diff_triv Int_commute Un_empty_right sup_ge2)
        moreover have "k_objs w' = k_objs w"
          using o1 objs[OF keepsD[OF rest_openKeyBundle m]] objs[OF rest_bundleClose, of rmp w2] unfolding w' by simp
        ultimately show thesis using failed first(2) by blast
      next
        case (second mm w2)
        then have m: "openKeyBundle E ?o mmKind w1 = (Inr mm, w2)"
          by (auto simp: onFailure_def split: prod.splits sum.splits)
        note n2 = tradeD(1,2)[OF mono n1(1) _ _ m, simplified]
        have k2: "bundleKinds mm" using returns_openKeyBundle m unfolding returns_def by blast
        have o2: "k_objs w2 = k_objs w" using o1 objs[OF keepsD[OF rest_openKeyBundle m]] by simp
        let ?k = "\<lparr>k_id = KeyID ?o, k_dim = Dim ?o, k_rmp = Some rmp, k_mm = Some mm\<rparr>"
        have h: "keysHandles ?k = bundleHandles rmp \<union> bundleHandles mm"
          by (simp add: keysHandles_def optHandles_def)
        have "w' = w2\<lparr>k_objs := k_objs w @ [?k]\<rparr>" "r = Inr (length (k_objs w))"
          using second(2) o2 by (simp_all add: newKeys_def)
        moreover have "holding (live \<union> keysHandles ?k) w2" using n2(1) unfolding h by (simp add: Un_assoc)
        moreover have "ownsKeys (live \<union> keysHandles ?k) ?k"
          using n1(2) n2(2) k1 k2 unfolding ownsKeys_def by (auto simp: optHandles_def)
        moreover have "keysHandles ?k \<inter> live = {}" using n1(2) n2(2) unfolding h by auto
        ultimately show thesis by (intro opened[of ?k]) simp_all
      qed
    qed
  qed
qed

lemma bundleClose_idle:
  "kb_enc b = None \<Longrightarrow> kb_dec b = None \<Longrightarrow> kb_ckks b = None \<Longrightarrow> bundleClose b w = (b, w)"
  by (simp add: bundleClose_def)

definition closedBundle :: "keyBundle option \<Rightarrow> bool" where
  "closedBundle b \<longleftrightarrow> pred_option (\<lambda>b. kb_enc b = None \<and> kb_dec b = None \<and> kb_ckks b = None) b"

lemma closeOpt_closed: "closedBundle (fst (closeOpt b w))"
  by (cases b) (simp_all add: closeOpt_def closedBundle_def bundleClose_def Let_def)

lemma closeOpt_idle: "closedBundle b \<Longrightarrow> closeOpt b w = (b, w)"
  by (cases b) (simp_all add: closeOpt_def closedBundle_def bundleClose_idle)

lemma rest_closeOpt: "sameRest w (snd (closeOpt b w))"
  using rest_bundleClose[of w "the b"] rest.R_refl[of w]
  by (cases b) (auto simp: closeOpt_def split: prod.split)

lemma KeysClose_run:
  assumes "i < length (k_objs w)"
  obtains rmp mm w2 where "KeysClose (Some i) w = (Inr (), w2\<lparr>k_objs := (k_objs w)[i := (k_objs w ! i)\<lparr>k_rmp := rmp, k_mm := mm\<rparr>]\<rparr>)"
    and "closedBundle rmp" and "closedBundle mm"
    and "w2 = snd (closeOpt (k_mm (k_objs w ! i)) (snd (closeOpt (k_rmp (k_objs w ! i)) w)))"
proof -
  let ?k = "k_objs w ! i"
  obtain rmp w1 where 1: "closeOpt (k_rmp ?k) w = (rmp, w1)" by fastforce
  obtain mm w2 where 2: "closeOpt (k_mm ?k) w1 = (mm, w2)" by fastforce
  have "k_objs w2 = k_objs w"
    using rest_objs[OF rest_closeOpt, of "k_rmp ?k" w] rest_objs[OF rest_closeOpt, of "k_mm ?k" w1] 1 2 by simp
  moreover have "closedBundle rmp" "closedBundle mm"
    using closeOpt_closed[of "k_rmp ?k" w] closeOpt_closed[of "k_mm ?k" w1] 1 2 by simp_all
  ultimately show thesis
    using assms 1 2 by (intro that[of mm rmp w2]) (simp_all add: KeysClose_def keysAt_def)
qed

lemma KeysClose_idle:
  assumes "keysAt w (Some i) = Some ks" and "closedBundle (k_rmp ks)" and "closedBundle (k_mm ks)"
  shows "KeysClose (Some i) w = (Inr (), w)"
proof -
  have "(k_objs w)[i := ks] = k_objs w" using assms(1) by (auto simp: keysAt_def split: if_splits)
  then show ?thesis by (simp add: KeysClose_def assms closeOpt_idle)
qed

lemma holding_KeysClose:
  assumes "holding live w" and "i < length (k_objs w)" and "ownsKeys live (k_objs w ! i)"
  shows "holding (live - keysHandles (k_objs w ! i)) (snd (KeysClose (Some i) w))"
proof -
  let ?k = "k_objs w ! i"
  let ?a = "optHandles bundleHandles (k_rmp ?k)" and ?b = "optHandles bundleHandles (k_mm ?k)"
  have o: "?a \<subseteq> live" "?b \<subseteq> live - ?a" "pred_option bundleKinds (k_rmp ?k)" "pred_option bundleKinds (k_mm ?k)"
    using assms(3) by (auto simp: ownsKeys_def keysHandles_def)
  obtain rmp mm w2 where r: "KeysClose (Some i) w = (Inr (), w2\<lparr>k_objs := (k_objs w)[i := ?k\<lparr>k_rmp := rmp, k_mm := mm\<rparr>]\<rparr>)"
    and w2: "w2 = snd (closeOpt (k_mm ?k) (snd (closeOpt (k_rmp ?k) w)))"
    using KeysClose_run[OF assms(2)] by metis
  have "holding (live - ?a - ?b) w2"
    unfolding w2 by (intro holding_closeOpt assms(1) o)
  moreover have "live - ?a - ?b = live - keysHandles ?k" by (auto simp: keysHandles_def)
  ultimately show ?thesis unfolding r by simp
qed

definition refusesAll :: "'e cgo_env_scheme \<Rightarrow> keysRef \<Rightarrow> 'w keys_world_scheme \<Rightarrow> bool" where
  "refusesAll E k w \<longleftrightarrow>
     (\<forall>vec. EncryptFlat E k vec w = (Inl (Sentinel ErrKeysNotForEncrypt), w) \<and>
            EncryptClustered E k vec w = (Inl (Sentinel ErrKeysNotForEncrypt), w)) \<and>
     (\<forall>blob. DecryptResult E k blob w = (Inl (Sentinel ErrKeysNotForDecrypt), w) \<and>
             DecryptClustered E k blob w = (Inl (Sentinel ErrKeysNotForDecrypt), w))"

lemma closed_refuses:
  assumes "keysAt w k = Some ks" and "closedBundle (k_rmp ks)" and "closedBundle (k_mm ks)"
  shows "refusesAll E k w"
proof -
  have "Option.bind (k_rmp ks) kb_enc = None" "Option.bind (k_rmp ks) kb_dec = None"
    "Option.bind (k_mm ks) kb_enc = None" "Option.bind (k_mm ks) kb_dec = None"
    using assms(2,3) by (cases "k_rmp ks"; cases "k_mm ks"; simp add: closedBundle_def)+
  then show ?thesis
    by (simp add: refusesAll_def EncryptFlat_def EncryptClustered_def DecryptResult_def DecryptClustered_def
        assms(1) run_simps)
qed

section \<open>Nothing staged survives\<close>

text \<open>A tree: a path inside a directory's path exists only if the directory does.\<close>

definition rooted :: "store \<Rightarrow> bool" where
  "rooted st \<longleftrightarrow> (\<forall>p d. nodeAt st p \<noteq> None \<longrightarrow> isInside d p \<longrightarrow> snd d \<noteq> [] \<longrightarrow> nodeAt st d = Some Dir)"

definition sameFiles :: "store \<Rightarrow> store \<Rightarrow> bool" where
  "sameFiles st st' \<longleftrightarrow> (\<forall>p. nodeAt st' p = nodeAt st p)"

lemma isInside_joinPath [simp]: "isInside d (joinPath d n)"
  by (cases d) simp

lemma map_of_filter_fst: "map_of (filter (\<lambda>e. P (fst e)) st) q = (if P q then map_of st q else None)"
  by (induction st) auto

lemma nodeAt_removeAll:
  "nodeAt (filter (\<lambda>e. fst e \<noteq> p \<and> \<not> isInside p (fst e)) st) q =
    (if q = p \<or> isInside p q then None else nodeAt st q)"
  using map_of_filter_fst[of "\<lambda>e. e \<noteq> p \<and> \<not> isInside p e" st q] by (simp add: nodeAt_def)

definition inStage :: "gopath \<Rightarrow> gopath set" where
  "inStage d = {p. p = d \<or> isInside d p}"

lemma stage_frame:
  assumes "reliable E"
    and body: "\<And>st. keeps (touchesOnly (inStage st)) (body st)"
    and run: "andThen (mapErr f (osMkdirTemp E)) (\<lambda>st. deferring (ignoring (osRemoveAll E st)) (body st)) w = (r, w')"
    and "rooted (nodes w)"
  shows "sameFiles (nodes w) (nodes w')"
  using run
proof (cases rule: andThen_cases)
  case (first e)
  then show ?thesis
    by (auto simp: mapErr_def osMkdirTemp_def syscall_def Let_def sameFiles_def split: option.splits if_splits)
next
  case (second stage w1)
  have mk: "osMkdirTemp E w = (Inr stage, w1)" by (rule mapErr_InrE[OF second(1)])
  then have free: "nodeAt (nodes w) stage = None" and st: "snd stage \<noteq> []"
    and w1: "nodes w1 = putNode stage Dir (nodes w)"
    by (auto simp: osMkdirTemp_def syscall_def Let_def tempRoot_def split: option.splits if_splits)
  obtain w2 where b: "body stage w1 = (r, w2)" and w': "w' = ignoring (osRemoveAll E stage) w2"
    using second(2) by (auto simp: deferring_def split: prod.splits)
  have inside: "nodeAt (nodes w) p = None" if "p \<in> inStage stage" for p
  proof (cases "p = stage")
    case False
    with that have "isInside stage p" by (simp add: inStage_def)
    with assms(4)[unfolded rooted_def, rule_format, of p stage] st free show ?thesis
      by (cases "nodeAt (nodes w) p") simp_all
  qed (simp add: free)
  have "nodeAt (nodes w') p = nodeAt (nodes w) p" for p
  proof (cases "p \<in> inStage stage")
    case True
    then have "nodeAt (nodes w') p = None"
      using assms(1)
      by (auto simp: w' ignoring_def osRemoveAll_def syscall_def reliable_def Let_def nodeAt_removeAll inStage_def)
    then show ?thesis using inside[OF True] by simp
  next
    case False
    then have "nodeAt (nodes w') p = nodeAt (nodes w2) p"
      using assms(1)
      by (auto simp: w' ignoring_def osRemoveAll_def syscall_def reliable_def Let_def nodeAt_removeAll inStage_def)
    also have "\<dots> = nodeAt (nodes w1) p"
      by (rule touchesOnly_nodeAt[OF keepsD[OF body b] False])
    also have "\<dots> = nodeAt (nodes w) p" using False by (simp add: w1 inStage_def)
    finally show ?thesis .
  qed
  then show ?thesis by (simp add: sameFiles_def)
qed

lemma keeps_materialise:
  assumes "\<And>a. keeps (touchesOnly A) (unwrap a (joinPath stage bn))" and "joinPath stage bn \<in> A"
  shows "keeps (touchesOnly A) (materialise E dir stage bn jn unwrap)"
  unfolding materialise_def
  by (intro touching.keeps_rules frame_intros)
    (auto intro!: touching.keeps_rules frame_intros assms split: prod.split)

lemma touches_closers: "touchesOnly A w (snd (ContextClose c w))" "touchesOnly A w (snd (bundleClose b w))"
  by (auto simp: ContextClose_def bundleClose_def EncryptorClose_def DecryptorClose_def closeHandle_def c_free_def
      touchesOnly_nodes Let_def split: option.split)

lemma keeps_constructors:
  "keeps (touchesOnly A) (NewCKKSContext E p)" "keeps (touchesOnly A) (NewEncryptor E c dir)"
  "keeps (touchesOnly A) (NewDecryptor E c dir)"
  unfolding NewCKKSContext_def NewEncryptor_def NewDecryptor_def orDestroy_def
  by (intro touching.keeps_rules frame_intros)+

lemma open_sameFiles:
  assumes "reliable E" and "openKeyBundle E opts kind w = (r, w')" and "rooted (nodes w)"
  shows "sameFiles (nodes w) (nodes w')"
proof -
  obtain a b c where p: "resolveKeyParts (Parts opts) = (a, b, c)" by (cases "resolveKeyParts (Parts opts)")
  have join: "joinPath d n \<in> inStage d" for d n by (simp add: inStage_def)
  show ?thesis
    by (rule stage_frame[OF assms(1) _ assms(2)[unfolded openKeyBundle_def p Let_def prod.case] assms(3)])
      (intro touching.keeps_rules keeps_materialise frame_intros keeps_constructors touches_closers join)
qed

lemma sameFiles_rooted: "sameFiles st st' \<Longrightarrow> rooted st \<Longrightarrow> rooted st'"
  by (simp add: sameFiles_def rooted_def)

lemma nodes_bundleClose: "sameFiles (nodes w) (nodes (snd (bundleClose b w)))"
  using touches_closers(2)[of "{}" w b] by (simp add: touchesOnly_def fstore.same_outside_def sameFiles_def)

section \<open>A concrete run\<close>

definition encOpts :: "KeysOption list" where
  "encOpts = sampleOpts @ [WithKeyParts [KeyPartEnc]]"

definition storedWorld :: keys_world where
  "storedWorld = emptyWorld\<lparr>nodes :=
     [((True, [''k'']), Dir), ((True, [''k'', ''rmp'']), Dir), ((True, [''k'', ''mm'']), Dir),
      ((True, [''k'', ''rmp'', ''EncKey.json'']), File [1, 7]), ((True, [''k'', ''mm'', ''EncKey.json'']), File [1, 8])]\<rparr>"

lemma encOpts_build:
  "buildKeysOptions encOpts = \<lparr>Path = ''/k'', KeyID = ''id'', Dim = 8, Parts = [KeyPartEnc], FlatMode = []\<rparr>"
  by (simp add: buildKeysOptions_def encOpts_def sampleOpts_def keys_option_defs zeroKeysOptions_def)

lemma succeeds_result:
  fixes m :: "(err, 'w os_world_scheme, 'a) io"
  assumes "succeeds P m Q" and "returns m R" and "\<And>x. R x \<Longrightarrow> succeeds Q (k x) S"
  shows "succeeds P (andThen m k) S"
  unfolding succeeds_def
proof (intro allI impI)
  fix w :: "'w os_world_scheme" assume "P (nodes w)"
  then obtain x w1 where m: "m w = (Inr x, w1)" "Q (nodes w1)" using assms(1) by (auto simp: succeeds_def)
  have "R x" using assms(2) m(1) unfolding returns_def by blast
  then show "\<exists>y w'. andThen m k w = (Inr y, w') \<and> S (nodes w')"
    using assms(3)[of x] m by (simp add: andThen_Inr succeeds_def)
qed

lemma calm_load: "calm E \<Longrightarrow> succeeds (\<lambda>st. isFile st p) (c_load E op hs p) (\<lambda>st. isFile st p)"
  by (auto simp: calm_run c_load_def loadFailed_def isFile_def fileAt_def)

lemma calm_context:
  assumes "calm E" and "\<not> isl (presetToEnum preset)" and "\<not> isl (evalModeToEnum mode)"
  shows "succeeds P (NewCKKSContext E \<lparr>cp_preset = preset, cp_dims = [d], cp_mode = mode\<rparr>) P"
proof -
  have pure: "succeeds P (andThen (liftRes r) k) Q" if "\<not> isl r" "\<And>x. succeeds P (k x) Q"
    for P Q and r :: "err + int" and k :: "int \<Rightarrow> (err, 'b cgo_world_scheme, cgoContext) io"
    using that by (cases r) (auto simp: succeeds_def andThen_def run_simps)
  show ?thesis
    unfolding NewCKKSContext_def
    by (simp, intro pure assms succeeds_andThen[OF calm_create] succeeds_ret)
qed

lemma returns_context: "returns (NewCKKSContext E p) (\<lambda>c. ctx_c c \<noteq> None)"
  unfolding NewCKKSContext_def
  by (cases "cp_dims p = []") (auto intro!: returns_pure returns_andThen[OF returns_any])

lemma calm_NewEncryptor:
  assumes "calm E" and "ctx_c c \<noteq> None"
  shows "succeeds (\<lambda>st. isFile st (joinPath dir encKeyBinFile)) (NewEncryptor E c dir) (\<lambda>st. True)"
proof -
  from assms(2) obtain ctx where c: "ctx_c c = Some ctx" by blast
  have keep: "succeeds P (onFailure g m) Q" if "succeeds P m Q"
    for P Q g and m :: "(err, 'b cgo_world_scheme, cgoEncryptor) io"
    using that by (fastforce simp: succeeds_def onFailure_def)
  have a: "calm E" "calm (afterDestroy E)" using assms(1) by (simp_all add: calm_def reliable_def)
  show ?thesis
    unfolding NewEncryptor_def c option.case orDestroy_def
    by (rule succeeds_scoped[OF calm_string[OF a(1)]], rule succeeds_andThen[OF calm_create[OF a(1)]], rule keep,
        rule succeeds_andThen[OF calm_load[OF a(2)]], rule succeeds_andThen[OF calm_create[OF a(2)]], rule succeeds_ret, simp)
qed

text \<open>Any environment that does not fail opens the stored key set.\<close>

definition usable :: "'e cgo_env_scheme \<Rightarrow> bool" where
  "usable E \<longleftrightarrow> calm E \<and> (\<forall>kind b c. km_unwrap E kind [b, c] \<noteq> None)"

lemma storedWorld_run:
  fixes w :: "'w cgo_world_scheme"
  assumes E: "usable E" and kind: "kind = rmpKind \<or> kind = mmKind" and w: "sameFiles (nodes storedWorld) (nodes w)"
  shows "\<exists>b w'. openKeyBundle E (buildKeysOptions encOpts) kind w = (Inr b, w')"
proof -
  have ok: "calm E" and rel: "reliable E" using E by (simp_all add: usable_def calm_def)
  have unwraps: "(km_unwrap E kind [b, c] = None) = False" for kind b c using E unfolding usable_def by blast
  define stage where "stage = joinPath tempRoot (os_tempname E (Suc (tick w)))"
  define src where "src = joinPath (joinPath (True, [''k'']) (kk_subdir kind)) encKeyJSONFile"
  let ?S = "putNode stage Dir (nodes w)"
  have same: "nodeAt (nodes w) p = nodeAt (nodes storedWorld) p" for p
    using w unfolding sameFiles_def by blast
  have fault: "os_fault E k = None" for k using rel by (simp add: reliable_def)
  have fresh: "nodeAt (nodes w) stage = None"
    unfolding same by (simp add: storedWorld_def nodeAt_def stage_def tempRoot_def)
  define w1 where "w1 = w\<lparr>tick := Suc (tick w), nodes := ?S\<rparr>"
  have mk: "mapErr g (osMkdirTemp E) w = (Inr stage, w1)" for g
    using fresh by (simp add: osMkdirTemp_def syscall_def fault Let_def mapErr_def w1_def stage_def)
  have w1n: "nodes w1 = ?S" by (simp add: w1_def)
  have there: "\<exists>b c. nodeAt ?S src = Some (File [b, c])"
    using kind same by (auto simp: src_def storedWorld_def nodeAt_def putNode_def map_of_filter_neq stage_def tempRoot_def rmpKind_def mmKind_def
        key_file_defs)
  have conv: "succeeds (\<lambda>st. st = ?S) (UnwrapEncKey E src (joinPath stage encKeyBinFile))
      (\<lambda>st. isFile st (joinPath stage encKeyBinFile))"
    unfolding UnwrapEncKey_def unwrapKey_def
    using there ok
    by (intro succeeds_scoped[OF calm_string[OF ok]])
      (auto simp: succeeds_def km_convert_def fileAt_def andThen_def c_invoke_def kmShimError_def shimError_def
        Let_def isFile_def calm_def unwraps)
  define w2 where "w2 = w1\<lparr>tick := Suc (tick w1)\<rparr>"
  have resolve: "resolveKeySlot E (joinPath (True, [''k'']) (kk_subdir kind)) encKeyBinFile encKeyJSONFile w1 =
      (Inr (Some (src, True)), w2)"
    using there
    by (auto simp: resolveKeySlot_def osStat_reliable[OF rel] andThen_def attempt_def run_simps src_def
        w1n w2_def)
  have w2n: "nodes w2 = ?S" by (simp add: w1_def w2_def)
  obtain w3 where w3: "UnwrapEncKey E src (joinPath stage encKeyBinFile) w2 = (Inr (), w3)"
    "isFile (nodes w3) (joinPath stage encKeyBinFile)"
    using conv w2n by (fastforce simp: succeeds_def)
  have mat: "materialise E (joinPath (True, [''k'']) (kk_subdir kind)) stage encKeyBinFile encKeyJSONFile
      (UnwrapEncKey E) w1 = (Inr (), w3)"
    unfolding materialise_def by (subst andThen_Inr, rule resolve) (simp add: mapErr_def w3)
  have enums: "\<not> isl (presetToEnum (kk_preset kind))" "\<not> isl (evalModeToEnum (kk_mode kind))"
    using kind by (auto simp: rmpKind_def mmKind_def)
  have last: "succeeds (\<lambda>st. isFile st (joinPath stage encKeyBinFile))
      (andThen (mapErr f (NewCKKSContext E \<lparr>cp_preset = kk_preset kind, cp_dims = [8], cp_mode = kk_mode kind\<rparr>))
        (\<lambda>ckks. andThen (onFailure (g ckks) (mapErr f' (andThen (NewEncryptor E ckks stage) (\<lambda>e. ret (Some e)))))
          (\<lambda>enc. ret (h ckks enc)))) (\<lambda>st. True)" for g and f f' :: "err \<Rightarrow> err" and h :: "_ \<Rightarrow> _ \<Rightarrow> keyBundle"
  proof (rule succeeds_result[OF succeeds_mapErr[OF calm_context[OF ok enums]] returns_mapErr[OF returns_context]])
    fix ckks :: cgoContext assume "ctx_c ckks \<noteq> None"
    note e = calm_NewEncryptor[OF ok this]
    have keep: "succeeds P (onFailure gg m) Q" if "succeeds P m Q"
      for P Q gg and m :: "(err, 'b cgo_world_scheme, cgoEncryptor option) io"
      using that by (fastforce simp: succeeds_def onFailure_def)
    show "succeeds (\<lambda>st. isFile st (joinPath stage encKeyBinFile))
        (andThen (onFailure (g ckks) (mapErr f' (andThen (NewEncryptor E ckks stage) (\<lambda>e. ret (Some e)))))
          (\<lambda>enc. ret (h ckks enc))) (\<lambda>st. True)"
      by (rule succeeds_andThen[OF keep[OF succeeds_mapErr[OF succeeds_andThen[OF e]]]])
        (rule succeeds_ret, simp)+
  qed
  have parts: "resolveKeyParts [KeyPartEnc] = (True, False, False)" by (simp add: resolveKeyParts_eq key_part_defs)
  have last': "\<exists>b w'. deferring c (andThen (ret ())
      (\<lambda>_. andThen (mapErr f (NewCKKSContext E \<lparr>cp_preset = kk_preset kind, cp_dims = [8], cp_mode = kk_mode kind\<rparr>))
        (\<lambda>ckks. andThen (onFailure (g ckks) (mapErr f' (andThen (NewEncryptor E ckks stage) (\<lambda>e. ret (Some e)))))
          (\<lambda>enc. ret (h ckks enc))))) w3 = (Inr b, w')" for g c and f f' :: "err \<Rightarrow> err" and h :: "_ \<Rightarrow> _ \<Rightarrow> keyBundle"
    using last[unfolded succeeds_def, rule_format, OF w3(2), of f g f' h]
    by (auto simp: deferring_def andThen_Inr[of "ret ()" w3 "()" w3, OF ret_run])
  have first: "deferring c (andThen m k) v = deferring c (k x) v'" if "m v = (Inr x, v')" for c m k v x v'
    by (simp add: deferring_def andThen_def that)
  show ?thesis
    unfolding encOpts_build openKeyBundle_def keysOptions.select_convs parts prod.case Let_def sample_paths if_True if_False
    by (subst andThen_Inr, rule mk, subst first, rule mat, rule last')
qed

text \<open>The bundles of \<open>storedWorld\<close> open, with the encryption parts only.\<close>

lemma stored_opens:
  fixes w :: "'w keys_world_scheme"
  assumes E: "usable E" and w: "nodes w = nodes storedWorld"
  shows "\<exists>w'. OpenKeys E encOpts w = (Inr (length (k_objs w)), w')"
proof -
  have rel: "reliable E" using E by (simp add: usable_def calm_def)
  have v: "validate (buildKeysOptions encOpts) = Inr ()" by (simp add: encOpts_build validate_ok rune_eval)
  have k: "flatBundleKind (FlatMode (buildKeysOptions encOpts)) = rmpKind" by (simp add: encOpts_build sample_paths)
  obtain b1 w1 where 1: "openKeyBundle E (buildKeysOptions encOpts) rmpKind w = (Inr b1, w1)"
    using storedWorld_run[OF E, of rmpKind w] by (auto simp: sameFiles_def w)
  have "rooted (nodes w)"
    by (auto simp: w rooted_def storedWorld_def nodeAt_def take_Cons' split: if_splits)
  then have same: "sameFiles (nodes storedWorld) (nodes w1)" using open_sameFiles[OF rel 1] by (simp add: w)
  then obtain b2 w2 where 2: "openKeyBundle E (buildKeysOptions encOpts) mmKind w1 = (Inr b2, w2)"
    using storedWorld_run[OF E, of mmKind w1] by blast
  have "k_objs w2 = k_objs w"
    using rest_objs[OF keepsD[OF rest_openKeyBundle 1]] rest_objs[OF keepsD[OF rest_openKeyBundle 2]] by simp
  then show ?thesis
    by (simp add: OpenKeys_def Let_def v k andThen_def run_simps 1 2 onFailure_def newKeys_def)
qed

lemma storedWorld_opens: "\<exists>w'. OpenKeys calmEnv encOpts storedWorld = (Inr 0, w')"
proof -
  have "usable calmEnv" by (simp add: usable_def calm_calmEnv) (simp add: calmEnv_def)
  from stored_opens[OF this, of storedWorld] show ?thesis by (simp add: storedWorld_def emptyWorld_def)
qed

section \<open>Properties\<close>

text \<open>
  Opening a key set accounts for every C object, whatever the library and the file
  system do: a failed \<open>OpenKeys\<close> leaves exactly the objects that were live before; a
  successful one adds exactly the objects held by the new key set. No object is used
  after it was destroyed, destroyed twice, or lost.
\<close>

theorem open_accounts_for_objects:
  assumes "holding live w" and "OpenKeys E opts w = (r, w')"
  shows "case r of
      Inl e \<Rightarrow> holding live w'
    | Inr i \<Rightarrow> i < length (k_objs w') \<and> keysHandles (k_objs w' ! i) \<inter> live = {} \<and>
        holding (live \<union> keysHandles (k_objs w' ! i)) w'"
  using OpenKeys_cases[OF assms(2,1)] by cases auto

lemma emptyHolding: "c_log w = [] \<Longrightarrow> holding {} w"
  by (simp add: holding_def liveAfter_def)

lemma storedWorld_log: "c_log storedWorld = []"
  by (simp add: storedWorld_def emptyWorld_def)

theorem open_accounts_for_objects_witness:
  "holding (keysHandles (k_objs (snd (OpenKeys calmEnv encOpts storedWorld)) ! 0))
     (snd (OpenKeys calmEnv encOpts storedWorld))"
proof -
  obtain w' where r: "OpenKeys calmEnv encOpts storedWorld = (Inr 0, w')" using storedWorld_opens by blast
  show ?thesis using open_accounts_for_objects[OF emptyHolding[OF storedWorld_log] r] r by simp
qed

text \<open>
  C12. Closing releases what opening acquired: after \<open>Close\<close> on a key set just opened the
  live objects are those from before the open, every encrypt and decrypt operation on the
  set is refused with its sentinel error and without any call into the library, and a
  second \<open>Close\<close> changes nothing.
\<close>

theorem close_releases_everything:
  assumes "holding live w" and "OpenKeys E opts w = (Inr i, w1)"
  shows "holding live (snd (KeysClose (Some i) w1)) \<and>
    refusesAll E (Some i) (snd (KeysClose (Some i) w1)) \<and>
    KeysClose (Some i) (snd (KeysClose (Some i) w1)) = (Inr (), snd (KeysClose (Some i) w1))"
proof -
  obtain k where o: "i = length (k_objs w)" "k_objs w1 = k_objs w @ [k]"
    and h: "holding (live \<union> keysHandles k) w1" "keysHandles k \<inter> live = {}"
    and own: "ownsKeys (live \<union> keysHandles k) k"
    using OpenKeys_cases[OF assms(2,1)] by cases auto
  have i: "i < length (k_objs w1)" and ki: "k_objs w1 ! i = k" by (simp_all add: o)
  obtain rmp mm w2 where r: "KeysClose (Some i) w1 = (Inr (), w2\<lparr>k_objs := (k_objs w1)[i := k\<lparr>k_rmp := rmp, k_mm := mm\<rparr>]\<rparr>)"
    and c: "closedBundle rmp" "closedBundle mm"
    using KeysClose_run[OF i] unfolding ki by metis
  let ?w = "snd (KeysClose (Some i) w1)"
  have at: "keysAt ?w (Some i) = Some (k\<lparr>k_rmp := rmp, k_mm := mm\<rparr>)" using i by (simp add: r keysAt_def)
  have "holding (live \<union> keysHandles k - keysHandles k) ?w"
    using holding_KeysClose[OF h(1) i] own by (simp add: ki)
  moreover have "live \<union> keysHandles k - keysHandles k = live" using h(2) by auto
  moreover have "refusesAll E (Some i) ?w" by (rule closed_refuses[OF at]) (simp_all add: c)
  moreover have "KeysClose (Some i) ?w = (Inr (), ?w)"
    by (rule KeysClose_idle[OF at]) (simp_all add: c)
  ultimately show ?thesis by simp
qed

theorem close_releases_everything_witness:
  "\<exists>w1. OpenKeys calmEnv encOpts storedWorld = (Inr 0, w1) \<and> holding {} (snd (KeysClose (Some 0) w1))"
proof -
  obtain w' where r: "OpenKeys calmEnv encOpts storedWorld = (Inr 0, w')" using storedWorld_opens by blast
  show ?thesis using close_releases_everything[OF emptyHolding[OF storedWorld_log] r] r by simp
qed

text \<open>
  C14. Opening leaves no trace on disk: with a file system that does not fail spuriously,
  every path has after \<open>OpenKeys\<close>, successful or not, the content it had before; the
  staged plain copies of the encryption and secret keys do not survive the call.
\<close>

theorem open_leaves_disk_unchanged:
  assumes "reliable E" and "rooted (nodes w)"
  shows "nodeAt (nodes (snd (OpenKeys E opts w))) p = nodeAt (nodes w) p"
proof -
  let ?o = "buildKeysOptions opts"
  obtain r w' where run: "OpenKeys E opts w = (r, w')" by fastforce
  have trans: "sameFiles a c" if "sameFiles a b" "sameFiles b c" for a b c
    using that by (simp add: sameFiles_def)
  have refl: "sameFiles a a" for a by (simp add: sameFiles_def)
  from run have "sameFiles (nodes w) (nodes w')"
    unfolding OpenKeys_def Let_def
  proof (cases rule: andThen_cases)
    case (second u w0)
    then have w0: "w0 = w" by (simp add: run_simps)
    from second(2) show ?thesis unfolding w0
    proof (cases rule: andThen_cases)
      case (first e)
      then show ?thesis using open_sameFiles[OF assms(1) _ assms(2)] by blast
    next
      case (second rmp w1)
      note s1 = open_sameFiles[OF assms(1) second(1) assms(2)]
      from second(2) show ?thesis
      proof (cases rule: andThen_cases)
        case (first e)
        then obtain w2 where m: "openKeyBundle E ?o mmKind w1 = (Inl e, w2)"
          and w': "w' = snd (bundleClose rmp w2)"
          by (auto simp: onFailure_def split: prod.splits sum.splits)
        show ?thesis
          unfolding w' using trans[OF trans[OF s1 open_sameFiles[OF assms(1) m sameFiles_rooted[OF s1 assms(2)]]]
            nodes_bundleClose] .
      next
        case (second mm w2)
        then have m: "openKeyBundle E ?o mmKind w1 = (Inr mm, w2)"
          by (auto simp: onFailure_def split: prod.splits sum.splits)
        have "nodes w' = nodes w2" using second(2) by (auto simp: newKeys_def)
        with trans[OF s1 open_sameFiles[OF assms(1) m sameFiles_rooted[OF s1 assms(2)]]] show ?thesis by simp
      qed
    qed
  qed (simp add: run_simps refl)
  then show ?thesis unfolding run snd_conv sameFiles_def by blast
qed

theorem open_leaves_disk_unchanged_witness:
  "nodeAt (nodes (snd (OpenKeys calmEnv encOpts storedWorld))) (True, [''tmp'', ''tx'']) = None"
proof -
  have "rooted (nodes storedWorld)"
    by (auto simp: rooted_def storedWorld_def nodeAt_def take_Cons' split: if_splits)
  from open_leaves_disk_unchanged[OF calm_reliable this, of encOpts "(True, [''tmp'', ''tx''])"]
  show ?thesis by (simp add: storedWorld_def nodeAt_def)
qed

lemma use_keeps_holding:
  assumes "holding live w" and "keysAt w k = Some ks" and "keysHandles ks \<subseteq> live"
  shows "holding live (snd (EncryptFlat E k vec w))" and "holding live (snd (EncryptClustered E k vec w))"
    and "holding live (snd (DecryptResult E k blob w))" and "holding live (snd (DecryptClustered E k blob w))"
proof -
  have sub: "encryptorHandles e \<subseteq> live" if "Option.bind (f ks) kb_enc = Some e" "f = k_rmp \<or> f = k_mm" for f e
    using that assms(3)
    by (cases "f ks") (auto simp: keysHandles_def bundleHandles_def optHandles_def split: option.splits)
  have sub': "decryptorHandles d \<subseteq> live" if "Option.bind (f ks) kb_dec = Some d" "f = k_rmp \<or> f = k_mm" for f d
    using that assms(3)
    by (cases "f ks") (auto simp: keysHandles_def bundleHandles_def optHandles_def split: option.splits)
  show "holding live (snd (EncryptFlat E k vec w))"
    using sub[of k_rmp] assms(1)
    by (auto simp: EncryptFlat_def assms(2) run_simps split: option.split
        intro: balanced_keeps[OF balanced_EncryptSingle])
  show "holding live (snd (EncryptClustered E k vec w))"
    using sub[of k_mm] assms(1)
    by (auto simp: EncryptClustered_def assms(2) run_simps split: option.split
        intro: balanced_keeps[OF balanced_EncryptRow])
  show "holding live (snd (DecryptResult E k blob w))"
    using sub'[of k_rmp] assms(1)
    by (auto simp: DecryptResult_def assms(2) run_simps split: option.split
        intro: balanced_keeps[OF balanced_DecryptSearchResult])
  show "holding live (snd (DecryptClustered E k blob w))"
    using sub'[of k_mm] assms(1)
    by (auto simp: DecryptClustered_def assms(2) run_simps split: option.split
        intro: balanced_keeps[OF balanced_DecryptSearchResult])
qed

text \<open>
  Using a key set never disturbs the C objects: on an open set whose objects are live,
  each of the four operations, whatever it returns and however the library behaves, ends
  with the same objects live as it started with; its temporary buffers, queries, messages
  and results are all destroyed.
\<close>

theorem use_is_balanced:
  assumes "holding live w" and "keysAt w k = Some ks" and "keysHandles ks \<subseteq> live"
  shows "holding live (snd (EncryptFlat E k vec w)) \<and> holding live (snd (EncryptClustered E k vec w)) \<and>
    holding live (snd (DecryptResult E k blob w)) \<and> holding live (snd (DecryptClustered E k blob w))"
  using use_keeps_holding[OF assms] by blast

text \<open>A key set with an open flat-tier encryptor.\<close>

definition openWorld :: keys_world where
  "openWorld = \<lparr>tick = 2, nodes = [], c_log = [Created (Handle HEncryptor 0), Created (Handle HKeyPack 1)],
     k_objs = [\<lparr>k_id = ''id'', k_dim = 2, k_rmp = Some \<lparr>kb_kind = rmpKind, kb_dir = (True, [''k'', ''rmp'']),
       kb_ckks = None, kb_enc = Some \<lparr>enc_h = Some (Handle HEncryptor 0), pack_h = Some (Handle HKeyPack 1)\<rparr>,
       kb_dec = None\<rparr>, k_mm = None\<rparr>]\<rparr>"

theorem use_is_balanced_witness:
  "holding {Handle HEncryptor 0, Handle HKeyPack 1} (snd (EncryptFlat calmEnv (Some 0) [Num 1, Num 0] openWorld))"
proof -
  have h: "holding {Handle HEncryptor 0, Handle HKeyPack 1} openWorld"
    by (auto simp: holding_def openWorld_def liveAfter_def)
  have k: "keysAt openWorld (Some 0) = Some (k_objs openWorld ! 0)" by (simp add: keysAt_def openWorld_def)
  have s: "keysHandles (k_objs openWorld ! 0) \<subseteq> {Handle HEncryptor 0, Handle HKeyPack 1}"
    by (simp add: openWorld_def keysHandles_def optHandles_def bundleHandles_def encryptorHandles_def)
  from use_is_balanced[OF h k s] show ?thesis by blast
qed

end
