(* ===== verification/Client_Core.thy ===== *)
theory Client_Core
  imports Key_Lifecycle Clustering
begin

text \<open>
  \<open>client.go\<close>: the client's state, one RPC, and the operations that do little more than
  an RPC: \<open>Close\<close>, \<open>Info\<close>, \<open>UseKeys\<close>, \<open>Delete\<close>, \<open>UpdateTags\<close>, \<open>RetagAll\<close> and
  \<open>RemoveTag\<close>. The server is not part of the repository: what it answers to a request is
  a parameter, a function of the requests it has seen so far, of the time, and of the
  request, so that every server, stateful or faulty, is covered.
\<close>

section \<open>State\<close>

text \<open>
  \<open>cl_conn\<close> says whether \<open>conn\<close> is non-nil. \<open>svc\<close> is set once at \<open>Dial\<close> and is the
  environment here.
\<close>

record Client =
  cl_conn :: bool
  cl_keys :: keysRef
  cl_centroids :: "centroidSet option"
  cl_loaded :: bool

datatype rpc =
    RpcGetInfo
  | RpcGetCentroids
  | RpcInsert InsertRequest
  | RpcSearch SearchRequest
  | RpcGetMetadata GetMetadataRequest
  | RpcDelete DeleteRequest
  | RpcUpdateTags UpdateTagsRequest
  | RpcRetagAll RetagAllRequest
  | RpcRemoveTag RemoveTagRequest
  | RpcRegisterOpen
  | RpcRegisterSend RegisterKeysStreamRequest
  | RpcRegisterClose

record client_world = keys_world +
  cl :: Client
  sent :: "rpc list"

type_synonym ('q, 'r) serve = "rpc list \<Rightarrow> nat \<Rightarrow> 'q \<Rightarrow> err + 'r"

record client_env = cgo_env +
  sv_info :: "(unit, GetInfoResponse) serve"
  sv_centroids :: "(unit, centroid_stream) serve"
  sv_insert :: "(InsertRequest, unit) serve"
  sv_search :: "(SearchRequest, SearchResponse) serve"
  sv_metadata :: "(GetMetadataRequest, GetMetadataResponse) serve"
  sv_delete :: "(DeleteRequest, unit) serve"
  sv_update_tags :: "(UpdateTagsRequest, unit) serve"
  sv_retag_all :: "(RetagAllRequest, ChangedResponse) serve"
  sv_remove_tag :: "(RemoveTagRequest, ChangedResponse) serve"
  sv_register_open :: "(unit, unit) serve"
  sv_register_send :: "(RegisterKeysStreamRequest, unit) serve"
  sv_register_close :: "(unit, unit) serve"
  conn_close :: "nat \<Rightarrow> err option"
  ctx_done :: "nat \<Rightarrow> err option"
  new_uuid :: "nat \<Rightarrow> string"
  rd_size :: "nat \<Rightarrow> nat"
  rpc_status :: grpc_lib

text \<open>One RPC: the request is on record whatever the server answers.\<close>

definition invoke :: "('q, 'r) serve \<Rightarrow> ('q \<Rightarrow> rpc) \<Rightarrow> 'q \<Rightarrow> (err, 'w client_world_scheme, 'r) io" where
  "invoke f mk q w = (f (sent w) (tick w) q, w\<lparr>tick := Suc (tick w), sent := sent w @ [mk q]\<rparr>)"

definition setClient :: "(Client \<Rightarrow> Client) \<Rightarrow> (err, 'w client_world_scheme, unit) io" where
  "setClient f = modify (\<lambda>w. w\<lparr>cl := f (cl w)\<rparr>)"

section \<open>Opening and closing\<close>

definition connOK :: "'w client_world_scheme \<Rightarrow> bool" where
  "connOK w = cl_conn (cl w)"

definition ClientClose :: "'e client_env_scheme \<Rightarrow> (err, 'w client_world_scheme, unit) io" where
  "ClientClose E =
     andThen (gets (\<lambda>w. cl_conn (cl w))) (\<lambda>conn.
     andThen (setClient (\<lambda>c. c\<lparr>cl_conn := False\<rparr>)) (\<lambda>_.
     if \<not> conn then ret ()
     else (\<lambda>w. (case conn_close E (tick w) of None \<Rightarrow> Inr () | Some e \<Rightarrow> Inl e, w\<lparr>tick := Suc (tick w)\<rparr>))))"

definition UseKeys :: "keysRef \<Rightarrow> (err, 'w client_world_scheme, unit) io" where
  "UseKeys k = setClient (\<lambda>c. c\<lparr>cl_keys := k\<rparr>)"

text \<open>The guard every simple operation starts with.\<close>

definition whenOpen :: "(err, 'w client_world_scheme, 'a) io \<Rightarrow> (err, 'w client_world_scheme, 'a) io" where
  "whenOpen m = andThen (gets connOK) (\<lambda>ok. if \<not> ok then throw (Sentinel ErrClientClosed) else m)"

section \<open>Info\<close>

record RegisteredKey =
  rk_kind :: string
  rk_key_id :: string
  rk_preset :: string
  rk_dim :: int
  rk_eval_mode :: string
  rk_fingerprint :: bytes

record InfoResult =
  in_version :: string
  in_commit :: string
  in_build_date :: string
  in_engine_status :: string
  in_engine_probe_dim :: uint32
  in_ready :: bool
  in_registered_keys :: "RegisteredKey list"

definition keyKindName :: "KeyKind \<Rightarrow> string" where
  "keyKindName k =
     (if k = KEY_KIND_RMP_EVAL then kk_name rmpKind
      else if k = KEY_KIND_MM_EVAL then kk_name mmKind
      else ''unknown'')"

definition registeredKey :: "KeyMeta \<Rightarrow> RegisteredKey" where
  "registeredKey rk = \<lparr>rk_kind = keyKindName (km_kind rk), rk_key_id = km_kid rk, rk_preset = km_preset rk,
     rk_dim = uint (km_dim rk), rk_eval_mode = km_eval_mode rk, rk_fingerprint = km_fingerprint rk\<rparr>"

definition Info :: "'e client_env_scheme \<Rightarrow> (err, 'w client_world_scheme, InfoResult) io" where
  "Info E = whenOpen (andThen (invoke (sv_info E) (\<lambda>_. RpcGetInfo) ()) (\<lambda>resp.
     ret \<lparr>in_version = gi_version resp, in_commit = gi_commit resp, in_build_date = gi_build_date resp,
       in_engine_status = gi_engine_status resp, in_engine_probe_dim = gi_engine_probe_dim resp,
       in_ready = gi_ready resp, in_registered_keys = map registeredKey (gi_registered_keys resp)\<rparr>))"

section \<open>Deletes and tags\<close>

definition Delete :: "'e client_env_scheme \<Rightarrow> string \<Rightarrow> (err, 'w client_world_scheme, unit) io" where
  "Delete E i = whenOpen (invoke (sv_delete E) RpcDelete \<lparr>dr_id = i\<rparr>)"

definition UpdateTags :: "'e client_env_scheme \<Rightarrow> string \<Rightarrow> string list \<Rightarrow> string list \<Rightarrow>
    (err, 'w client_world_scheme, unit) io" where
  "UpdateTags E i add remove =
     whenOpen (invoke (sv_update_tags E) RpcUpdateTags \<lparr>ut_id = i, ut_add = add, ut_remove = remove\<rparr>)"

definition RetagAll :: "'e client_env_scheme \<Rightarrow> string \<Rightarrow> string \<Rightarrow> (err, 'w client_world_scheme, int) io" where
  "RetagAll E from to =
     whenOpen (andThen (invoke (sv_retag_all E) RpcRetagAll \<lparr>ra_from = from, ra_to = to\<rparr>)
       (\<lambda>resp. ret (ch_changed resp)))"

definition RemoveTag :: "'e client_env_scheme \<Rightarrow> string \<Rightarrow> (err, 'w client_world_scheme, int) io" where
  "RemoveTag E tag =
     whenOpen (andThen (invoke (sv_remove_tag E) RpcRemoveTag \<lparr>rt_tag = tag\<rparr>)
       (\<lambda>resp. ret (ch_changed resp)))"

section \<open>Centroids\<close>

definition InvalidateCentroidCache :: "(err, 'w client_world_scheme, unit) io" where
  "InvalidateCentroidCache = setClient (\<lambda>c. c\<lparr>cl_centroids := None, cl_loaded := False\<rparr>)"

definition fetchCentroids :: "'e client_env_scheme \<Rightarrow> (err, 'w client_world_scheme, centroidSet) io" where
  "fetchCentroids E =
     andThen (attempt (andThen (invoke (sv_centroids E) (\<lambda>_. RpcGetCentroids) ())
       (\<lambda>stream. liftRes (readCentroidSet stream)))) (\<lambda>r. case r of
         Inr cs \<Rightarrow> ret cs
       | Inl e \<Rightarrow>
           if codeOf (rpc_status E) e \<noteq> Unimplemented then throw (wrapf ''runespace: get centroids'' e)
           else ret emptyCentroidSet)"

definition centroidSetCached :: "'e client_env_scheme \<Rightarrow> (err, 'w client_world_scheme, centroidSet option) io" where
  "centroidSetCached E =
     andThen (gets cl) (\<lambda>c.
     if cl_loaded c then ret (cl_centroids c)
     else andThen (fetchCentroids E) (\<lambda>cs.
       andThen (gets cl) (\<lambda>c.
       if \<not> cl_loaded c
       then andThen (setClient (\<lambda>c. c\<lparr>cl_centroids := Some cs, cl_loaded := True\<rparr>)) (\<lambda>_. ret (Some cs))
       else ret (cl_centroids c))))"

text \<open>
  \<open>Centroids\<close> dereferences the cached pointer: the cache never holds nil while it is marked
  loaded, which is the invariant \<open>cacheOK\<close> below.
\<close>

definition Centroids :: "'e client_env_scheme \<Rightarrow> (err, 'w client_world_scheme, CentroidSet) io" where
  "Centroids E =
     andThen (mapErr (wrapf ''runespace: centroids'') (centroidSetCached E)) (\<lambda>cs. ret (snapshot (the cs)))"

definition cacheOK :: "Client \<Rightarrow> bool" where
  "cacheOK c \<longleftrightarrow> (cl_loaded c \<longrightarrow> cl_centroids c \<noteq> None)"

section \<open>Frames\<close>

text \<open>Using a key set reaches neither the client nor the wire.\<close>

lemma rest_use:
  "keeps sameRest (EncryptSingle E e vec ty)" "keeps sameRest (EncryptRow E e vec ty level)"
  "keeps sameRest (DecryptSearchResult E d blob)"
  unfolding EncryptSingle_def EncryptRow_def DecryptSearchResult_def
  by (auto intro!: rest.keeps_rules rest_scoped keeps_rest_cgo simp: Let_def split: option.split)

lemma rest_keys_use:
  "keeps sameRest (EncryptFlat E k vec)" "keeps sameRest (EncryptClustered E k vec)"
  "keeps sameRest (DecryptResult E k blob)" "keeps sameRest (DecryptClustered E k blob)"
  unfolding EncryptFlat_def EncryptClustered_def DecryptResult_def DecryptClustered_def
  by (auto intro!: keepsI simp: run_simps rest.R_refl rest_use[unfolded keeps_def, rule_format] split: option.split)

lemma sameRest_client:
  fixes w :: "'w client_world_scheme"
  assumes "sameRest w w'"
  shows "cl w' = cl w" and "sent w' = sent w" and "k_objs w' = k_objs w"
  using assms by (cases w; cases w'; simp add: sameRest_def)+

lemma invoke_run:
  "invoke f mk q w = (f (sent w) (tick w) q, w\<lparr>tick := Suc (tick w), sent := sent w @ [mk q]\<rparr>)"
  by (simp add: invoke_def)

text \<open>What an operation puts on the wire, and that it leaves the client alone.\<close>

definition sentBy :: "(rpc \<Rightarrow> bool) \<Rightarrow> 'w client_world_scheme \<Rightarrow> 'w client_world_scheme \<Rightarrow> bool" where
  "sentBy P w w' \<longleftrightarrow> (\<exists>new. sent w' = sent w @ new \<and> list_all P new)"

interpretation sending: step_relation "sentBy P" for P
proof
  fix s t u :: "'a client_world_scheme"
  show "sentBy P s s" by (simp add: sentBy_def)
  show "sentBy P s t \<Longrightarrow> sentBy P t u \<Longrightarrow> sentBy P s u" by (force simp: sentBy_def)
qed

definition sameClient :: "'w client_world_scheme \<Rightarrow> 'w client_world_scheme \<Rightarrow> bool" where
  "sameClient w w' \<longleftrightarrow> cl w' = cl w"

interpretation client: step_relation sameClient
  by unfold_locales (simp_all add: sameClient_def)

lemma sameRest_sentBy:
  fixes w :: "'w client_world_scheme"
  shows "sameRest w w' \<Longrightarrow> sentBy P w w'"
  by (simp add: sentBy_def sameRest_client(2))

lemma keeps_rest_sentBy:
  fixes m :: "(err, 'w client_world_scheme, 'a) io"
  shows "keeps sameRest m \<Longrightarrow> keeps (sentBy P) m"
  unfolding keeps_def using sameRest_sentBy by blast

lemma keeps_rest_client:
  fixes m :: "(err, 'w client_world_scheme, 'a) io"
  shows "keeps sameRest m \<Longrightarrow> keeps sameClient m"
  unfolding keeps_def sameClient_def using sameRest_client(1) by blast

lemma keeps_invoke:
  "P (mk q) \<Longrightarrow> keeps (sentBy P) (invoke f mk q)" "keeps sameClient (invoke f mk q)"
  by (auto intro!: keepsI simp: invoke_def sentBy_def sameClient_def)

lemma keeps_whenOpen:
  "keeps (sentBy P) m \<Longrightarrow> keeps (sentBy P) (whenOpen m)" "keeps sameClient m \<Longrightarrow> keeps sameClient (whenOpen m)"
  unfolding whenOpen_def by (intro sending.keeps_rules client.keeps_rules; assumption)+

text \<open>The operations that are one RPC behind the guard.\<close>

lemma simple_ops_client:
  "keeps sameClient (Info E)" "keeps sameClient (Delete E i)" "keeps sameClient (UpdateTags E i add remove)"
  "keeps sameClient (RetagAll E from to)" "keeps sameClient (RemoveTag E tag)"
  unfolding Info_def Delete_def UpdateTags_def RetagAll_def RemoveTag_def
  by (intro keeps_whenOpen client.keeps_rules keeps_invoke)+

section \<open>The centroid cache\<close>

lemma centroidSetCached_loaded:
  "cl_loaded (cl w) \<Longrightarrow> centroidSetCached E w = (Inr (cl_centroids (cl w)), w)"
  by (simp add: centroidSetCached_def andThen_def run_simps)

text \<open>What one fetch gives: the set of the stream, an empty one from an old server, or an error.\<close>

definition centroidsAnswer :: "'e client_env_scheme \<Rightarrow> rpc list \<Rightarrow> nat \<Rightarrow> err + centroidSet" where
  "centroidsAnswer E hist t =
     (case (case sv_centroids E hist t () of Inl e \<Rightarrow> Inl e | Inr stream \<Rightarrow> readCentroidSet stream) of
        Inr cs \<Rightarrow> Inr cs
      | Inl e \<Rightarrow> if codeOf (rpc_status E) e = Unimplemented then Inr emptyCentroidSet
          else Inl (wrapf ''runespace: get centroids'' e))"

lemma fetchCentroids_run:
  "fetchCentroids E w = (centroidsAnswer E (sent w) (tick w),
     w\<lparr>tick := Suc (tick w), sent := sent w @ [RpcGetCentroids]\<rparr>)"
  by (simp add: fetchCentroids_def centroidsAnswer_def andThen_def attempt_def invoke_run run_simps split: sum.split)

lemma centroidSetCached_fetch:
  "\<not> cl_loaded (cl w) \<Longrightarrow> centroidSetCached E w =
    (let w1 = w\<lparr>tick := Suc (tick w), sent := sent w @ [RpcGetCentroids]\<rparr> in
     case centroidsAnswer E (sent w) (tick w) of
       Inl e \<Rightarrow> (Inl e, w1)
     | Inr cs \<Rightarrow> (Inr (Some cs), w1\<lparr>cl := (cl w)\<lparr>cl_centroids := Some cs, cl_loaded := True\<rparr>\<rparr>))"
  by (simp add: centroidSetCached_def fetchCentroids_run andThen_def setClient_def run_simps Let_def split: sum.split)

text \<open>An operation other than an invalidation never drops or replaces a cached set.\<close>

definition cacheKept :: "'w client_world_scheme \<Rightarrow> 'w client_world_scheme \<Rightarrow> bool" where
  "cacheKept w w' \<longleftrightarrow> (cl_loaded (cl w) \<longrightarrow> cl_loaded (cl w') \<and> cl_centroids (cl w') = cl_centroids (cl w)) \<and>
     (cacheOK (cl w) \<longrightarrow> cacheOK (cl w'))"

interpretation cached: step_relation cacheKept
  by unfold_locales (auto simp: cacheKept_def)

lemma keeps_client_cached: "keeps sameClient m \<Longrightarrow> keeps cacheKept m"
  by (auto simp: keeps_def sameClient_def cacheKept_def)

lemma keeps_cached_fetch: "keeps cacheKept (centroidSetCached E)"
proof (rule keepsI)
  fix w :: "'w client_world_scheme"
  show "cacheKept w (snd (centroidSetCached E w))"
    by (cases "cl_loaded (cl w)")
      (auto simp: centroidSetCached_loaded centroidSetCached_fetch cacheKept_def cacheOK_def Let_def split: sum.split)
qed

lemma keeps_sent_fetch: "P RpcGetCentroids \<Longrightarrow> keeps (sentBy P) (centroidSetCached E)"
proof (rule keepsI)
  fix w :: "'w client_world_scheme"
  assume "P RpcGetCentroids"
  then show "sentBy P w (snd (centroidSetCached E w))"
    by (cases "cl_loaded (cl w)")
      (auto simp: centroidSetCached_loaded centroidSetCached_fetch sentBy_def Let_def split: sum.split)
qed

section \<open>A sample client and server\<close>

text \<open>
  A client with an open key set of dimension 2, facing a server that serves the sample
  centroid set, one flat and one cluster cell, and a directory with one item in each.
\<close>

definition sampleBundle :: "keyKind \<Rightarrow> nat \<Rightarrow> keyBundle" where
  "sampleBundle kind n = \<lparr>kb_kind = kind, kb_dir = (True, [''k'', kk_subdir kind]), kb_ckks = None,
     kb_enc = Some \<lparr>enc_h = Some (Handle HEncryptor n), pack_h = Some (Handle HKeyPack (n + 1))\<rparr>,
     kb_dec = Some \<lparr>dec_h = Some (Handle HDecryptor (n + 2)), sk_h = Some (Handle HSecKey (n + 3))\<rparr>\<rparr>"

definition sampleKeys :: Keys where
  "sampleKeys = \<lparr>k_id = ''id'', k_dim = 2, k_rmp = Some (sampleBundle rmpKind 0),
     k_mm = Some (sampleBundle mmKind 4)\<rparr>"

definition sampleClientWorld :: client_world where
  "sampleClientWorld = \<lparr>tick = 8, nodes = [], c_log = map Created
       [Handle HEncryptor 0, Handle HKeyPack 1, Handle HDecryptor 2, Handle HSecKey 3,
        Handle HEncryptor 4, Handle HKeyPack 5, Handle HDecryptor 6, Handle HSecKey 7],
     k_objs = [sampleKeys], cl = \<lparr>cl_conn = True, cl_keys = Some 0, cl_centroids = None, cl_loaded = False\<rparr>,
     sent = []\<rparr>"

definition sampleDirectory :: "string list \<Rightarrow> bool \<Rightarrow> CellRow \<Rightarrow> MetadataEntry" where
  "sampleDirectory scope flat row =
     \<lparr>me_id = (if flat then ''flat'' else ''clustered''), me_metadata = ''{}''\<rparr>"

definition sampleServer :: client_env where
  "sampleServer = \<lparr>os_fault = (\<lambda>k. None), os_partial = (\<lambda>k. 0), os_tempname = (\<lambda>k. ''t''),
     c_status = (\<lambda>k. 0), c_message = (\<lambda>k. []), c_destroyed = (\<lambda>m. m), c_blob = (\<lambda>k. [of_nat k]), c_count = (\<lambda>k. 2),
     c_scores = (\<lambda>k. [Num (of_nat (k mod 5)), Num 1]), c_partial = (\<lambda>k. None), km_wrap = (\<lambda>kind i b. 1 # b),
     km_unwrap = (\<lambda>kind b. Some b),
     sv_info = (\<lambda>hist t q. Inr \<lparr>gi_version = ''1'', gi_commit = [], gi_build_date = [], gi_engine_status = ''ok'',
       gi_engine_probe_dim = 2, gi_ready = True, gi_registered_keys = [], gi_stats = None\<rparr>),
     sv_centroids = (\<lambda>hist t q. Inr (map Inr (ChunkHeader sampleHeader # sampleFrames))),
     sv_insert = (\<lambda>hist t q. Inr ()),
     sv_search = (\<lambda>hist t q. Inr \<lparr>sp_tomb_epoch = 0,
       sp_rmp = [\<lparr>cr_cell_id = 7, cr_blob = [1], cr_dead = [2]\<rparr>],
       sp_mm = [\<lparr>cr_cell_id = 3, cr_blob = [1], cr_dead = []\<rparr>]\<rparr>),
     sv_metadata = (\<lambda>hist t q. Inr \<lparr>mp_rmp_entries = map (sampleDirectory (mq_filter_scope q) True) (mq_rmp_rows q),
       mp_mm_entries = map (sampleDirectory (mq_filter_scope q) False) (mq_mm_rows q)\<rparr>),
     sv_delete = (\<lambda>hist t q. Inr ()), sv_update_tags = (\<lambda>hist t q. Inr ()),
     sv_retag_all = (\<lambda>hist t q. Inr \<lparr>ch_changed = 0\<rparr>), sv_remove_tag = (\<lambda>hist t q. Inr \<lparr>ch_changed = 0\<rparr>),
     sv_register_open = (\<lambda>hist t q. Inr ()), sv_register_send = (\<lambda>hist t q. Inr ()),
     sv_register_close = (\<lambda>hist t q. Inr ()),
     conn_close = (\<lambda>k. None), ctx_done = (\<lambda>k. None), new_uuid = (\<lambda>k. ''uuid''), rd_size = (\<lambda>k. 1),
     rpc_status = plain_grpc\<rparr>"

lemma sampleServer_calls:
  "c_status sampleServer k = 0" "c_count sampleServer k = 2"
  "c_scores sampleServer k = [Num (of_nat (k mod 5)), Num 1]"
  "c_blob sampleServer k = [of_nat k]" "ctx_done sampleServer k = None" "new_uuid sampleServer k = ''uuid''"
  "sv_insert sampleServer hist k q = Inr ()" "rpc_status sampleServer = plain_grpc"
  by (simp_all add: sampleServer_def)

lemma sampleServer_answer: "centroidsAnswer sampleServer hist t = Inr sampleSet"
proof -
  have "readCentroidSet (map Inr (ChunkHeader sampleHeader # sampleFrames)) = Inr sampleSet"
    by (simp add: readCentroidSet_def sampleHeader_def sampleFrames_def sampleSet_def emptyCentroidSet_def)
  moreover have "sv_centroids sampleServer hist t () = Inr (map Inr (ChunkHeader sampleHeader # sampleFrames))"
    by (simp only: sampleServer_def client_env.simps)
  ultimately show ?thesis by (simp only: centroidsAnswer_def sum.case)
qed

end
