(* ===== verification/Search_Path.thy ===== *)
theory Search_Path
  imports Client_Core "HOL-Library.Sublist"
begin

unbundle bit_operations_syntax

text \<open>
  \<open>client.go\<close>, the search: candidates from the decrypted cells, their ranking, the
  resolution of ranked positions to ids in windows, the deduplication across tiers and the
  truncation to \<open>topK\<close>.
\<close>

section \<open>Candidates\<close>

text \<open>\<open>row / 8\<close> and \<open>row % 8\<close> truncate in Go; the row is not negative there.\<close>

definition isDead :: "bytes \<Rightarrow> int \<Rightarrow> bool" where
  "isDead dead row =
     (if row < 0 then False
      else (let b = row div 8 in
        if b \<ge> int (length dead) then False
        else (dead ! nat b) AND push_bit (nat (row mod 8)) 1 \<noteq> 0))"

record cand =
  cd_flat :: bool
  cd_cell :: uint32
  cd_row :: int
  cd_score :: gofloat

fun appendLoop :: "nat \<Rightarrow> cand list \<Rightarrow> bool \<Rightarrow> uint32 \<Rightarrow> gofloat list \<Rightarrow> bytes \<Rightarrow> cand list" where
  "appendLoop i dst flat cellID [] dead = dst"
| "appendLoop i dst flat cellID (s # ss) dead =
     (if isDead dead (int i) then appendLoop (Suc i) dst flat cellID ss dead
      else appendLoop (Suc i)
        (dst @ [\<lparr>cd_flat = flat, cd_cell = cellID, cd_row = int i, cd_score = s\<rparr>]) flat cellID ss dead)"

definition appendCands :: "cand list \<Rightarrow> bool \<Rightarrow> uint32 \<Rightarrow> gofloat list \<Rightarrow> bytes \<Rightarrow> cand list" where
  "appendCands dst flat cellID scores dead = appendLoop 0 dst flat cellID scores dead"

definition outranks :: "cand \<Rightarrow> cand \<Rightarrow> bool" where
  "outranks a b = fgt (cd_score a) (cd_score b)"

text \<open>One of the two loops over the cells of a tier.\<close>

fun decryptCells :: "(bytes \<Rightarrow> (err, 'w, gofloat list) io) \<Rightarrow> string \<Rightarrow> bool \<Rightarrow> cand list \<Rightarrow>
    CellResult list \<Rightarrow> (err, 'w, cand list) io" where
  "decryptCells decrypt tier flat cands [] = ret cands"
| "decryptCells decrypt tier flat cands (cell # cells) =
     andThen (mapErr (\<lambda>e. Errorf [Lit ''runespace: decrypt '', Lit tier, Lit '' cell '',
         Dec (uint (cr_cell_id cell)), Lit '': '', Wrap e]) (decrypt (cr_blob cell))) (\<lambda>scores.
     decryptCells decrypt tier flat
       (appendCands cands flat (cr_cell_id cell) scores (cr_dead cell)) cells)"

definition collectCands :: "'e client_env_scheme \<Rightarrow> keysRef \<Rightarrow> SearchResponse \<Rightarrow>
    (err, 'w client_world_scheme, cand list) io" where
  "collectCands E keys resp =
     andThen (decryptCells (DecryptResult E keys) ''flat'' True [] (sp_rmp resp)) (\<lambda>cands.
     decryptCells (DecryptClustered E keys) ''cluster'' False cands (sp_mm resp))"

section \<open>Resolution\<close>

definition cellRow :: "cand \<Rightarrow> CellRow" where
  "cellRow c = \<lparr>row_cell_id = cd_cell c, row_row = cd_row c\<rparr>"

fun splitRows :: "cand list \<Rightarrow> CellRow list \<Rightarrow> CellRow list \<Rightarrow> CellRow list \<times> CellRow list" where
  "splitRows [] rmpRows mmRows = (rmpRows, mmRows)"
| "splitRows (p # ps) rmpRows mmRows =
     (if cd_flat p then splitRows ps (rmpRows @ [cellRow p]) mmRows
      else splitRows ps rmpRows (mmRows @ [cellRow p]))"

definition entryAt :: "MetadataEntry list \<Rightarrow> nat \<Rightarrow> string \<times> string" where
  "entryAt es i = (if i < length es then (me_id (es ! i), me_metadata (es ! i)) else ([], []))"

fun zipEntries :: "cand list \<Rightarrow> nat \<Rightarrow> nat \<Rightarrow> MetadataEntry list \<Rightarrow> MetadataEntry list \<Rightarrow>
    (string \<times> string) list" where
  "zipEntries [] ri mi rmpEntries mmEntries = []"
| "zipEntries (p # ps) ri mi rmpEntries mmEntries =
     (if cd_flat p then entryAt rmpEntries ri # zipEntries ps (Suc ri) mi rmpEntries mmEntries
      else entryAt mmEntries mi # zipEntries ps ri (Suc mi) rmpEntries mmEntries)"

definition metadataRequest :: "cand list \<Rightarrow> string list \<Rightarrow> GetMetadataRequest" where
  "metadataRequest positions scope =
     (case splitRows positions [] [] of (rmpRows, mmRows) \<Rightarrow>
       \<lparr>mq_rmp_rows = rmpRows, mq_mm_rows = mmRows, mq_filter_scope = scope\<rparr>)"

definition resolvePositions :: "'e client_env_scheme \<Rightarrow> cand list \<Rightarrow> string list \<Rightarrow>
    (err, 'w client_world_scheme, (string \<times> string) list) io" where
  "resolvePositions E positions scope =
     andThen (invoke (sv_metadata E) RpcGetMetadata (metadataRequest positions scope)) (\<lambda>resp.
     ret (zipEntries positions 0 0 (mp_rmp_entries resp) (mp_mm_entries resp)))"

section \<open>Merging\<close>

record Match =
  m_id :: string
  m_metadata :: string
  m_cluster :: int
  m_row :: int
  m_score :: gofloat

text \<open>\<open>int32(pos.cellID)\<close> reinterprets the 32 bits as a signed number.\<close>

definition matchOf :: "cand \<Rightarrow> string \<Rightarrow> string \<Rightarrow> Match" where
  "matchOf pos i md = \<lparr>m_id = i, m_metadata = md,
     m_cluster = (if cd_flat pos then FlatClusterID else sint (cd_cell pos)),
     m_row = cd_row pos, m_score = cd_score pos\<rparr>"

text \<open>
  The loop over one resolved window. The first component says that \<open>topK\<close> was reached,
  where the code returns.
\<close>

fun mergeWindow :: "int \<Rightarrow> Match list \<Rightarrow> string set \<Rightarrow> (cand \<times> string \<times> string) list \<Rightarrow>
    bool \<times> Match list \<times> string set" where
  "mergeWindow topK out seen [] = (False, out, seen)"
| "mergeWindow topK out seen ((pos, i, md) # hits) =
     (if i = [] then mergeWindow topK out seen hits
      else if i \<in> seen then mergeWindow topK out seen hits
      else if topK > 0 \<and> int (length (out @ [matchOf pos i md])) \<ge> topK
      then (True, out @ [matchOf pos i md], insert i seen)
      else mergeWindow topK (out @ [matchOf pos i md]) (insert i seen) hits)"

definition windowSize :: "int \<Rightarrow> nat \<Rightarrow> nat" where
  "windowSize topK n =
     (if topK > 0
      then (let w = wrap64 (topK * 2) in if w > 0 \<and> w < int n then nat w else n)
      else n)"

text \<open>
  The loop \<open>for cursor := 0; cursor < len(cands); cursor += batch\<close>: \<open>cands\<close> here is what
  lies beyond the cursor. The window size is zero only when there are no candidates.
\<close>

function resolveLoop :: "'e client_env_scheme \<Rightarrow> string list \<Rightarrow> int \<Rightarrow> nat \<Rightarrow> cand list \<Rightarrow> Match list \<Rightarrow>
    string set \<Rightarrow> (err, 'w client_world_scheme, Match list) io" where
  "resolveLoop E scope topK batch cands out seen =
     (if cands = [] \<or> batch = 0 then ret out
      else andThen (resolvePositions E (take batch cands) scope) (\<lambda>hits.
        case mergeWindow topK out seen (zip (take batch cands) hits) of
          (done, out', seen') \<Rightarrow>
            if done then ret out'
            else resolveLoop E scope topK batch (drop batch cands) out' seen'))"
  by pat_completeness auto
termination
  by (relation "measure (\<lambda>(E, scope, topK, batch, cands, out, seen). length cands)") auto

declare resolveLoop.simps [simp del]

section \<open>Search\<close>

definition searchAndResolve :: "'e client_env_scheme \<Rightarrow> SearchRequest \<Rightarrow> keysRef \<Rightarrow> int \<Rightarrow>
    (err, 'w client_world_scheme, Match list) io" where
  "searchAndResolve E req keys topK =
     andThen (invoke (sv_search E) RpcSearch req) (\<lambda>resp.
     andThen (collectCands E keys resp) (\<lambda>cands.
     let ranked = sliceStable outranks cands in
     resolveLoop E (sr_filter_scope req) topK (windowSize topK (length ranked)) ranked [] {}))"

type_synonym SearchOption = "SearchRequest \<Rightarrow> SearchRequest"

definition WithScope :: "string list \<Rightarrow> SearchOption" where
  "WithScope scope r = r\<lparr>sr_filter_scope := scope\<rparr>"

fun applySearchOptions :: "SearchOption list \<Rightarrow> SearchRequest \<Rightarrow> SearchRequest" where
  "applySearchOptions [] req = req"
| "applySearchOptions (opt # opts) req = applySearchOptions opts (opt req)"

definition dimMismatch :: "int \<Rightarrow> int \<Rightarrow> err" where
  "dimMismatch got want =
     Errorf [Wrap (Sentinel ErrDimMismatch), Lit '': got '', Dec got, Lit '', want '', Dec want]"

text \<open>
  The guards \<open>Insert\<close> and \<open>Search\<close> share: connection, keys, dimension. The nil pointer is
  the reference at which there is no key set.
\<close>

definition withKeys :: "gofloat list \<Rightarrow> (keysRef \<Rightarrow> (err, 'w client_world_scheme, 'a) io) \<Rightarrow>
    (err, 'w client_world_scheme, 'a) io" where
  "withKeys vec k =
     andThen (gets (\<lambda>w. (cl_conn (cl w), cl_keys (cl w), keysAt w (cl_keys (cl w))))) (\<lambda>(conn, ref, keys).
     if \<not> conn then throw (Sentinel ErrClientClosed)
     else (case keys of
         None \<Rightarrow> throw (Sentinel ErrKeysNotRegistered)
       | Some ks \<Rightarrow>
           if int (length vec) \<noteq> KeysDim ks then throw (dimMismatch (int (length vec)) (KeysDim ks))
           else k ref))"

definition Search :: "'e client_env_scheme \<Rightarrow> gofloat list \<Rightarrow> int \<Rightarrow> SearchOption list \<Rightarrow>
    (err, 'w client_world_scheme, Match list) io" where
  "Search E vec topK opts =
     withKeys vec (\<lambda>keys.
       searchAndResolve E
         (applySearchOptions opts \<lparr>sr_query = l2normalize vec, sr_filter_scope = []\<rparr>) keys topK)"

section \<open>The dead-row bitmap\<close>

text \<open>The wire format: bit \<open>p\<close> of the rows is bit \<open>p mod 8\<close>, least significant first, of byte \<open>p div 8\<close>.\<close>

fun packRows :: "nat \<Rightarrow> bool list \<Rightarrow> bytes" where
  "packRows 0 bs = []"
| "packRows (Suc n) bs = horner_sum of_bool 2 (take 8 bs) # packRows n (drop 8 bs)"

lemma length_packRows [simp]: "length (packRows n bs) = n"
  by (induction n arbitrary: bs) auto

lemma packRows_bit:
  "b < n \<Longrightarrow> j < 8 \<Longrightarrow> bit (packRows n bs ! b) j \<longleftrightarrow> 8 * b + j < length bs \<and> bs ! (8 * b + j)"
proof (induction n arbitrary: b bs)
  case (Suc n)
  show ?case
  proof (cases b)
    case 0
    then show ?thesis using Suc.prems by (auto simp: bit_horner_sum_bit_word_iff)
  next
    case (Suc b')
    then show ?thesis using Suc.IH[of b' "drop 8 bs"] Suc.prems by (auto simp: algebra_simps)
  qed
qed simp

lemma isDead_bit:
  "isDead dead row \<longleftrightarrow> 0 \<le> row \<and> row < 8 * int (length dead) \<and> bit (dead ! nat (row div 8)) (nat (row mod 8))"
proof -
  have "x AND push_bit k 1 \<noteq> 0 \<longleftrightarrow> bit x k" for x :: byte and k
    by (simp add: push_bit_of_1 and_exp_eq_0_iff_not_bit)
  moreover have "row div 8 \<ge> int (length dead) \<longleftrightarrow> row \<ge> 8 * int (length dead)" by linarith
  ultimately show ?thesis by (auto simp: isDead_def Let_def)
qed

lemma isDead_packRows:
  "length bs \<le> 8 * n \<Longrightarrow> isDead (packRows n bs) (int i) \<longleftrightarrow> i < length bs \<and> bs ! i"
proof -
  assume len: "length bs \<le> 8 * n"
  have d: "nat (int i div 8) = i div 8" "nat (int i mod 8) = i mod 8" by (simp_all add: nat_div_distrib nat_mod_distrib)
  have "bit (packRows n bs ! (i div 8)) (i mod 8) \<longleftrightarrow> i < length bs \<and> bs ! i" if "i < 8 * n"
    using packRows_bit[of "i div 8" n "i mod 8" bs] that by (simp add: less_mult_imp_div_less mult.commute)
  then show ?thesis using len by (auto simp: isDead_bit d)
qed

section \<open>Candidates are the live rows\<close>

definition liveRows :: "bool \<Rightarrow> uint32 \<Rightarrow> gofloat list \<Rightarrow> bytes \<Rightarrow> cand list" where
  "liveRows flat cellID scores dead =
     map (\<lambda>i. \<lparr>cd_flat = flat, cd_cell = cellID, cd_row = int i, cd_score = scores ! i\<rparr>)
       (filter (\<lambda>i. \<not> isDead dead (int i)) [0..<length scores])"

lemma appendLoop_live:
  "appendLoop i dst flat cellID ss dead = dst @
     map (\<lambda>j. \<lparr>cd_flat = flat, cd_cell = cellID, cd_row = int j, cd_score = ss ! (j - i)\<rparr>)
       (filter (\<lambda>j. \<not> isDead dead (int j)) [i..<i + length ss])"
proof (induction ss arbitrary: i dst)
  case (Cons s ss)
  have "[i..<i + length (s # ss)] = i # [Suc i..<Suc i + length ss]"
    using upt_conv_Cons[of i "i + length (s # ss)"] by (simp del: upt_Suc)
  moreover have "map (\<lambda>j. \<lparr>cd_flat = flat, cd_cell = cellID, cd_row = int j, cd_score = ss ! (j - Suc i)\<rparr>)
       (filter (\<lambda>j. \<not> isDead dead (int j)) [Suc i..<Suc i + length ss]) =
     map (\<lambda>j. \<lparr>cd_flat = flat, cd_cell = cellID, cd_row = int j, cd_score = (s # ss) ! (j - i)\<rparr>)
       (filter (\<lambda>j. \<not> isDead dead (int j)) [Suc i..<Suc i + length ss])"
    by (auto simp: nth_Cons')
  ultimately show ?case using Cons.IH by simp
qed simp

lemma appendCands_live: "appendCands dst flat cellID scores dead = dst @ liveRows flat cellID scores dead"
  using appendLoop_live[of 0] by (simp add: appendCands_def liveRows_def)

text \<open>What a tier contributes: the cells of the response, each with its decrypted scores.\<close>

definition tierCands :: "bool \<Rightarrow> (CellResult \<times> gofloat list) list \<Rightarrow> cand list" where
  "tierCands flat cells =
     concat (map (\<lambda>(c, scores). liveRows flat (cr_cell_id c) scores (cr_dead c)) cells)"

lemma decryptCells_InrD:
  assumes "decryptCells decrypt tier flat cands cells w = (Inr out, w')"
  shows "\<exists>scoress. length scoress = length cells \<and> out = cands @ tierCands flat (zip cells scoress)"
  using assms
proof (induction cells arbitrary: cands w)
  case Nil
  then show ?case by (auto simp: ret_def tierCands_def)
next
  case (Cons c cells)
  from Cons.prems obtain scores w1 where
    "decryptCells decrypt tier flat (appendCands cands flat (cr_cell_id c) scores (cr_dead c)) cells w1 = (Inr out, w')"
    by (auto elim: andThen_InrE)
  from Cons.IH[OF this] obtain ss where ss: "length ss = length cells"
    "out = (cands @ liveRows flat (cr_cell_id c) scores (cr_dead c)) @ tierCands flat (zip cells ss)"
    by (auto simp: appendCands_live)
  then show ?case by (intro exI[of _ "scores # ss"]) (simp add: tierCands_def)
qed

lemma collectCands_InrD:
  assumes "collectCands E keys resp w = (Inr cands, w')"
  obtains flats clusters where "length flats = length (sp_rmp resp)" "length clusters = length (sp_mm resp)"
    "cands = tierCands True (zip (sp_rmp resp) flats) @ tierCands False (zip (sp_mm resp) clusters)"
proof -
  from assms obtain fs w1 where
    f: "decryptCells (DecryptResult E keys) ''flat'' True [] (sp_rmp resp) w = (Inr fs, w1)" and
    c: "decryptCells (DecryptClustered E keys) ''cluster'' False fs (sp_mm resp) w1 = (Inr cands, w')"
    unfolding collectCands_def by (auto elim: andThen_InrE)
  from decryptCells_InrD[OF f] decryptCells_InrD[OF c] show ?thesis using that by auto
qed

interpretation rank: preference outranks "\<lambda>c. cd_score c \<noteq> NaN"
  by unfold_locales
    (auto simp: outranks_def dest: score.better_irrefl score.better_trans score.better_cotrans)

section \<open>Merging is deduplication and truncation\<close>

type_synonym hit = "cand \<times> string \<times> string"

definition hitMatch :: "hit \<Rightarrow> Match" where
  "hitMatch h = (case h of (pos, i, md) \<Rightarrow> matchOf pos i md)"

text \<open>The resolved hits whose id is new: unresolved positions and repeated ids are dropped.\<close>

fun keepFirst :: "string set \<Rightarrow> hit list \<Rightarrow> hit list" where
  "keepFirst seen [] = []"
| "keepFirst seen ((pos, i, md) # hits) =
     (if i = [] \<or> i \<in> seen then keepFirst seen hits else (pos, i, md) # keepFirst (insert i seen) hits)"

definition firstK :: "int \<Rightarrow> 'a list \<Rightarrow> 'a list" where
  "firstK topK xs = (if topK > 0 then take (nat topK) xs else xs)"

text \<open>The abstract search result.\<close>

definition topHits :: "int \<Rightarrow> hit list \<Rightarrow> Match list" where
  "topHits topK hits = map hitMatch (firstK topK (keepFirst {} hits))"

definition roomLeft :: "int \<Rightarrow> 'a list \<Rightarrow> bool" where
  "roomLeft topK out \<longleftrightarrow> topK \<le> 0 \<or> int (length out) < topK"

definition idsOf :: "hit list \<Rightarrow> string set" where
  "idsOf hits = {i. i \<noteq> [] \<and> (\<exists>pos md. (pos, i, md) \<in> set hits)}"

lemma idsOf_simps [simp]:
  "idsOf [] = {}"
  "idsOf ((pos, i, md) # hits) = (if i = [] then idsOf hits else insert i (idsOf hits))"
  by (auto simp: idsOf_def)

lemma keepFirst_append:
  "keepFirst seen (xs @ ys) = keepFirst seen xs @ keepFirst (seen \<union> idsOf xs) ys"
  by (induction seen xs rule: keepFirst.induct) (auto simp: insert_absorb)

lemma firstK_room: "roomLeft topK xs \<Longrightarrow> firstK topK xs = xs"
  by (auto simp: roomLeft_def firstK_def)

lemma roomLeft_prefix: "roomLeft topK (xs @ ys) \<Longrightarrow> roomLeft topK xs"
  by (auto simp: roomLeft_def)

lemma keepFirst_skip: "i = [] \<or> i \<in> seen \<Longrightarrow> keepFirst seen ((pos, i, md) # hits) = keepFirst seen hits"
  by simp

lemma mergeWindow_skip:
  "i = [] \<or> i \<in> seen \<Longrightarrow> mergeWindow topK out seen ((pos, i, md) # hits) = mergeWindow topK out seen hits"
  by auto

text \<open>The loop's result from a given point: whether it returned, what, and the ids seen.\<close>

definition mergesTo :: "int \<Rightarrow> Match list \<Rightarrow> string set \<Rightarrow> bool \<times> Match list \<times> string set \<Rightarrow> bool" where
  "mergesTo topK kept seen r \<longleftrightarrow>
     fst r = (\<not> roomLeft topK kept) \<and> fst (snd r) = firstK topK kept \<and>
     (roomLeft topK kept \<longrightarrow> snd (snd r) = seen)"

lemma mergeWindow_spec:
  "roomLeft topK out \<Longrightarrow>
    mergesTo topK (out @ map hitMatch (keepFirst seen hits)) (seen \<union> idsOf hits)
      (mergeWindow topK out seen hits)"
proof (induction hits arbitrary: out seen)
  case Nil
  then show ?case by (simp add: mergesTo_def firstK_room)
next
  case (Cons h hits)
  obtain pos i md where h: "h = (pos, i, md)" by (cases h)
  let ?out = "out @ [matchOf pos i md]"
  show ?case
  proof (cases "i = [] \<or> i \<in> seen")
    case True
    then have "seen \<union> idsOf (h # hits) = seen \<union> idsOf hits" by (auto simp: h)
    with Cons.IH[OF Cons.prems, of seen] True show ?thesis
      by (simp only: h mergeWindow_skip keepFirst_skip)
  next
    case new: False
    show ?thesis
    proof (cases "roomLeft topK ?out")
      case True
      then have "\<not> (topK > 0 \<and> int (length ?out) \<ge> topK)" by (auto simp: roomLeft_def)
      moreover have "seen \<union> idsOf (h # hits) = insert i seen \<union> idsOf hits" using new by (simp add: h)
      ultimately show ?thesis using Cons.IH[OF True, of "insert i seen"] new by (auto simp: h hitMatch_def)
    next
      case False
      then have "topK > 0 \<and> int (length ?out) \<ge> topK" and "nat topK = Suc (length out)"
        using Cons.prems by (auto simp: roomLeft_def)
      with new show ?thesis by (simp add: h hitMatch_def mergesTo_def roomLeft_def firstK_def)
    qed
  qed
qed

lemma keepFirst_distinct:
  "distinct (map (fst \<circ> snd) (keepFirst seen hits)) \<and>
   set (map (fst \<circ> snd) (keepFirst seen hits)) = idsOf hits - seen"
proof (induction seen hits rule: keepFirst.induct)
  case (2 seen pos i md hits)
  then show ?case by (cases "i = [] \<or> i \<in> seen") auto
qed simp

lemma keepFirst_subseq: "subseq (keepFirst seen hits) hits"
  by (induction seen hits rule: keepFirst.induct) auto

section \<open>Resolution is aligned to the positions\<close>

lemma splitRows_filter:
  "splitRows ps a b =
    (a @ map cellRow (filter cd_flat ps), b @ map cellRow (filter (\<lambda>p. \<not> cd_flat p) ps))"
  by (induction ps arbitrary: a b) auto

lemma length_zipEntries [simp]: "length (zipEntries ps ri mi es fs) = length ps"
  by (induction ps arbitrary: ri mi) auto

text \<open>
  What the protocol documents of \<open>GetMetadata\<close>: one entry per requested row of each tier,
  in the order of the rows. \<open>\<rho>\<close> says what the server's row-to-id maps hold under a scope;
  an unknown or retired position has an entry with an empty id.
\<close>

type_synonym directory = "string list \<Rightarrow> bool \<Rightarrow> CellRow \<Rightarrow> MetadataEntry"

definition resolvesBy :: "directory \<Rightarrow> 'e client_env_scheme \<Rightarrow> bool" where
  "resolvesBy \<rho> E \<longleftrightarrow> (\<forall>hist t q. sv_metadata E hist t q =
     Inr \<lparr>mp_rmp_entries = map (\<rho> (mq_filter_scope q) True) (mq_rmp_rows q),
       mp_mm_entries = map (\<rho> (mq_filter_scope q) False) (mq_mm_rows q)\<rparr>)"

definition resolvedAs :: "directory \<Rightarrow> string list \<Rightarrow> cand \<Rightarrow> string \<times> string" where
  "resolvedAs \<rho> scope p =
     (me_id (\<rho> scope (cd_flat p) (cellRow p)), me_metadata (\<rho> scope (cd_flat p) (cellRow p)))"

lemma zipEntries_aligned:
  "length es = ri \<Longrightarrow> length fs = mi \<Longrightarrow>
    zipEntries ps ri mi (es @ map (\<rho> scope True) (map cellRow (filter cd_flat ps)))
      (fs @ map (\<rho> scope False) (map cellRow (filter (\<lambda>p. \<not> cd_flat p) ps)))
    = map (resolvedAs \<rho> scope) ps"
proof (induction ps arbitrary: ri mi es fs)
  case (Cons p ps)
  show ?case
  proof (cases "cd_flat p")
    case True
    then show ?thesis
      using Cons.IH[of "es @ [\<rho> scope True (cellRow p)]" "Suc ri" fs mi] Cons.prems
      by (auto simp: entryAt_def resolvedAs_def nth_append)
  next
    case False
    then show ?thesis
      using Cons.IH[of es ri "fs @ [\<rho> scope False (cellRow p)]" "Suc mi"] Cons.prems
      by (auto simp: entryAt_def resolvedAs_def nth_append)
  qed
qed simp

lemma resolvePositions_aligned:
  assumes "resolvesBy \<rho> E"
  shows "resolvePositions E ps scope w = (Inr (map (resolvedAs \<rho> scope) ps),
    w\<lparr>tick := Suc (tick w), sent := sent w @ [RpcGetMetadata (metadataRequest ps scope)]\<rparr>)"
  using assms zipEntries_aligned[of "[]" 0 "[]" 0 ps \<rho> scope]
  by (simp add: resolvePositions_def andThen_def invoke_def run_simps resolvesBy_def metadataRequest_def
      splitRows_filter)

lemma resolvePositions_cases:
  assumes "resolvePositions E ps scope w = (Inr hits, w')"
  shows "length hits = length ps"
  using assms by (auto simp: resolvePositions_def ret_def elim!: andThen_InrE)

section \<open>The loop over the windows\<close>

lemma resolveLoop_step:
  assumes "cands \<noteq> []" and "batch \<noteq> 0"
  shows "resolveLoop E scope topK batch cands out seen w =
    (case resolvePositions E (take batch cands) scope w of
       (Inl e, w1) \<Rightarrow> (Inl e, w1)
     | (Inr hits, w1) \<Rightarrow>
         (case mergeWindow topK out seen (zip (take batch cands) hits) of (done, out', seen') \<Rightarrow>
           if done then (Inr out', w1) else resolveLoop E scope topK batch (drop batch cands) out' seen' w1))"
  using assms by (subst resolveLoop.simps) (auto simp: andThen_def run_simps split: prod.splits sum.splits)

lemma resolveLoop_end: "cands = [] \<Longrightarrow> resolveLoop E scope topK batch cands out seen w = (Inr out, w)"
  by (simp add: resolveLoop.simps ret_def)

lemma zip_take_length: "length ys \<le> n \<Longrightarrow> zip (take n xs) ys = zip xs ys"
  by (metis length_zip min.coboundedI2 take_all take_zip)

text \<open>Whatever the server answers, the result is the abstract one for those answers.\<close>

lemma resolveLoop_InrD:
  "resolveLoop E scope topK batch cands out seen w = (Inr ms, w') \<Longrightarrow> roomLeft topK out \<Longrightarrow>
    cands = [] \<or> batch \<noteq> 0 \<Longrightarrow>
    \<exists>answers. length answers \<le> length cands \<and>
      ms = firstK topK (out @ map hitMatch (keepFirst seen (zip cands answers))) \<and>
      (length answers = length cands \<or> \<not> roomLeft topK ms)"
proof (induction E scope topK batch cands out seen arbitrary: w rule: resolveLoop.induct)
  case (1 E scope topK batch cands out seen)
  show ?case
  proof (cases "cands = []")
    case True
    with 1(2,3) show ?thesis by (auto simp: resolveLoop_end firstK_room)
  next
    case False
    with 1(4) have b: "batch \<noteq> 0" by simp
    let ?win = "take batch cands"
    from 1(2) False b obtain hits w1 where hits: "resolvePositions E ?win scope w = (Inr hits, w1)"
      by (auto simp: resolveLoop_step split: prod.splits sum.splits)
    have len: "length hits = length ?win" using hits by (rule resolvePositions_cases)
    obtain fin out' seen' where merged: "mergeWindow topK out seen (zip ?win hits) = (fin, out', seen')"
      by (metis prod_cases3)
    let ?kept = "out @ map hitMatch (keepFirst seen (zip ?win hits))"
    have spec: "fin = (\<not> roomLeft topK ?kept)" "out' = firstK topK ?kept"
      "roomLeft topK ?kept \<Longrightarrow> seen' = seen \<union> idsOf (zip ?win hits)"
      using mergeWindow_spec[OF 1(3), of seen "zip ?win hits"] by (simp_all add: merged mergesTo_def)
    have win: "zip ?win hits = zip cands hits" using len by (simp add: zip_take_length)
    show ?thesis
    proof (cases fin)
      case True
      then have "ms = out'" using 1(2) False b hits merged by (simp add: resolveLoop_step)
      moreover have "\<not> roomLeft topK out'" using True spec by (auto simp: roomLeft_def firstK_def)
      ultimately show ?thesis using len win spec(2) by (intro exI[of _ hits]) auto
    next
      case more: False
      then have rest: "resolveLoop E scope topK batch (drop batch cands) out' seen' w1 = (Inr ms, w')"
        using 1(2) False b hits merged by (simp add: resolveLoop_step)
      have room: "roomLeft topK ?kept" and out': "out' = ?kept" using more spec by (auto simp: firstK_room)
      obtain answers where a: "length answers \<le> length (drop batch cands)"
        "ms = firstK topK (out' @ map hitMatch (keepFirst seen' (zip (drop batch cands) answers)))"
        "length answers = length (drop batch cands) \<or> \<not> roomLeft topK ms"
        using 1(1)[OF _ merged[symmetric] refl more rest] False b room out' by auto
      have "zip cands (hits @ answers) = zip ?win hits @ zip (drop batch cands) answers"
      proof (cases "length cands \<le> batch")
        case True
        then show ?thesis using a(1) len by simp
      next
        case False
        then show ?thesis using len by (simp add: zip_append2)
      qed
      then have "ms = firstK topK (out @ map hitMatch (keepFirst seen (zip cands (hits @ answers))))"
        using a(2) out' spec(3)[OF room] by (simp add: keepFirst_append)
      then show ?thesis using a len by (intro exI[of _ "hits @ answers"]) auto
    qed
  qed
qed

text \<open>Against a server that answers as documented, the result is the abstract one for its directory.\<close>

lemma resolveLoop_aligned:
  "resolvesBy \<rho> E \<Longrightarrow> roomLeft topK out \<Longrightarrow> cands = [] \<or> batch \<noteq> 0 \<Longrightarrow>
    fst (resolveLoop E scope topK batch cands out seen w) =
      Inr (firstK topK (out @ map hitMatch (keepFirst seen (map (\<lambda>p. (p, resolvedAs \<rho> scope p)) cands))))"
proof (induction E scope topK batch cands out seen arbitrary: w rule: resolveLoop.induct)
  case (1 E scope topK batch cands out seen)
  show ?case
  proof (cases "cands = []")
    case True
    with 1(3) show ?thesis by (simp add: resolveLoop_end firstK_room)
  next
    case False
    with 1(4) have b: "batch \<noteq> 0" by simp
    let ?hit = "\<lambda>p. (p, resolvedAs \<rho> scope p)"
    let ?win = "take batch cands"
    have zipped: "zip ?win (map (resolvedAs \<rho> scope) ?win) = map ?hit ?win"
      by (simp add: zip_map2 zip_same_conv_map)
    obtain fin out' seen' where merged: "mergeWindow topK out seen (map ?hit ?win) = (fin, out', seen')"
      by (metis prod_cases3)
    have merged': "mergeWindow topK out seen (zip ?win (map (resolvedAs \<rho> scope) ?win)) = (fin, out', seen')"
      using merged by (simp only: zipped)
    let ?kept = "out @ map hitMatch (keepFirst seen (map ?hit ?win))"
    have spec: "fin = (\<not> roomLeft topK ?kept)" "out' = firstK topK ?kept"
      "roomLeft topK ?kept \<Longrightarrow> seen' = seen \<union> idsOf (map ?hit ?win)"
      using mergeWindow_spec[OF 1(3), of seen "map ?hit ?win"] by (simp_all add: merged mergesTo_def)
    have all: "keepFirst seen (map ?hit cands) =
        keepFirst seen (map ?hit ?win) @ keepFirst (seen \<union> idsOf (map ?hit ?win)) (map ?hit (drop batch cands))"
      by (metis append_take_drop_id keepFirst_append map_append)
    let ?w1 = "w\<lparr>tick := Suc (tick w), sent := sent w @ [RpcGetMetadata (metadataRequest ?win scope)]\<rparr>"
    have step: "resolveLoop E scope topK batch cands out seen w =
        (if fin then (Inr out', ?w1) else resolveLoop E scope topK batch (drop batch cands) out' seen' ?w1)"
      using False b by (simp add: resolveLoop_step resolvePositions_aligned[OF 1(2)] zipped merged)
    show ?thesis
    proof (cases fin)
      case True
      then have "nat topK \<le> length ?kept" and "topK > 0" using spec(1) by (auto simp: roomLeft_def)
      then have "firstK topK (?kept @ zs) = firstK topK ?kept" for zs by (simp add: firstK_def)
      with True show ?thesis by (simp add: step spec(2) all)
    next
      case more: False
      then have room: "roomLeft topK ?kept" and out': "out' = ?kept" using spec by (auto simp: firstK_room)
      have "fst (resolveLoop E scope topK batch (drop batch cands) out' seen' ?w1) =
        Inr (firstK topK (out' @ map hitMatch (keepFirst seen' (map ?hit (drop batch cands)))))"
        by (rule 1(1)[OF _ merged'[symmetric] refl more 1(2)]) (use False b room out' in auto)
      with more show ?thesis by (simp add: step out' spec(3)[OF room] all)
    qed
  qed
qed

text \<open>The consecutive windows of a list.\<close>

function windows :: "nat \<Rightarrow> 'a list \<Rightarrow> 'a list list" where
  "windows b xs = (if xs = [] \<or> b = 0 then [] else take b xs # windows b (drop b xs))"
  by pat_completeness auto
termination by (relation "measure (\<lambda>(b, xs). length xs)") auto

declare windows.simps [simp del]

lemma windows_step:
  "windows b [] = []" "windows 0 xs = []" "xs \<noteq> [] \<Longrightarrow> 0 < b \<Longrightarrow> windows b xs = take b xs # windows b (drop b xs)"
  by (simp_all add: windows.simps[of _ xs] windows.simps[of b "[]"])

lemma windows_members: "win \<in> set (windows b xs) \<Longrightarrow> win \<noteq> [] \<and> length win \<le> b"
proof (induction b xs rule: windows.induct)
  case (1 b xs)
  then show ?case by (cases "xs = [] \<or> b = 0") (auto simp: windows_step)
qed

lemma length_windows: "0 < b \<Longrightarrow> length (windows b xs) = (length xs + b - 1) div b"
proof (induction b xs rule: windows.induct)
  case (1 b xs)
  show ?case
  proof (cases "length xs \<le> b")
    case True
    then have "(length xs + b - 1) div b = (if xs = [] then 0 else 1)"
      using 1(2) by (cases xs) (auto simp: div_nat_eqI)
    with True 1(2) show ?thesis by (cases "xs = []") (simp_all add: windows_step)
  next
    case False
    then have "length xs + b - 1 = (length (drop b xs) + b - 1) + b" using 1(2) by simp
    then have "(length xs + b - 1) div b = Suc ((length (drop b xs) + b - 1) div b)"
      using 1(2) by (simp only: div_add_self2)
    moreover have "xs \<noteq> []" using False by auto
    ultimately show ?thesis using 1 by (simp add: windows_step)
  qed
qed

lemma concat_windows: "0 < b \<Longrightarrow> concat (windows b xs) = xs"
proof (induction b xs rule: windows.induct)
  case (1 b xs)
  then show ?case by (cases "xs = []") (auto simp: windows_step)
qed

text \<open>The round-trips: one per window, in order, with the scope of the search.\<close>

lemma resolveLoop_sent:
  "\<exists>n. sent (snd (resolveLoop E scope topK batch cands out seen w)) =
      sent w @ map (\<lambda>win. RpcGetMetadata (metadataRequest win scope)) (take n (windows batch cands))"
proof (induction E scope topK batch cands out seen arbitrary: w rule: resolveLoop.induct)
  case (1 E scope topK batch cands out seen)
  show ?case
  proof (cases "cands = [] \<or> batch = 0")
    case True
    then have "resolveLoop E scope topK batch cands out seen w = (Inr out, w)"
      by (simp add: resolveLoop.simps run_simps)
    then show ?thesis by (intro exI[of _ 0]) simp
  next
    case False
    let ?win = "take batch cands"
    obtain r w1 where r: "resolvePositions E ?win scope w = (r, w1)" by (metis surj_pair)
    have s1: "sent w1 = sent w @ [RpcGetMetadata (metadataRequest ?win scope)]"
      using r by (auto simp: resolvePositions_def andThen_def invoke_run run_simps split: sum.splits)
    have ws: "windows batch cands = ?win # windows batch (drop batch cands)" using False by (simp add: windows_step)
    let ?res = "resolveLoop E scope topK batch cands out seen w"
    show ?thesis
    proof (cases "\<exists>hits out' seen'. r = Inr hits \<and>
        mergeWindow topK out seen (zip ?win hits) = (False, out', seen')")
      case True
      then obtain hits out' seen' where m: "r = Inr hits"
        "mergeWindow topK out seen (zip ?win hits) = (False, out', seen')" by blast
      have step: "?res = resolveLoop E scope topK batch (drop batch cands) out' seen' w1"
        using False by (simp add: resolveLoop_step r m)
      obtain n where "sent (snd ?res) = sent w1 @
          map (\<lambda>win. RpcGetMetadata (metadataRequest win scope)) (take n (windows batch (drop batch cands)))"
        using 1[OF False m(2)[symmetric] refl, of w1] step by auto
      then show ?thesis using s1 ws by (intro exI[of _ "Suc n"]) simp
    next
      case fin: False
      then have "snd ?res = w1"
        using False r by (auto simp: resolveLoop_step split: sum.splits prod.splits)
      then show ?thesis using s1 ws by (intro exI[of _ 1]) simp
    qed
  qed
qed

end
