(* ===== verification/Search_Results.thy ===== *)
theory Search_Results
  imports Search_Path
begin

text \<open>
  What a search returns, on top of the loops of \<open>Search_Path\<close>: the abstract result is the
  best of the hits, the matches come from live rows, and the traffic is bounded to one
  \<open>Search\<close> and scoped \<open>GetMetadata\<close> requests.
\<close>

section \<open>The abstract result is the best of the hits\<close>

lemma hitMatch_simps [simp]:
  "m_id (hitMatch (p, i, md)) = i" "m_score (hitMatch (p, i, md)) = cd_score p"
  "m_row (hitMatch (p, i, md)) = cd_row p"
  by (simp_all add: hitMatch_def matchOf_def)

lemma m_id_hitMatch: "m_id (hitMatch h) = fst (snd h)" and m_score_hitMatch: "m_score (hitMatch h) = cd_score (fst h)"
  by (cases h; simp)+

lemma firstK_subset: "set (firstK topK xs) \<subseteq> set xs"
  by (simp add: firstK_def set_take_subset)

lemma distinct_firstK: "distinct xs \<Longrightarrow> distinct (firstK topK xs)"
  by (simp add: firstK_def)

lemma firstK_map: "firstK topK (map f xs) = map f (firstK topK xs)"
  by (simp add: firstK_def take_map)

lemma length_firstK: "topK > 0 \<Longrightarrow> int (length (firstK topK xs)) \<le> topK"
  by (simp add: firstK_def)

lemma sorted_wrt_subseq: "subseq xs ys \<Longrightarrow> sorted_wrt P ys \<Longrightarrow> sorted_wrt P xs"
  by (induction rule: list_emb.induct) (auto dest: list_emb_set)

lemma keepFirst_subset: "set (keepFirst seen hits) \<subseteq> set hits"
  by (induction seen hits rule: keepFirst.induct) auto

lemma idsOf_member: "h \<in> set hits \<Longrightarrow> fst (snd h) \<noteq> [] \<Longrightarrow> fst (snd h) \<in> idsOf hits"
  unfolding idsOf_def by (cases h) auto

lemma topHits_ids: "distinct (map m_id (topHits topK hits)) \<and> set (map m_id (topHits topK hits)) \<subseteq> idsOf hits"
proof -
  have ids: "map m_id (topHits topK hits) = firstK topK (map (fst \<circ> snd) (keepFirst {} hits))"
    by (simp add: topHits_def firstK_map m_id_hitMatch)
  show ?thesis
    unfolding ids using keepFirst_distinct[of "{}" hits] firstK_subset distinct_firstK by (metis Diff_empty)
qed

lemma topHits_hits: "m \<in> set (topHits topK hits) \<Longrightarrow> \<exists>h \<in> set hits. m = hitMatch h \<and> fst (snd h) \<noteq> []"
proof -
  assume m: "m \<in> set (topHits topK hits)"
  then obtain h where h: "h \<in> set (keepFirst {} hits)" "m = hitMatch h"
    using firstK_subset by (fastforce simp: topHits_def)
  moreover have "h \<in> set hits" using h(1) keepFirst_subset by blast
  moreover have "fst (snd h) \<in> idsOf hits" using h(1) keepFirst_distinct[of "{}" hits] by force
  ultimately show ?thesis by (auto simp: idsOf_def)
qed

lemma topHits_length: "topK > 0 \<Longrightarrow> int (length (topHits topK hits)) \<le> topK"
  by (simp add: topHits_def length_firstK)

text \<open>The hit that is kept for an id is its first.\<close>

lemma keepFirst_first:
  "h \<in> set (keepFirst seen hits) \<Longrightarrow> \<exists>xs ys. hits = xs @ h # ys \<and> fst (snd h) \<notin> idsOf xs"
proof (induction seen hits rule: keepFirst.induct)
  case (2 seen pos i md hits)
  have later: "\<exists>xs ys. (pos, i, md) # hits = xs @ h # ys \<and> fst (snd h) \<notin> idsOf xs"
    if split: "hits = xs @ h # ys" "fst (snd h) \<notin> idsOf xs" and new: "i = [] \<or> fst (snd h) \<noteq> i" for xs ys
    using that by (intro exI[of _ "(pos, i, md) # xs"] exI[of _ ys]) auto
  show ?case
  proof (cases "i = [] \<or> i \<in> seen")
    case True
    with 2 obtain xs ys where split: "hits = xs @ h # ys" "fst (snd h) \<notin> idsOf xs" by auto
    have "fst (snd h) \<notin> seen" using 2(3) True keepFirst_distinct[of seen hits] by force
    with later[OF split] True show ?thesis by blast
  next
    case new: False
    show ?thesis
    proof (cases "h = (pos, i, md)")
      case True
      then show ?thesis by (intro exI[of _ "[]"] exI[of _ hits]) simp
    next
      case False
      then have h: "h \<in> set (keepFirst (insert i seen) hits)" using 2(3) new by simp
      with 2(2)[OF new] obtain xs ys where split: "hits = xs @ h # ys" "fst (snd h) \<notin> idsOf xs" by blast
      have "fst (snd h) \<noteq> i" using h keepFirst_distinct[of "insert i seen" hits] by force
      with later[OF split] show ?thesis by blast
    qed
  qed
qed simp

definition rankedHits :: "hit list \<Rightarrow> bool" where
  "rankedHits hits \<longleftrightarrow> sorted_wrt (\<lambda>a b. \<not> outranks (fst b) (fst a)) hits \<and> (\<forall>h \<in> set hits. cd_score (fst h) \<noteq> NaN)"

lemma keepFirst_best:
  assumes "rankedHits hits" and "h \<in> set (keepFirst {} hits)" and "g \<in> set hits" and "fst (snd g) = fst (snd h)"
  shows "\<not> outranks (fst g) (fst h)"
proof -
  obtain xs ys where split: "hits = xs @ h # ys" "fst (snd h) \<notin> idsOf xs"
    using keepFirst_first[OF assms(2)] by blast
  have "fst (snd h) \<noteq> []" using assms(2) keepFirst_distinct[of "{}" hits] by (force simp: idsOf_def)
  then have "g \<notin> set xs" using split(2) assms(4) by (cases g) (auto simp: idsOf_def)
  then have "g = h \<or> g \<in> set ys" using split(1) assms(3) by auto
  moreover have "\<not> outranks (fst h) (fst h)"
    using assms(1) split(1) rank.better_irrefl by (auto simp: rankedHits_def)
  ultimately show ?thesis using assms(1) split(1) by (auto simp: rankedHits_def sorted_wrt_append)
qed

lemma topHits_sorted:
  assumes "rankedHits hits"
  shows "sorted_wrt (\<lambda>a b. \<not> fgt (m_score b) (m_score a)) (topHits topK hits)"
proof -
  have "subseq (firstK topK (keepFirst {} hits)) hits"
    using keepFirst_subseq[of "{}" hits] by (simp add: firstK_def) (meson subseq_order.order_trans prefix_imp_subseq take_is_prefix)
  then have "sorted_wrt (\<lambda>a b. \<not> outranks (fst b) (fst a)) (firstK topK (keepFirst {} hits))"
    using assms sorted_wrt_subseq unfolding rankedHits_def by blast
  then show ?thesis by (simp add: topHits_def sorted_wrt_map m_score_hitMatch outranks_def)
qed

text \<open>A hit is represented, or beaten by as many matches as were asked for.\<close>

lemma topHits_best:
  assumes "rankedHits hits" and "h \<in> set hits" and "fst (snd h) \<noteq> []"
  shows "(\<exists>m \<in> set (topHits topK hits). m_id m = fst (snd h) \<and> \<not> fgt (cd_score (fst h)) (m_score m)) \<or>
    (topK > 0 \<and> int (length (topHits topK hits)) = topK \<and>
      (\<forall>m \<in> set (topHits topK hits). \<not> fgt (cd_score (fst h)) (m_score m)))"
proof -
  let ?kept = "keepFirst {} hits"
  have "fst (snd h) \<in> idsOf hits" using assms(2,3) by (rule idsOf_member)
  then have "fst (snd h) \<in> set (map (fst \<circ> snd) ?kept)" using keepFirst_distinct[of "{}" hits] by blast
  then obtain g where g: "g \<in> set ?kept" "fst (snd g) = fst (snd h)" by auto
  have hg: "\<not> outranks (fst h) (fst g)" using keepFirst_best[OF assms(1) g(1) assms(2)] g(2) by simp
  show ?thesis
  proof (cases "g \<in> set (firstK topK ?kept)")
    case True
    then have "hitMatch g \<in> set (topHits topK hits)" by (simp add: topHits_def)
    moreover have "m_id (hitMatch g) = fst (snd h)" and "\<not> fgt (cd_score (fst h)) (m_score (hitMatch g))"
      using g(2) hg by (simp_all add: m_id_hitMatch m_score_hitMatch outranks_def)
    ultimately show ?thesis by blast
  next
    case False
    then have topK: "topK > 0" "nat topK < length ?kept" and late: "g \<in> set (drop (nat topK) ?kept)"
      using g(1) by (auto simp: firstK_def split: if_splits)
        (metis append_take_drop_id Un_iff set_append take_all linorder_not_less)+
    have sorted: "sorted_wrt (\<lambda>a b. \<not> outranks (fst b) (fst a)) (take (nat topK) ?kept @ drop (nat topK) ?kept)"
      using assms(1) sorted_wrt_subseq[OF keepFirst_subseq] by (simp add: rankedHits_def)
    have "\<not> outranks (fst h) (fst k)" if "k \<in> set (take (nat topK) ?kept)" for k
    proof -
      have "\<not> outranks (fst g) (fst k)" using sorted[unfolded sorted_wrt_append] late that by blast
      moreover have "k \<in> set hits" "g \<in> set hits"
        using that g(1) keepFirst_subset[of "{}" hits] by (auto dest: in_set_takeD)
      ultimately show ?thesis
        using hg rank.better_cotrans[of "fst h" "fst g" "fst k"] assms(1,2) by (auto simp: rankedHits_def)
    qed
    then show ?thesis
      using topK by (auto simp: topHits_def firstK_def m_score_hitMatch outranks_def)
  qed
qed

section \<open>The whole search\<close>

lemma windowSize_pos: "n \<noteq> 0 \<Longrightarrow> windowSize topK n \<noteq> 0"
  by (auto simp: windowSize_def Let_def)

lemma windowSize_le: "windowSize topK n \<le> n"
  by (auto simp: windowSize_def Let_def)

lemma sliceStable_Nil [simp]: "sliceStable lt xs = [] \<longleftrightarrow> xs = []"
  by (metis length_0_conv length_sliceStable)

lemma windowSize_eq:
  assumes "is_int64 topK"
  shows "windowSize topK n = (if 0 < topK \<and> topK < 2 ^ 62 \<and> 2 * nat topK < n then 2 * nat topK else n)"
proof (cases "0 < topK")
  case True
  have "wrap64 (topK * 2) = wrap64 (topK * 2 - 2 ^ 64)"
    using minus_mod_self2[of "topK * 2 + 2 ^ 63" "2 ^ 64"] by (simp add: wrap64_def algebra_simps)
  moreover have "wrap64 (topK * 2) = topK * 2" if "topK < 2 ^ 62"
    using that True by (intro wrap64_id) (simp add: is_int64_def)
  moreover have "wrap64 (topK * 2 - 2 ^ 64) = topK * 2 - 2 ^ 64" if "2 ^ 62 \<le> topK"
    using that assms by (intro wrap64_id) (simp add: is_int64_def)
  ultimately have "wrap64 (topK * 2) = (if topK < 2 ^ 62 then topK * 2 else topK * 2 - 2 ^ 64)" by simp
  then show ?thesis using True assms by (auto simp: windowSize_def Let_def is_int64_def nat_mult_distrib)
qed (simp add: windowSize_def)

lemma windowCount:
  assumes "is_int64 topK"
  shows "length (windows (windowSize topK (length xs)) xs) \<le>
    (if 0 < topK \<and> topK < 2 ^ 62 then (length xs + 2 * nat topK - 1) div (2 * nat topK) else 1)"
proof (cases "xs = []")
  case False
  have one: "length (windows (length xs) xs) = 1" using False by (simp add: windows_step)
  show ?thesis
  proof (cases "0 < topK \<and> topK < 2 ^ 62 \<and> 2 * nat topK < length xs")
    case True
    then show ?thesis using assms by (simp add: windowSize_eq length_windows)
  next
    case small: False
    moreover have "1 \<le> (length xs + 2 * nat topK - 1) div (2 * nat topK)" if "0 < topK"
      using that False by (cases xs) (simp_all add: Suc_le_eq div_greater_zero_iff)
    ultimately show ?thesis using assms one by (auto simp: windowSize_eq)
  qed
qed (simp add: windows_step)

lemma window_ok: "sliceStable outranks cands = [] \<or> windowSize topK (length (sliceStable outranks cands)) \<noteq> 0"
  by (cases "cands = []") (simp_all add: windowSize_pos)

lemma searchAndResolve_run:
  "searchAndResolve E req keys topK w =
    (let w1 = w\<lparr>tick := Suc (tick w), sent := sent w @ [RpcSearch req]\<rparr> in
     case sv_search E (sent w) (tick w) req of
       Inl e \<Rightarrow> (Inl e, w1)
     | Inr resp \<Rightarrow> (case collectCands E keys resp w1 of
         (Inl e, w2) \<Rightarrow> (Inl e, w2)
       | (Inr cands, w2) \<Rightarrow>
           resolveLoop E (sr_filter_scope req) topK (windowSize topK (length cands))
             (sliceStable outranks cands) [] {} w2))"
  by (auto simp: searchAndResolve_def andThen_def invoke_run Let_def split: sum.split prod.split)

lemma roomLeft_Nil [simp]: "roomLeft topK []"
  by (auto simp: roomLeft_def)

lemma searchAndResolve_InrD:
  assumes "searchAndResolve E req keys topK w = (Inr ms, w')"
  obtains resp cands w2 answers where
    "sv_search E (sent w) (tick w) req = Inr resp"
    "collectCands E keys resp (w\<lparr>tick := Suc (tick w), sent := sent w @ [RpcSearch req]\<rparr>) = (Inr cands, w2)"
    "ms = topHits topK (zip (sliceStable outranks cands) answers)"
    "length answers = length cands \<or> \<not> roomLeft topK ms"
proof -
  from assms obtain resp cands w2 where s: "sv_search E (sent w) (tick w) req = Inr resp"
    "collectCands E keys resp (w\<lparr>tick := Suc (tick w), sent := sent w @ [RpcSearch req]\<rparr>) = (Inr cands, w2)"
    "resolveLoop E (sr_filter_scope req) topK (windowSize topK (length cands))
      (sliceStable outranks cands) [] {} w2 = (Inr ms, w')"
    by (auto simp: searchAndResolve_run Let_def split: sum.splits prod.splits)
  from resolveLoop_InrD[OF s(3)] window_ok[of cands topK] obtain answers where
    "ms = firstK topK (map hitMatch (keepFirst {} (zip (sliceStable outranks cands) answers)))"
    "length answers = length cands \<or> \<not> roomLeft topK ms"
    by auto
  then show ?thesis using that[OF s(1,2)] by (simp add: topHits_def firstK_map)
qed

lemma resolveRanked_aligned:
  assumes "resolvesBy \<rho> E"
  shows "fst (resolveLoop E scope topK (windowSize topK (length cands)) (sliceStable outranks cands) [] {} w) =
    Inr (topHits topK (map (\<lambda>p. (p, resolvedAs \<rho> scope p)) (sliceStable outranks cands)))"
  using resolveLoop_aligned[OF assms, where topK = topK and out = "[]" and scope = scope and seen = "{}" and w = w
      and cands = "sliceStable outranks cands" and batch = "windowSize topK (length (sliceStable outranks cands))"]
    window_ok[of cands topK]
  by (simp add: topHits_def firstK_map)

lemma rankedHits_zip:
  assumes "\<forall>p \<in> set cands. cd_score p \<noteq> NaN"
  shows "rankedHits (zip (sliceStable outranks cands) answers)"
proof -
  have "rank.ranked (sliceStable outranks cands)" using assms by (rule rank.ranked_sliceStable)
  then have "sorted_wrt (\<lambda>a b. \<not> outranks b a) (take (length answers) (sliceStable outranks cands))"
    unfolding rank.ranked_def by (rule sorted_wrt_take)
  moreover have "map fst (zip (sliceStable outranks cands) answers) = take (length answers) (sliceStable outranks cands)"
    by (simp add: map_fst_zip_take min_def)
  ultimately have "sorted_wrt (\<lambda>a b. \<not> outranks b a) (map fst (zip (sliceStable outranks cands) answers))"
    by simp
  then have "sorted_wrt (\<lambda>a b. \<not> outranks (fst b) (fst a)) (zip (sliceStable outranks cands) answers)"
    by (simp add: sorted_wrt_map)
  moreover have "cd_score (fst h) \<noteq> NaN" if "h \<in> set (zip (sliceStable outranks cands) answers)" for h
    using assms that by (metis prod.collapse set_sliceStable set_zip_leftD)
  ultimately show ?thesis by (simp add: rankedHits_def)
qed

text \<open>Scores come from the library's decryption.\<close>

lemma decrypt_scores:
  assumes "fst (DecryptSearchResult E d blob w) = Inr scores"
  shows "\<exists>k. set scores \<subseteq> set (c_scores E k)"
proof -
  have "returns (DecryptSearchResult E d blob) (\<lambda>scores. \<exists>k. set scores \<subseteq> set (c_scores E k))"
    unfolding DecryptSearchResult_def returns_def
    by (auto simp: scoped_def andThen_def deferring_def c_create_def c_acquire_def c_invoke_def c_step_def
        run_simps Let_def split: option.splits sum.splits prod.splits if_splits dest: in_set_takeD)
  then show ?thesis using assms unfolding returns_def by (metis prod.collapse)
qed

lemma decryptCells_scores:
  assumes "\<And>blob w scores w'. decrypt blob w = (Inr scores, w') \<Longrightarrow> \<forall>s \<in> set scores. P s"
    and "decryptCells decrypt tier flat cands cells w = (Inr out, w')" and "\<forall>p \<in> set cands. P (cd_score p)"
  shows "\<forall>p \<in> set out. P (cd_score p)"
  using assms(2,3)
proof (induction cells arbitrary: cands w)
  case Nil
  then show ?case by (simp add: ret_def)
next
  case (Cons c cells)
  from Cons.prems(1) obtain scores w1 where d: "decrypt (cr_blob c) w = (Inr scores, w1)"
    and rest: "decryptCells decrypt tier flat (appendCands cands flat (cr_cell_id c) scores (cr_dead c)) cells w1 = (Inr out, w')"
    by (auto elim!: andThen_InrE dest: mapErr_InrE)
  have "\<forall>p \<in> set (appendCands cands flat (cr_cell_id c) scores (cr_dead c)). P (cd_score p)"
    using Cons.prems(2) assms(1)[OF d] by (auto simp: appendCands_live liveRows_def)
  from Cons.IH[OF rest this] show ?case .
qed

lemma decrypt_finite:
  fixes w :: "'w keys_world_scheme"
  assumes "\<forall>k. NaN \<notin> set (c_scores E k)"
  shows "DecryptResult E keys blob w = (Inr scores, w') \<Longrightarrow> \<forall>s \<in> set scores. s \<noteq> NaN"
    and "DecryptClustered E keys blob w = (Inr scores, w') \<Longrightarrow> \<forall>s \<in> set scores. s \<noteq> NaN"
proof -
  have one: "\<forall>s \<in> set scores. s \<noteq> NaN" if "DecryptSearchResult E d blob w = (Inr scores, w')" for d
    using decrypt_scores[of E d blob w scores] that assms by auto
  show "DecryptResult E keys blob w = (Inr scores, w') \<Longrightarrow> \<forall>s \<in> set scores. s \<noteq> NaN"
    by (auto simp: DecryptResult_def run_simps split: option.splits dest: one)
  show "DecryptClustered E keys blob w = (Inr scores, w') \<Longrightarrow> \<forall>s \<in> set scores. s \<noteq> NaN"
    by (auto simp: DecryptClustered_def run_simps split: option.splits dest: one)
qed

lemma collectCands_finite:
  assumes "\<forall>k. NaN \<notin> set (c_scores E k)" and "collectCands E keys resp w = (Inr cands, w')"
  shows "\<forall>p \<in> set cands. cd_score p \<noteq> NaN"
proof -
  from assms(2) obtain fs w1 where
    f: "decryptCells (DecryptResult E keys) ''flat'' True [] (sp_rmp resp) w = (Inr fs, w1)" and
    c: "decryptCells (DecryptClustered E keys) ''cluster'' False fs (sp_mm resp) w1 = (Inr cands, w')"
    unfolding collectCands_def by (auto elim: andThen_InrE)
  have "\<forall>p \<in> set fs. cd_score p \<noteq> NaN"
    by (rule decryptCells_scores[where P = "\<lambda>s. s \<noteq> NaN", OF _ f]) (erule decrypt_finite(1)[OF assms(1)], simp)
  then show ?thesis
    by (rule decryptCells_scores[where P = "\<lambda>s. s \<noteq> NaN", OF _ c, rotated]) (erule decrypt_finite(2)[OF assms(1)])
qed

text \<open>A candidate is a live row of a cell of its tier.\<close>

definition liveIn :: "CellResult list \<Rightarrow> cand \<Rightarrow> bool" where
  "liveIn cells p \<longleftrightarrow> (\<exists>cell \<in> set cells. cd_cell p = cr_cell_id cell \<and> 0 \<le> cd_row p \<and> \<not> isDead (cr_dead cell) (cd_row p))"

lemma tierCands_live: "p \<in> set (tierCands flat (zip cells scoress)) \<Longrightarrow> cd_flat p = flat \<and> liveIn cells p"
  by (force simp: tierCands_def liveRows_def liveIn_def dest: set_zip_leftD)

lemma collectCands_live:
  assumes "collectCands E keys resp w = (Inr cands, w')" and "p \<in> set cands"
  shows "liveIn (if cd_flat p then sp_rmp resp else sp_mm resp) p"
proof -
  obtain flats clusters where
    "cands = tierCands True (zip (sp_rmp resp) flats) @ tierCands False (zip (sp_mm resp) clusters)"
    using collectCands_InrD[OF assms(1)] by blast
  then show ?thesis using assms(2) tierCands_live by force
qed

text \<open>A match that the response accounts for: a live row of one of its cells, with the source of that cell.\<close>

definition soundMatch :: "SearchResponse \<Rightarrow> Match \<Rightarrow> bool" where
  "soundMatch resp m \<longleftrightarrow>
     (m_cluster m = FlatClusterID \<and> (\<exists>cell \<in> set (sp_rmp resp). \<not> isDead (cr_dead cell) (m_row m))) \<or>
     (\<exists>cell \<in> set (sp_mm resp). m_cluster m = sint (cr_cell_id cell) \<and> \<not> isDead (cr_dead cell) (m_row m))"

lemma matchOf_sound: "liveIn (if cd_flat p then sp_rmp resp else sp_mm resp) p \<Longrightarrow> soundMatch resp (matchOf p i md)"
  by (auto simp: liveIn_def soundMatch_def matchOf_def split: if_splits)

lemma sint32: "sint (x :: 32 word) = (if uint x < 2 ^ 31 then uint x else uint x - 2 ^ 32)"
proof -
  have "uint x < 2 ^ 32" using uint_lt2p[of x] by simp
  moreover have "uint x div 2 ^ 31 = (if uint x < 2 ^ 31 then 0 else 1)"
    using calculation int_div_pos_eq[of "uint x" "2 ^ 31" 1 "uint x - 2 ^ 31"] by auto
  ultimately have "bit (uint x) 31 \<longleftrightarrow> 2 ^ 31 \<le> uint x" and "take_bit 32 (uint x) = uint x"
    by (auto simp: bit_iff_odd take_bit_int_eq_self)
  then show ?thesis by (simp add: sint_uint signed_take_bit_eq_take_bit_minus)
qed

section \<open>Properties\<close>

text \<open>
  C32. Search refines its abstract specification. Against a server whose \<open>GetMetadata\<close>
  answers as the protocol documents (one entry per row, in order), the outcome of a search
  is: the error of the \<open>Search\<close> RPC, or of decrypting a cell, or else the ranked live
  candidates resolved through the server's directory, unresolved ones dropped, each id kept
  at its first occurrence only, cut at \<open>topK\<close>. The windows in which candidates are resolved,
  the early return and the backfilling do not show.
\<close>

theorem search_refines_spec:
  assumes "resolvesBy \<rho> E"
  shows "fst (searchAndResolve E req keys topK w) =
    (case sv_search E (sent w) (tick w) req of
       Inl e \<Rightarrow> Inl e
     | Inr resp \<Rightarrow>
         (case fst (collectCands E keys resp (w\<lparr>tick := Suc (tick w), sent := sent w @ [RpcSearch req]\<rparr>)) of
            Inl e \<Rightarrow> Inl e
          | Inr cands \<Rightarrow> Inr (topHits topK
              (map (\<lambda>p. (p, resolvedAs \<rho> (sr_filter_scope req) p)) (sliceStable outranks cands)))))"
  by (simp add: searchAndResolve_run Let_def resolveRanked_aligned[OF assms] split: sum.split prod.split)

text \<open>
  C33. What a successful search returns, whatever the server answers: ids that are non-empty
  and pairwise different, at most \<open>topK\<close> of them when \<open>topK\<close> is positive, and every match
  is a row of a cell of the response that its dead-row bitmap does not mark, in the flat
  tier (with the flat sentinel) or in the cluster tier (with that cell's id).
\<close>

theorem search_results_sound:
  assumes "searchAndResolve E req keys topK w = (Inr ms, w')"
  shows "distinct (map m_id ms) \<and> [] \<notin> set (map m_id ms) \<and> (topK > 0 \<longrightarrow> int (length ms) \<le> topK) \<and>
    (\<exists>resp. sv_search E (sent w) (tick w) req = Inr resp \<and> (\<forall>m \<in> set ms. soundMatch resp m))"
proof -
  obtain resp cands w2 answers where
    s: "sv_search E (sent w) (tick w) req = Inr resp" and
    c: "collectCands E keys resp (w\<lparr>tick := Suc (tick w), sent := sent w @ [RpcSearch req]\<rparr>) = (Inr cands, w2)" and
    ms: "ms = topHits topK (zip (sliceStable outranks cands) answers)"
    by (rule searchAndResolve_InrD[OF assms])
  have "\<forall>m \<in> set ms. soundMatch resp m"
  proof
    fix m assume "m \<in> set ms"
    then obtain p i md where "(p, i, md) \<in> set (zip (sliceStable outranks cands) answers)" "m = matchOf p i md"
      using topHits_hits unfolding ms hitMatch_def by fast
    moreover from this(1) have "p \<in> set cands" using set_zip_leftD by fastforce
    ultimately show "soundMatch resp m" using matchOf_sound collectCands_live[OF c] by blast
  qed
  moreover have "distinct (map m_id ms)" and "[] \<notin> set (map m_id ms)"
    using topHits_ids[of topK "zip (sliceStable outranks cands) answers"] unfolding ms idsOf_def by auto
  moreover have "topK > 0 \<longrightarrow> int (length ms) \<le> topK"
    using topHits_length unfolding ms by simp
  ultimately show ?thesis using s by blast
qed

text \<open>
  C34. A search returns the best of the live hits. Against a server that answers as
  documented, and with no score that is not a number, the matches come in an order in which
  no match scores above an earlier one, and every live candidate the server resolves is
  accounted for: its id is among the matches with a score that is not lower, or there are
  \<open>topK\<close> matches and none of them scores lower than it. With \<open>topK\<close> not positive every
  resolvable live hit is therefore returned.
\<close>

theorem search_returns_best:
  assumes "resolvesBy \<rho> E" and "\<forall>k. NaN \<notin> set (c_scores E k)"
    and "sv_search E (sent w) (tick w) req = Inr resp"
    and "collectCands E keys resp (w\<lparr>tick := Suc (tick w), sent := sent w @ [RpcSearch req]\<rparr>) = (Inr cands, w2)"
  shows "\<exists>ms. fst (searchAndResolve E req keys topK w) = Inr ms \<and>
    sorted_wrt (\<lambda>a b. \<not> fgt (m_score b) (m_score a)) ms \<and>
    (\<forall>p \<in> set cands. fst (resolvedAs \<rho> (sr_filter_scope req) p) \<noteq> [] \<longrightarrow>
      (\<exists>m \<in> set ms. m_id m = fst (resolvedAs \<rho> (sr_filter_scope req) p) \<and> \<not> fgt (cd_score p) (m_score m)) \<or>
      (topK > 0 \<and> int (length ms) = topK \<and> (\<forall>m \<in> set ms. \<not> fgt (cd_score p) (m_score m))))"
proof -
  define hits where "hits = zip (sliceStable outranks cands) (map (resolvedAs \<rho> (sr_filter_scope req)) (sliceStable outranks cands))"
  have hits': "hits = map (\<lambda>p. (p, resolvedAs \<rho> (sr_filter_scope req) p)) (sliceStable outranks cands)"
    by (simp add: hits_def zip_map2 zip_same_conv_map)
  have ranked: "rankedHits hits"
    unfolding hits_def by (rule rankedHits_zip[OF collectCands_finite[OF assms(2,4)]])
  have res: "fst (searchAndResolve E req keys topK w) = Inr (topHits topK hits)"
    by (simp add: searchAndResolve_run assms(3,4) Let_def resolveRanked_aligned[OF assms(1)] hits')
  have "(\<exists>m \<in> set (topHits topK hits). m_id m = fst (resolvedAs \<rho> (sr_filter_scope req) p) \<and> \<not> fgt (cd_score p) (m_score m)) \<or>
      (topK > 0 \<and> int (length (topHits topK hits)) = topK \<and> (\<forall>m \<in> set (topHits topK hits). \<not> fgt (cd_score p) (m_score m)))"
    if "p \<in> set cands" "fst (resolvedAs \<rho> (sr_filter_scope req) p) \<noteq> []" for p
    using topHits_best[OF ranked, of "(p, resolvedAs \<rho> (sr_filter_scope req) p)" topK] that
    by (simp add: hits')
  then show ?thesis using res topHits_sorted[OF ranked] by blast
qed

lemma rest_decryptCells:
  "(\<And>blob. keeps sameRest (decrypt blob)) \<Longrightarrow> keeps sameRest (decryptCells decrypt tier flat cands cells)"
  by (induction cells arbitrary: cands) (simp_all add: rest.keeps_rules)

lemma rest_collectCands: "keeps sameRest (collectCands E keys resp)"
  unfolding collectCands_def by (intro rest.keeps_rules rest_decryptCells rest_keys_use)

lemma client_resolveLoop: "keeps sameClient (resolveLoop E scope topK batch cands out seen)"
proof (induction E scope topK batch cands out seen rule: resolveLoop.induct)
  case (1 E scope topK batch cands out seen)
  show ?case
    by (subst resolveLoop.simps, unfold resolvePositions_def)
      (auto intro!: client.keeps_rules keeps_invoke 1[OF _ sym refl] split: prod.split)
qed

lemma client_searchAndResolve: "keeps sameClient (searchAndResolve E req keys topK)"
  unfolding searchAndResolve_def Let_def
  by (intro client.keeps_rules keeps_invoke keeps_rest_client rest_collectCands client_resolveLoop)

lemma searchAndResolve_sent:
  fixes w :: "'w client_world_scheme"
  shows "\<exists>ws. sent (snd (searchAndResolve E req keys topK w)) = sent w @ RpcSearch req #
      map (\<lambda>win. RpcGetMetadata (metadataRequest win (sr_filter_scope req))) ws \<and> [] \<notin> set ws"
proof (cases "sv_search E (sent w) (tick w) req")
  case (Inl e)
  then show ?thesis by (intro exI[of _ "[]"]) (simp add: searchAndResolve_run Let_def)
next
  case (Inr resp)
  let ?w1 = "w\<lparr>tick := Suc (tick w), sent := sent w @ [RpcSearch req]\<rparr>"
  obtain r w2 where r: "collectCands E keys resp ?w1 = (r, w2)" by (metis surj_pair)
  have "sent w2 = sent ?w1" by (rule sameRest_client(2)[OF keepsD[OF rest_collectCands r]])
  then have s2: "sent w2 = sent w @ [RpcSearch req]" by simp
  show ?thesis
  proof (cases r)
    case (Inl e)
    then show ?thesis using s2 by (intro exI[of _ "[]"]) (simp add: searchAndResolve_run Let_def Inr r)
  next
    case ranked: (Inr cands)
    obtain n where "sent (snd (resolveLoop E (sr_filter_scope req) topK (windowSize topK (length cands))
          (sliceStable outranks cands) [] {} w2)) = sent w2 @
        map (\<lambda>win. RpcGetMetadata (metadataRequest win (sr_filter_scope req)))
          (take n (windows (windowSize topK (length cands)) (sliceStable outranks cands)))"
      using resolveLoop_sent by blast
    moreover have "[] \<notin> set (take n (windows (windowSize topK (length cands)) (sliceStable outranks cands)))"
      using windows_members set_take_subset by fastforce
    ultimately show ?thesis using s2 by (intro exI conjI) (auto simp: searchAndResolve_run Let_def Inr r ranked)
  qed
qed

text \<open>
  What a search puts on the wire, whatever happens: nothing, or one \<open>Search\<close> carrying the
  normalized vector with the options applied, followed by \<open>GetMetadata\<close> requests only, each
  for a non-empty window of positions and each carrying the filter scope of the search, so
  that no position is ever resolved without the caller's scope. The search is never run
  again, and the client's own state does not change.
\<close>

theorem search_traffic:
  fixes w :: "'w client_world_scheme"
  defines "req vec opts \<equiv> applySearchOptions opts \<lparr>sr_query = l2normalize vec, sr_filter_scope = []\<rparr>"
  shows "cl (snd (Search E vec topK opts w)) = cl w \<and>
    (sent (snd (Search E vec topK opts w)) = sent w \<or>
     (\<exists>ws. sent (snd (Search E vec topK opts w)) = sent w @ RpcSearch (req vec opts) #
         map (\<lambda>win. RpcGetMetadata (metadataRequest win (sr_filter_scope (req vec opts)))) ws \<and>
       [] \<notin> set ws))"
proof -
  have "sameClient w (snd (searchAndResolve E (req vec opts) (cl_keys (cl w)) topK w))"
    using client_searchAndResolve unfolding keeps_def by blast
  then show ?thesis
    using searchAndResolve_sent[of E "req vec opts" "cl_keys (cl w)" topK w]
    by (simp add: Search_def withKeys_def andThen_def run_simps req_def sameClient_def split: option.split)
qed

text \<open>
  C35. A search comes to an end. Whatever the server answers to the resolution requests, they are the
  consecutive windows of the ranked candidates in their order, possibly not all of them, and at most
  one for every \<open>2 * topK\<close> candidates, rounded up; when \<open>topK\<close> is not positive, or so
  large that doubling it overflows, one window holds all.
\<close>

theorem search_ends_within:
  assumes "is_int64 topK" and "sv_search E (sent w) (tick w) req = Inr resp"
    and "collectCands E keys resp (w\<lparr>tick := Suc (tick w), sent := sent w @ [RpcSearch req]\<rparr>) = (Inr cands, w2)"
  shows "\<exists>ws rest. sent (snd (searchAndResolve E req keys topK w)) = sent w @ RpcSearch req #
      map (\<lambda>win. RpcGetMetadata (metadataRequest win (sr_filter_scope req))) ws \<and>
    concat ws @ rest = sliceStable outranks cands \<and>
    length ws \<le> (if 0 < topK \<and> topK < 2 ^ 62 then (length cands + 2 * nat topK - 1) div (2 * nat topK) else 1)"
proof -
  let ?b = "windowSize topK (length cands)" and ?cs = "sliceStable outranks cands"
  obtain n where n: "sent (snd (resolveLoop E (sr_filter_scope req) topK ?b ?cs [] {} w2)) =
      sent w2 @ map (\<lambda>win. RpcGetMetadata (metadataRequest win (sr_filter_scope req))) (take n (windows ?b ?cs))"
    using resolveLoop_sent by blast
  have "sent w2 = sent w @ [RpcSearch req]"
    using sameRest_client(2)[OF keepsD[OF rest_collectCands assms(3)]] by simp
  moreover have "length (take n (windows ?b ?cs)) \<le> length (windows ?b ?cs)" by simp
  then have "length (take n (windows ?b ?cs)) \<le>
      (if 0 < topK \<and> topK < 2 ^ 62 then (length cands + 2 * nat topK - 1) div (2 * nat topK) else 1)"
    using windowCount[OF assms(1), of ?cs, unfolded length_sliceStable] by (rule order_trans)
  moreover have "concat (windows ?b ?cs) = ?cs"
  proof (cases "cands = []")
    case True
    then have "?cs = []" by (metis length_0_conv length_sliceStable)
    then show ?thesis by (simp only: windows_step concat.simps)
  qed (rule concat_windows, use windowSize_pos[of "length cands" topK] in simp)
  then have "concat (take n (windows ?b ?cs)) @ concat (drop n (windows ?b ?cs)) = ?cs"
    by (metis append_take_drop_id concat_append)
  ultimately show ?thesis
    using n assms(2,3) by (intro exI[of _ "take n (windows ?b ?cs)"] exI) (simp add: searchAndResolve_run)
qed

text \<open>
  The dead-row bitmap round-trips: for the packed form the protocol documents (bit \<open>p\<close> of
  the rows in byte \<open>p div 8\<close>, least significant first, the buffer no longer than needed), the
  rows that become candidates are exactly those whose bit is clear, beyond the buffer all of
  them, in row order with their scores.
\<close>

theorem dead_bitmap_roundtrip:
  "appendCands dst flat cellID scores (packRows ((length bs + 7) div 8) bs) =
     dst @ map (\<lambda>i. \<lparr>cd_flat = flat, cd_cell = cellID, cd_row = int i, cd_score = scores ! i\<rparr>)
       (filter (\<lambda>i. \<not> (i < length bs \<and> bs ! i)) [0..<length scores])"
  using isDead_packRows[of bs "(length bs + 7) div 8"]
  by (simp add: appendCands_live liveRows_def)

text \<open>
  The \<open>ClusterID\<close> of a match tells the tier only for cell ids below \<open>2^31\<close>: for those it
  is the flat sentinel exactly for flat hits and the cell id otherwise; a cluster cell with
  the id \<open>2^32 - 1\<close> is reported with the flat sentinel, and every id from \<open>2^31\<close> on as a
  negative number.
\<close>

theorem cluster_id_sentinel:
  "m_cluster (matchOf p i md) =
    (if cd_flat p then FlatClusterID
     else if uint (cd_cell p) < 2 ^ 31 then uint (cd_cell p) else uint (cd_cell p) - 2 ^ 32) \<and>
   (m_cluster (matchOf p i md) = FlatClusterID \<longleftrightarrow> cd_flat p \<or> cd_cell p = -1)"
proof -
  have "uint (- 1 :: 32 word) = 4294967295" by (simp add: unsigned_minus_1_eq_mask mask_eq_exp_minus_1)
  then have "cd_cell p = -1 \<longleftrightarrow> uint (cd_cell p) = 4294967295" by (metis word_uint_eq_iff)
  moreover have "uint (cd_cell p) \<noteq> - 1" using uint_ge_0[of "cd_cell p"] by linarith
  ultimately show ?thesis by (auto simp: matchOf_def FlatClusterID_def sint32)
qed

text \<open>The sample server's response, its candidates and their ranking, for the witnesses.\<close>

definition sampleResponse :: SearchResponse where
  "sampleResponse = \<lparr>sp_tomb_epoch = 0, sp_rmp = [\<lparr>cr_cell_id = 7, cr_blob = [1], cr_dead = [2]\<rparr>],
     sp_mm = [\<lparr>cr_cell_id = 3, cr_blob = [1], cr_dead = []\<rparr>]\<rparr>"

definition sampleCands :: "cand list" where
  "sampleCands =
     [\<lparr>cd_flat = True, cd_cell = 7, cd_row = 0, cd_score = Num 0\<rparr>,
      \<lparr>cd_flat = False, cd_cell = 3, cd_row = 0, cd_score = Num 3\<rparr>,
      \<lparr>cd_flat = False, cd_cell = 3, cd_row = 1, cd_score = Num 1\<rparr>]"

definition sampleRequest :: SearchRequest where
  "sampleRequest = \<lparr>sr_query = [Num 1, Num 0], sr_filter_scope = []\<rparr>"

lemma sampleServer_resolves: "resolvesBy sampleDirectory sampleServer"
  by (simp add: resolvesBy_def sampleServer_def)

lemma sampleServer_search: "sv_search sampleServer hist t q = Inr sampleResponse"
  by (simp add: sampleServer_def sampleResponse_def)

lemma sampleServer_finite: "\<forall>k. NaN \<notin> set (c_scores sampleServer k)"
  by (simp add: sampleServer_def)

lemma sample_decrypt:
  fixes w :: client_world
  assumes "k_objs w = [sampleKeys]"
  shows "\<exists>w'. DecryptResult sampleServer (Some 0) [1] w = (Inr [Num (of_nat (Suc (tick w) mod 5)), Num 1], w') \<and>
      k_objs w' = [sampleKeys] \<and> tick w' = tick w + 3"
    and "\<exists>w'. DecryptClustered sampleServer (Some 0) [1] w = (Inr [Num (of_nat (Suc (tick w) mod 5)), Num 1], w') \<and>
      k_objs w' = [sampleKeys] \<and> tick w' = tick w + 3"
  using assms
  by (simp_all add: DecryptResult_def DecryptClustered_def keysAt_def sampleKeys_def sampleBundle_def DecryptSearchResult_def
      scoped_def andThen_def deferring_def c_create_def c_acquire_def c_invoke_def c_step_def eviFailed_def
      EVI_STATUS_SUCCESS_def sampleServer_calls run_simps Let_def c_created_def c_free_def)

lemma sample_collect:
  fixes w :: client_world
  assumes "k_objs w = [sampleKeys]" and "tick w = 9"
  shows "\<exists>w'. collectCands sampleServer (Some 0) sampleResponse w = (Inr sampleCands, w')"
proof -
  obtain w1 where w1: "DecryptResult sampleServer (Some 0) [1] w = (Inr [Num 0, Num 1], w1)"
    "k_objs w1 = [sampleKeys]" "tick w1 = 12"
    using sample_decrypt(1)[OF assms(1)] assms(2) by auto
  obtain w2 where w2: "DecryptClustered sampleServer (Some 0) [1] w1 = (Inr [Num 3, Num 1], w2)"
    using sample_decrypt(2)[OF w1(2)] w1(3) by auto
  have "isDead [2] 1" "\<not> isDead [2] 0" "\<not> isDead [] 0" "\<not> isDead [] 1" by (simp_all add: isDead_def)
  then have "appendCands [] True 7 [Num 0, Num 1] [2] = [sampleCands ! 0]"
    "appendCands [sampleCands ! 0] False 3 [Num 3, Num 1] [] = sampleCands"
    by (simp_all add: appendCands_def sampleCands_def)
  then show ?thesis
    by (simp add: collectCands_def sampleResponse_def andThen_def mapErr_def w1 w2 run_simps)
qed

lemma sample_ranked: "sliceStable outranks sampleCands = [sampleCands ! 1, sampleCands ! 2, sampleCands ! 0]"
  by (simp add: sliceStable_def sampleCands_def outranks_def)

abbreviation sampleSearch :: "int \<Rightarrow> (err + Match list) \<times> client_world" where
  "sampleSearch topK \<equiv> searchAndResolve sampleServer sampleRequest (Some 0) topK sampleClientWorld"

lemma sample_collected:
  "\<exists>w2. collectCands sampleServer (Some 0) sampleResponse (sampleClientWorld\<lparr>tick := Suc (tick sampleClientWorld),
     sent := sent sampleClientWorld @ [RpcSearch sampleRequest]\<rparr>) = (Inr sampleCands, w2)"
  by (rule sample_collect) (simp_all add: sampleClientWorld_def)

definition sampleMatches :: "Match list" where
  "sampleMatches =
     [\<lparr>m_id = ''clustered'', m_metadata = ''{}'', m_cluster = 3, m_row = 0, m_score = Num 3\<rparr>,
      \<lparr>m_id = ''flat'', m_metadata = ''{}'', m_cluster = -1, m_row = 0, m_score = Num 0\<rparr>]"

lemma sample_hits:
  "topHits 2 (map (\<lambda>p. (p, resolvedAs sampleDirectory [] p)) (sliceStable outranks sampleCands)) = sampleMatches"
  by (simp add: sample_ranked) (simp add: sampleCands_def topHits_def firstK_def resolvedAs_def
      sampleDirectory_def hitMatch_def matchOf_def sampleMatches_def FlatClusterID_def)

theorem search_refines_spec_witness: "fst (sampleSearch 2) = Inr sampleMatches"
  using search_refines_spec[OF sampleServer_resolves, of sampleRequest "Some 0" 2 sampleClientWorld] sample_collected
  by (auto simp: sampleServer_search sample_hits sampleRequest_def)

lemma sample_result: "\<exists>w'. sampleSearch 2 = (Inr sampleMatches, w')"
proof -
  have "fst (sampleSearch 2) = Inr sampleMatches"
    using sample_collected
    by (auto simp: searchAndResolve_run Let_def sampleServer_search resolveRanked_aligned[OF sampleServer_resolves]
        sampleRequest_def sample_hits)
  then show ?thesis by (metis prod.collapse)
qed

theorem search_results_sound_witness:
  "distinct (map m_id sampleMatches) \<and> int (length sampleMatches) \<le> 2"
proof -
  obtain w' where "sampleSearch 2 = (Inr sampleMatches, w')" using sample_result by blast
  from search_results_sound[OF this] show ?thesis by simp
qed

theorem search_returns_best_witness:
  "\<exists>ms. fst (sampleSearch 1) = Inr ms \<and>
    ((\<exists>m \<in> set ms. m_id m = ''flat'' \<and> \<not> fgt (Num 0) (m_score m)) \<or>
     (length ms = 1 \<and> (\<forall>m \<in> set ms. \<not> fgt (Num 0) (m_score m))))"
proof -
  obtain w2 where c: "collectCands sampleServer (Some 0) sampleResponse (sampleClientWorld\<lparr>tick := Suc (tick sampleClientWorld),
     sent := sent sampleClientWorld @ [RpcSearch sampleRequest]\<rparr>) = (Inr sampleCands, w2)"
    using sample_collected by blast
  have p: "sampleCands ! 0 \<in> set sampleCands" "fst (resolvedAs sampleDirectory [] (sampleCands ! 0)) = ''flat''"
    "cd_score (sampleCands ! 0) = Num 0"
    by (simp_all add: sampleCands_def resolvedAs_def sampleDirectory_def)
  have scope: "sr_filter_scope sampleRequest = []" by (simp add: sampleRequest_def)
  from search_returns_best[OF sampleServer_resolves sampleServer_finite sampleServer_search c, of 1] obtain ms where
    ms: "fst (sampleSearch 1) = Inr ms"
    "\<forall>p \<in> set sampleCands. fst (resolvedAs sampleDirectory [] p) \<noteq> [] \<longrightarrow>
      (\<exists>m \<in> set ms. m_id m = fst (resolvedAs sampleDirectory [] p) \<and> \<not> fgt (cd_score p) (m_score m)) \<or>
      ((1::int) > 0 \<and> int (length ms) = 1 \<and> (\<forall>m \<in> set ms. \<not> fgt (cd_score p) (m_score m)))"
    unfolding scope by blast
  from ms(2)[rule_format, OF p(1)] p(2,3) have
    "(\<exists>m \<in> set ms. m_id m = ''flat'' \<and> \<not> fgt (Num 0) (m_score m)) \<or>
     (length ms = 1 \<and> (\<forall>m \<in> set ms. \<not> fgt (Num 0) (m_score m)))" by simp
  with ms(1) show ?thesis by blast
qed

text \<open>Three candidates and \<open>topK = 1\<close>: at most two requests.\<close>

theorem search_ends_within_witness:
  "\<exists>ws. sent (snd (sampleSearch 1)) = sent sampleClientWorld @ RpcSearch sampleRequest #
      map (\<lambda>win. RpcGetMetadata (metadataRequest win (sr_filter_scope sampleRequest))) ws \<and>
    length ws \<le> (length sampleCands + 1) div 2"
proof -
  obtain w2 where c: "collectCands sampleServer (Some 0) sampleResponse (sampleClientWorld\<lparr>tick := Suc (tick sampleClientWorld),
     sent := sent sampleClientWorld @ [RpcSearch sampleRequest]\<rparr>) = (Inr sampleCands, w2)"
    using sample_collected by blast
  have "is_int64 1" by (simp add: is_int64_def)
  from search_ends_within[OF this sampleServer_search c] show ?thesis by auto
qed

end
