(* ===== verification/Go_JSON.thy ===== *)
theory Go_JSON
  imports Prelude
begin

text \<open>
  \<open>encoding/json.Valid\<close>, which \<open>Insert\<close> and \<open>InsertPreEncrypted\<close> apply to the metadata: the
  library's scanner, one step per byte, with its stack of enclosing objects and arrays and
  its limit on the nesting depth.
\<close>

section \<open>The scanner\<close>

datatype parseState = ParseObjectKey | ParseObjectValue | ParseArrayValue

datatype scanStep =
    BeginValueOrEmpty | BeginValue | BeginStringOrEmpty | BeginString | EndValue | EndTop
  | InString | InStringEsc | InStringEscU nat
  | Neg | Digits1 | Digit0 | Dot | Dot0 | Exp | ExpSign | Exp0
  | Literal "nat list"

record scanner =
  sc_step :: scanStep
  sc_stack :: "parseState list"
  sc_endTop :: bool

definition maxNestingDepth :: nat where
  "maxNestingDepth = 10000"

definition jsonSpace :: "nat \<Rightarrow> bool" where
  "jsonSpace c \<longleftrightarrow> c = 32 \<or> c = 9 \<or> c = 10 \<or> c = 13"

definition digit :: "nat \<Rightarrow> bool" where
  "digit c \<longleftrightarrow> 48 \<le> c \<and> c \<le> 57"

definition hexDigit :: "nat \<Rightarrow> bool" where
  "hexDigit c \<longleftrightarrow> digit c \<or> 97 \<le> c \<and> c \<le> 102 \<or> 65 \<le> c \<and> c \<le> 70"

definition pushParseState :: "parseState \<Rightarrow> scanStep \<Rightarrow> scanner \<Rightarrow> scanner option" where
  "pushParseState p st s =
     (if Suc (length (sc_stack s)) \<le> maxNestingDepth
      then Some (s\<lparr>sc_step := st, sc_stack := p # sc_stack s\<rparr>) else None)"

definition popParseState :: "scanner \<Rightarrow> scanner" where
  "popParseState s =
     (case sc_stack s of
        [] \<Rightarrow> s
      | p # ps \<Rightarrow>
          if ps = [] then s\<lparr>sc_stack := [], sc_step := EndTop, sc_endTop := True\<rparr>
          else s\<lparr>sc_stack := ps, sc_step := EndValue\<rparr>)"

definition stateEndTop :: "nat \<Rightarrow> scanner \<Rightarrow> scanner option" where
  "stateEndTop c s = (if jsonSpace c then Some s else None)"

definition stateEndValue :: "nat \<Rightarrow> scanner \<Rightarrow> scanner option" where
  "stateEndValue c s =
     (case sc_stack s of
        [] \<Rightarrow> stateEndTop c (s\<lparr>sc_step := EndTop, sc_endTop := True\<rparr>)
      | p # ps \<Rightarrow>
          if jsonSpace c then Some (s\<lparr>sc_step := EndValue\<rparr>)
          else (case p of
              ParseObjectKey \<Rightarrow>
                if c = 58 then Some (s\<lparr>sc_stack := ParseObjectValue # ps, sc_step := BeginValue\<rparr>) else None
            | ParseObjectValue \<Rightarrow>
                if c = 44 then Some (s\<lparr>sc_stack := ParseObjectKey # ps, sc_step := BeginString\<rparr>)
                else if c = 125 then Some (popParseState s) else None
            | ParseArrayValue \<Rightarrow>
                if c = 44 then Some (s\<lparr>sc_step := BeginValue\<rparr>)
                else if c = 93 then Some (popParseState s) else None))"

definition stateBeginValue :: "nat \<Rightarrow> scanner \<Rightarrow> scanner option" where
  "stateBeginValue c s =
     (if jsonSpace c then Some s
      else if c = 123 then pushParseState ParseObjectKey BeginStringOrEmpty s
      else if c = 91 then pushParseState ParseArrayValue BeginValueOrEmpty s
      else if c = 34 then Some (s\<lparr>sc_step := InString\<rparr>)
      else if c = 45 then Some (s\<lparr>sc_step := Neg\<rparr>)
      else if c = 48 then Some (s\<lparr>sc_step := Digit0\<rparr>)
      else if c = 116 then Some (s\<lparr>sc_step := Literal [114, 117, 101]\<rparr>)
      else if c = 102 then Some (s\<lparr>sc_step := Literal [97, 108, 115, 101]\<rparr>)
      else if c = 110 then Some (s\<lparr>sc_step := Literal [117, 108, 108]\<rparr>)
      else if 49 \<le> c \<and> c \<le> 57 then Some (s\<lparr>sc_step := Digits1\<rparr>)
      else None)"

definition stateBeginString :: "nat \<Rightarrow> scanner \<Rightarrow> scanner option" where
  "stateBeginString c s =
     (if jsonSpace c then Some s else if c = 34 then Some (s\<lparr>sc_step := InString\<rparr>) else None)"

definition state0 :: "nat \<Rightarrow> scanner \<Rightarrow> scanner option" where
  "state0 c s =
     (if c = 46 then Some (s\<lparr>sc_step := Dot\<rparr>)
      else if c = 101 \<or> c = 69 then Some (s\<lparr>sc_step := Exp\<rparr>)
      else stateEndValue c s)"

definition stateESign :: "nat \<Rightarrow> scanner \<Rightarrow> scanner option" where
  "stateESign c s = (if digit c then Some (s\<lparr>sc_step := Exp0\<rparr>) else None)"

text \<open>One byte.\<close>

fun scanByte :: "nat \<Rightarrow> scanStep \<Rightarrow> scanner \<Rightarrow> scanner option" where
  "scanByte c BeginValueOrEmpty s =
     (if jsonSpace c then Some s else if c = 93 then stateEndValue c s else stateBeginValue c s)"
| "scanByte c BeginValue s = stateBeginValue c s"
| "scanByte c BeginStringOrEmpty s =
     (if jsonSpace c then Some s
      else if c = 125 then stateEndValue c (s\<lparr>sc_stack := ParseObjectValue # tl (sc_stack s)\<rparr>)
      else stateBeginString c s)"
| "scanByte c BeginString s = stateBeginString c s"
| "scanByte c EndValue s = stateEndValue c s"
| "scanByte c EndTop s = stateEndTop c s"
| "scanByte c InString s =
     (if c = 34 then Some (s\<lparr>sc_step := EndValue\<rparr>)
      else if c = 92 then Some (s\<lparr>sc_step := InStringEsc\<rparr>)
      else if c < 32 then None else Some s)"
| "scanByte c InStringEsc s =
     (if c \<in> {98, 102, 110, 114, 116, 92, 47, 34} then Some (s\<lparr>sc_step := InString\<rparr>)
      else if c = 117 then Some (s\<lparr>sc_step := InStringEscU 3\<rparr>) else None)"
| "scanByte c (InStringEscU n) s =
     (if hexDigit c
      then Some (s\<lparr>sc_step := (case n of 0 \<Rightarrow> InString | Suc m \<Rightarrow> InStringEscU m)\<rparr>) else None)"
| "scanByte c Neg s =
     (if c = 48 then Some (s\<lparr>sc_step := Digit0\<rparr>)
      else if 49 \<le> c \<and> c \<le> 57 then Some (s\<lparr>sc_step := Digits1\<rparr>) else None)"
| "scanByte c Digits1 s = (if digit c then Some s else state0 c s)"
| "scanByte c Digit0 s = state0 c s"
| "scanByte c Dot s = (if digit c then Some (s\<lparr>sc_step := Dot0\<rparr>) else None)"
| "scanByte c Dot0 s =
     (if digit c then Some s
      else if c = 101 \<or> c = 69 then Some (s\<lparr>sc_step := Exp\<rparr>) else stateEndValue c s)"
| "scanByte c Exp s =
     (if c = 43 \<or> c = 45 then Some (s\<lparr>sc_step := ExpSign\<rparr>) else stateESign c s)"
| "scanByte c ExpSign s = stateESign c s"
| "scanByte c Exp0 s = (if digit c then Some s else stateEndValue c s)"
| "scanByte c (Literal cs) s =
     (case cs of
        [] \<Rightarrow> None
      | d # ds \<Rightarrow>
          if c = d then Some (s\<lparr>sc_step := (if ds = [] then EndValue else Literal ds)\<rparr>) else None)"

definition scanEof :: "scanner \<Rightarrow> bool" where
  "scanEof s =
     (if sc_endTop s then True
      else (case scanByte 32 (sc_step s) s of None \<Rightarrow> False | Some s' \<Rightarrow> sc_endTop s'))"

fun scanAll :: "nat list \<Rightarrow> scanner \<Rightarrow> bool" where
  "scanAll [] s = scanEof s"
| "scanAll (c # cs) s = (case scanByte c (sc_step s) s of None \<Rightarrow> False | Some s' \<Rightarrow> scanAll cs s')"

definition jsonValid :: "string \<Rightarrow> bool" where
  "jsonValid data = scanAll (map of_char data) \<lparr>sc_step = BeginValue, sc_stack = [], sc_endTop = False\<rparr>"

lemma jsonValid_samples:
  "jsonValid ''{}''" "jsonValid ''[]''" "jsonValid '' 0 ''" "\<not> jsonValid '' ''" "\<not> jsonValid ''{''"
  "\<not> jsonValid ''01''" "\<not> jsonValid ''[1,]''" "jsonValid (''{'' @ [CHR 0x22, CHR 0x61, CHR 0x22] @ '':-2.5e3}'')"
  by code_simp+

end
