(* ===== verification/Insert_Path.thy ===== *)
theory Insert_Path
  imports Search_Path Normalization Go_JSON
begin

text \<open>
  \<open>client.go\<close> and \<open>insertpre.go\<close>: \<open>Insert\<close>, its retries, and \<open>InsertPreEncrypted\<close>.
\<close>

section \<open>Options and retries\<close>

type_synonym InsertOption = "InsertRequest \<Rightarrow> InsertRequest"

definition WithFilterTags :: "string list \<Rightarrow> InsertOption" where
  "WithFilterTags tags r = r\<lparr>ir_filter_tags := tags\<rparr>"

fun applyInsertOptions :: "InsertOption list \<Rightarrow> InsertRequest \<Rightarrow> InsertRequest" where
  "applyInsertOptions [] req = req"
| "applyInsertOptions (opt # opts) req = applyInsertOptions opts (opt req)"

definition maxAttempts :: nat where
  "maxAttempts = 3"

text \<open>
  The \<open>select\<close> between the context and the timer: the environment says which of the two
  comes first.
\<close>

definition backoff :: "'e client_env_scheme \<Rightarrow> (err, 'w client_world_scheme, unit) io" where
  "backoff E w =
     (case ctx_done E (tick w) of None \<Rightarrow> Inr () | Some e \<Rightarrow> Inl e, w\<lparr>tick := Suc (tick w)\<rparr>)"

definition mismatchError :: "grpc_lib \<Rightarrow> InsertRequest \<Rightarrow> err \<Rightarrow> err" where
  "mismatchError G req e = Errorf [Lit ''runespace: insert '', Str (ir_id req), Lit '': '',
     Str (st_message (convertErr G e)), Lit '': '', Wrap (Sentinel ErrCentroidVersionMismatch)]"

text \<open>The loop: attempts made, attempts left, the last error.\<close>

fun insertAttempts :: "'e client_env_scheme \<Rightarrow> InsertRequest \<Rightarrow> nat \<Rightarrow> nat \<Rightarrow> err option \<Rightarrow>
    (err, 'w client_world_scheme, unit) io" where
  "insertAttempts E req tried 0 lastErr = (case lastErr of None \<Rightarrow> ret () | Some e \<Rightarrow> throw e)"
| "insertAttempts E req tried (Suc left) lastErr =
     andThen (if tried > 0 then backoff E else ret ()) (\<lambda>_.
     andThen (attempt (invoke (sv_insert E) RpcInsert req)) (\<lambda>r. case r of
       Inr _ \<Rightarrow> ret ()
     | Inl e \<Rightarrow>
         if isCentroidVersionMismatch (rpc_status E) e then throw (mismatchError (rpc_status E) req e)
         else if codeOf (rpc_status E) e \<noteq> Unavailable then throw e
         else insertAttempts E req (Suc tried) left (Some e)))"

definition insertWithRetry :: "'e client_env_scheme \<Rightarrow> InsertRequest \<Rightarrow> (err, 'w client_world_scheme, unit) io" where
  "insertWithRetry E req = insertAttempts E req 0 maxAttempts None"

section \<open>Insert\<close>

definition newUUID :: "'e client_env_scheme \<Rightarrow> (err, 'w client_world_scheme, string) io" where
  "newUUID E w = (Inr (new_uuid E (tick w)), w\<lparr>tick := Suc (tick w)\<rparr>)"

definition setDimMismatch :: "int \<Rightarrow> int \<Rightarrow> err" where
  "setDimMismatch setDim len =
     Errorf [Wrap (Sentinel ErrDimMismatch), Lit '': centroid set dim '', Dec setDim, Lit '', vector '', Dec len]"

definition Insert :: "'e client_env_scheme \<Rightarrow> gofloat list \<Rightarrow> string \<Rightarrow> InsertOption list \<Rightarrow>
    (err, 'w client_world_scheme, string) io" where
  "Insert E vec0 metadata opts =
     withKeys vec0 (\<lambda>keys.
     if metadata \<noteq> [] \<and> \<not> jsonValid metadata then throw (Sentinel ErrInvalidMetadata)
     else let vec = l2normalize vec0 in
     andThen (mapErr (wrapf ''runespace: encrypt flat item'') (EncryptFlat E keys vec)) (\<lambda>rmpItem.
     andThen (newUUID E) (\<lambda>i.
     let req = \<lparr>ir_id = i, ir_metadata = metadata, ir_rmp_item = Some \<lparr>rmp_item = rmpItem\<rparr>,
       ir_mm_item = None, ir_filter_tags = []\<rparr> in
     andThen (centroidSetCached E) (\<lambda>cached.
     if \<not> enabled cached then throw (Sentinel ErrClusterRequired)
     else let cs = the cached in
     if cs_dim cs \<noteq> int (length vec) then throw (setDimMismatch (cs_dim cs) (int (length vec)))
     else andThen (mapErr (wrapf ''runespace: encrypt clustered item'') (EncryptClustered E keys vec)) (\<lambda>mmItem.
     let req' = applyInsertOptions opts (req\<lparr>ir_mm_item :=
       Some \<lparr>mm_item = mmItem, mm_cluster_id = assign cs vec, mm_set_version = cs_version cs\<rparr>\<rparr>) in
     andThen (insertWithRetry E req') (\<lambda>_. ret i))))))"

section \<open>Pre-encrypted items\<close>

record PreEncryptedItem =
  pe_id :: string
  pe_rmp_blob :: bytes
  pe_mm_blob :: bytes
  pe_cluster_id :: uint32
  pe_set_version :: string
  pe_metadata :: string

definition preErr :: "string \<Rightarrow> string \<Rightarrow> err" where
  "preErr i msg = Errorf [Lit ''runespace: pre-encrypted insert '', Str i, Lit '': '', Lit msg]"

definition validateItem :: "PreEncryptedItem \<Rightarrow> err + unit" where
  "validateItem it =
     (if pe_id it = []
      then Inl (Errorf [Lit ''runespace: pre-encrypted insert: id is required (idempotent retry key)''])
      else if pe_rmp_blob it = [] then Inl (preErr (pe_id it) ''rmp blob is empty'')
      else if pe_mm_blob it = []
      then Inl (preErr (pe_id it) ''mm blob is empty (clustered tier is mandatory)'')
      else if pe_set_version it = [] then Inl (preErr (pe_id it) ''centroid_set_version is empty'')
      else if pe_metadata it \<noteq> [] \<and> \<not> jsonValid (pe_metadata it) then Inl (Sentinel ErrInvalidMetadata)
      else Inr ())"

definition preEncryptedRequest :: "PreEncryptedItem \<Rightarrow> InsertRequest" where
  "preEncryptedRequest it =
     \<lparr>ir_id = pe_id it, ir_metadata = pe_metadata it, ir_rmp_item = Some \<lparr>rmp_item = pe_rmp_blob it\<rparr>,
      ir_mm_item = Some \<lparr>mm_item = pe_mm_blob it, mm_cluster_id = pe_cluster_id it,
        mm_set_version = pe_set_version it\<rparr>,
      ir_filter_tags = []\<rparr>"

definition InsertPreEncrypted :: "'e client_env_scheme \<Rightarrow> PreEncryptedItem \<Rightarrow> InsertOption list \<Rightarrow>
    (err, 'w client_world_scheme, unit) io" where
  "InsertPreEncrypted E it opts =
     whenOpen (andThen (liftRes (validateItem it)) (\<lambda>_.
       insertWithRetry E (applyInsertOptions opts (preEncryptedRequest it))))"

section \<open>The retry loop\<close>

definition retryable :: "grpc_lib \<Rightarrow> err \<Rightarrow> bool" where
  "retryable G e \<longleftrightarrow> \<not> isCentroidVersionMismatch G e \<and> codeOf G e = Unavailable"

lemma insertAttempts_step:
  "insertAttempts E req tried (Suc left) lastErr w =
    (case (if tried > 0 then backoff E w else (Inr (), w)) of
       (Inl e, w1) \<Rightarrow> (Inl e, w1)
     | (Inr _, w1) \<Rightarrow>
         (let w2 = w1\<lparr>tick := Suc (tick w1), sent := sent w1 @ [RpcInsert req]\<rparr> in
          case sv_insert E (sent w1) (tick w1) req of
            Inr _ \<Rightarrow> (Inr (), w2)
          | Inl e \<Rightarrow>
              if isCentroidVersionMismatch (rpc_status E) e then (Inl (mismatchError (rpc_status E) req e), w2)
              else if codeOf (rpc_status E) e \<noteq> Unavailable then (Inl e, w2)
              else insertAttempts E req (Suc tried) left (Some e) w2))"
  by (simp add: andThen_def attempt_def invoke_run run_simps Let_def split: sum.split prod.split)

declare insertAttempts.simps(2) [simp del]

lemma backoff_frame: "backoff E w = (r, w') \<Longrightarrow> sent w' = sent w \<and> cl w' = cl w \<and> tick w' = Suc (tick w)"
  by (auto simp: backoff_def)

lemma insertAttempts_frame:
  "\<exists>n \<le> left. sent (snd (insertAttempts E req tried left lastErr w)) = sent w @ replicate n (RpcInsert req) \<and>
    cl (snd (insertAttempts E req tried left lastErr w)) = cl w \<and> (tried = 0 \<and> left > 0 \<longrightarrow> n > 0)"
proof (induction left arbitrary: tried lastErr w)
  case 0
  then show ?case by (auto simp: run_simps split: option.split)
next
  case (Suc left)
  obtain r w1 where first: "(if tried > 0 then backoff E w else (Inr (), w)) = (r, w1)" by (metis surj_pair)
  have w1: "sent w1 = sent w" "cl w1 = cl w"
    using first backoff_frame by (fastforce split: if_splits)+
  let ?w2 = "w1\<lparr>tick := Suc (tick w1), sent := sent w1 @ [RpcInsert req]\<rparr>"
  let ?res = "insertAttempts E req tried (Suc left) lastErr w"
  have step: "?res = (case r of Inl e \<Rightarrow> (Inl e, w1) | Inr _ \<Rightarrow>
      (case sv_insert E (sent w1) (tick w1) req of
            Inr _ \<Rightarrow> (Inr (), ?w2)
          | Inl e \<Rightarrow>
              if isCentroidVersionMismatch (rpc_status E) e then (Inl (mismatchError (rpc_status E) req e), ?w2)
              else if codeOf (rpc_status E) e \<noteq> Unavailable then (Inl e, ?w2)
              else insertAttempts E req (Suc tried) left (Some e) ?w2))"
    by (simp only: insertAttempts_step first Let_def prod.case)
  have "(\<exists>e. r = Inl e) \<or> r = Inr () \<and> (snd ?res = ?w2 \<or>
      (\<exists>e. ?res = insertAttempts E req (Suc tried) left (Some e) ?w2))"
    by (auto simp: step split: sum.split)
  then consider (stop) e where "r = Inl e" | (once) "snd ?res = ?w2"
    | (more) e where "?res = insertAttempts E req (Suc tried) left (Some e) ?w2"
    by blast
  then show ?case
  proof cases
    case stop
    moreover have "tried > 0" using first stop by (auto split: if_splits)
    ultimately show ?thesis using w1 by (intro exI[of _ 0]) (simp add: step)
  next
    case once
    then show ?thesis using w1 by (intro exI[of _ 1]) simp
  next
    case more
    obtain n where n: "n \<le> left"
      "sent (snd (insertAttempts E req (Suc tried) left (Some e) ?w2)) = sent ?w2 @ replicate n (RpcInsert req)"
      "cl (snd (insertAttempts E req (Suc tried) left (Some e) ?w2)) = cl ?w2"
      using Suc.IH[of "Suc tried" "Some e" ?w2] by blast
    have "sent (snd ?res) = sent w @ replicate (Suc n) (RpcInsert req)"
      using n(2) w1 by (simp add: more)
    then show ?thesis using n(1,3) w1 more by (intro exI[of _ "Suc n"]) simp
  qed
qed

lemma insertWithRetry_frame:
  obtains n where "0 < n" "n \<le> 3"
    "sent (snd (insertWithRetry E req w)) = sent w @ replicate n (RpcInsert req)"
    "cl (snd (insertWithRetry E req w)) = cl w"
  using insertAttempts_frame[of maxAttempts E req 0 None w] by (auto simp: insertWithRetry_def maxAttempts_def)

text \<open>The answer to attempt \<open>k\<close> when no earlier one ended the loop.\<close>

definition replyAt :: "'e client_env_scheme \<Rightarrow> InsertRequest \<Rightarrow> 'w client_world_scheme \<Rightarrow> nat \<Rightarrow> err + unit" where
  "replyAt E req w k = sv_insert E (sent w @ replicate k (RpcInsert req)) (tick w + 2 * k) req"

lemma insertAttempts_replies:
  assumes "\<forall>t. ctx_done E t = None" and "tick w = start + 2 * tried - (if tried > 0 then 1 else 0)"
    and "sent w = hist @ replicate tried (RpcInsert req)"
  defines "reply k \<equiv> sv_insert E (hist @ replicate k (RpcInsert req)) (start + 2 * k) req"
  shows "fst (insertAttempts E req tried left (Some prev) w) = Inr () \<longleftrightarrow>
    (\<exists>k. tried \<le> k \<and> k < tried + left \<and> (\<exists>u. reply k = Inr u) \<and>
      (\<forall>j. tried \<le> j \<and> j < k \<longrightarrow> (\<exists>e. reply j = Inl e \<and> retryable (rpc_status E) e)))"
  using assms(2,3)
proof (induction left arbitrary: tried prev w)
  case 0
  then show ?case by (simp add: run_simps)
next
  case (Suc left)
  define w1 where "w1 = (if tried > 0 then w\<lparr>tick := Suc (tick w)\<rparr> else w)"
  have first: "(if tried > 0 then backoff E w else (Inr (), w)) = (Inr (), w1)"
    using assms(1) by (simp add: backoff_def w1_def)
  have t1: "tick w1 = start + 2 * tried" and s1: "sent w1 = hist @ replicate tried (RpcInsert req)"
    using Suc.prems by (auto simp: w1_def)
  have now: "sv_insert E (sent w1) (tick w1) req = reply tried" by (simp add: reply_def t1 s1)
  show ?case
  proof (cases "\<exists>e. reply tried = Inl e \<and> retryable (rpc_status E) e")
    case True
    then obtain e where e: "reply tried = Inl e" "retryable (rpc_status E) e" by blast
    let ?w2 = "w1\<lparr>tick := Suc (tick w1), sent := sent w1 @ [RpcInsert req]\<rparr>"
    have "insertAttempts E req tried (Suc left) (Some prev) w = insertAttempts E req (Suc tried) left (Some e) ?w2"
      using e by (simp only: insertAttempts_step first prod.case sum.case Let_def now retryable_def) simp
    moreover have "fst (insertAttempts E req (Suc tried) left (Some e) ?w2) = Inr () \<longleftrightarrow>
      (\<exists>k. Suc tried \<le> k \<and> k < Suc tried + left \<and> (\<exists>u. reply k = Inr u) \<and>
        (\<forall>j. Suc tried \<le> j \<and> j < k \<longrightarrow> (\<exists>e. reply j = Inl e \<and> retryable (rpc_status E) e)))"
      by (rule Suc.IH) (simp_all add: t1 s1 replicate_append_same)
    moreover have "tried \<le> k \<and> k < tried + Suc left \<and> (\<exists>u. reply k = Inr u) \<longleftrightarrow>
        Suc tried \<le> k \<and> k < Suc tried + left \<and> (\<exists>u. reply k = Inr u)" for k
      using e(1) by (cases "k = tried") auto
    moreover have "(\<forall>j. tried \<le> j \<and> j < k \<longrightarrow> (\<exists>e. reply j = Inl e \<and> retryable (rpc_status E) e)) \<longleftrightarrow>
        (\<forall>j. Suc tried \<le> j \<and> j < k \<longrightarrow> (\<exists>e. reply j = Inl e \<and> retryable (rpc_status E) e))" for k
      using True by (metis Suc_leI Suc_le_lessD le_neq_implies_less less_imp_le_nat)
    ultimately show ?thesis by simp metis
  next
    case stop: False
    have "fst (insertAttempts E req tried (Suc left) (Some prev) w) = Inr () \<longleftrightarrow> (\<exists>u. reply tried = Inr u)"
      using stop by (simp only: insertAttempts_step first prod.case sum.case Let_def now retryable_def)
        (auto split: sum.split)
    moreover have "tried \<le> k \<and> (\<forall>j. tried \<le> j \<and> j < k \<longrightarrow> (\<exists>e. reply j = Inl e \<and> retryable (rpc_status E) e)) \<longleftrightarrow>
        k = tried" for k
      using stop by (metis le_neq_implies_less less_irrefl order_refl leD)
    ultimately show ?thesis by (metis add_Suc_right less_add_Suc1)
  qed
qed

lemma insertWithRetry_replies:
  assumes "\<forall>t. ctx_done E t = None"
  shows "fst (insertWithRetry E req w) = Inr () \<longleftrightarrow>
    (\<exists>k < 3. (\<exists>u. replyAt E req w k = Inr u) \<and>
      (\<forall>j < k. \<exists>e. replyAt E req w j = Inl e \<and> retryable (rpc_status E) e))"
proof -
  have start: "insertWithRetry E req w = insertAttempts E req 0 3 (Some EOF) w"
    by (simp only: insertWithRetry_def maxAttempts_def insertAttempts_step numeral_3_eq_3)
  show ?thesis
    unfolding start
    using insertAttempts_replies[OF assms, where tried = 0 and left = 3 and w = w and start = "tick w"
        and hist = "sent w" and prev = EOF]
    by (simp add: replyAt_def)
qed

section \<open>What an insert sends\<close>

text \<open>The item an insert sends, in the form the forwarding path takes it.\<close>

definition routedItem :: "string \<Rightarrow> bytes \<Rightarrow> bytes \<Rightarrow> centroidSet \<Rightarrow> gofloat list \<Rightarrow> string \<Rightarrow> PreEncryptedItem" where
  "routedItem i rmp mm cs vec metadata = \<lparr>pe_id = i, pe_rmp_blob = rmp, pe_mm_blob = mm,
     pe_cluster_id = assign cs vec, pe_set_version = cs_version cs, pe_metadata = metadata\<rparr>"

definition fetched :: "'w client_world_scheme \<Rightarrow> rpc list" where
  "fetched w = (if cl_loaded (cl w) then [] else [RpcGetCentroids])"

lemma centroidSetCached_cases:
  fixes w :: "'w client_world_scheme"
  assumes "centroidSetCached E w = (r, w')"
  obtains (hit) "cl_loaded (cl w)" "r = Inr (cl_centroids (cl w))" "w' = w"
  | (fail) e where "\<not> cl_loaded (cl w)" "r = Inl e" "cl w' = cl w" "sent w' = sent w @ [RpcGetCentroids]"
  | (fill) cs where "\<not> cl_loaded (cl w)" "r = Inr (Some cs)" "centroidsAnswer E (sent w) (tick w) = Inr cs"
      "cl w' = (cl w)\<lparr>cl_centroids := Some cs, cl_loaded := True\<rparr>" "sent w' = sent w @ [RpcGetCentroids]"
proof (cases "cl_loaded (cl w)")
  case True
  with assms show ?thesis by (auto simp: centroidSetCached_loaded intro: hit)
next
  case False
  show ?thesis
  proof (cases "centroidsAnswer E (sent w) (tick w)")
    case (Inl e)
    with False assms show ?thesis by (auto simp: centroidSetCached_fetch Let_def intro: fail)
  next
    case (Inr cs)
    with False assms show ?thesis by (auto simp: centroidSetCached_fetch Let_def intro: fill)
  qed
qed

lemma newUUID_run: "newUUID E w = (Inr (new_uuid E (tick w)), w\<lparr>tick := Suc (tick w)\<rparr>)"
  by (simp add: newUUID_def)

text \<open>The guards, before any effect.\<close>

definition insertRefusal :: "'w client_world_scheme \<Rightarrow> gofloat list \<Rightarrow> string \<Rightarrow> err option" where
  "insertRefusal w vec metadata =
     (if \<not> cl_conn (cl w) then Some (Sentinel ErrClientClosed)
      else (case keysAt w (cl_keys (cl w)) of
          None \<Rightarrow> Some (Sentinel ErrKeysNotRegistered)
        | Some ks \<Rightarrow>
            if int (length vec) \<noteq> k_dim ks then Some (dimMismatch (int (length vec)) (k_dim ks))
            else if metadata \<noteq> [] \<and> \<not> jsonValid metadata then Some (Sentinel ErrInvalidMetadata)
            else None))"

lemma Insert_refused: "insertRefusal w vec metadata = Some e \<Longrightarrow> Insert E vec metadata opts w = (Inl e, w)"
  by (auto simp: insertRefusal_def Insert_def withKeys_def andThen_def run_simps KeysDim_def
      split: if_splits option.splits)

text \<open>Every outcome of an insert that passes the guards.\<close>

lemma Insert_outcome:
  fixes w :: "'w client_world_scheme"
  assumes run: "Insert E vec metadata opts w = (r, w')" and ok: "insertRefusal w vec metadata = None"
  obtains (early) e where "r = Inl e" "sent w' = sent w" "cl w' = cl w"
  | (routing) e where "r = Inl e" "sent w' = sent w @ fetched w" "cacheKept w w'"
      "cl_conn (cl w') = cl_conn (cl w)" "cl_keys (cl w') = cl_keys (cl w)"
  | (sending) i rmp mm cs n where
      "sent w' = sent w @ fetched w @
        replicate n (RpcInsert (applyInsertOptions opts (preEncryptedRequest (routedItem i rmp mm cs (l2normalize vec) metadata))))"
      "0 < n" "n \<le> 3" "cl w' = (cl w)\<lparr>cl_centroids := Some cs, cl_loaded := True\<rparr>"
      "enabled (Some cs)" "cs_dim cs = int (length vec)" "\<And>i'. r = Inr i' \<Longrightarrow> i' = i"
      "\<not> cl_loaded (cl w) \<Longrightarrow> \<exists>t. centroidsAnswer E (sent w) t = Inr cs"
proof -
  let ?vec = "l2normalize vec"
  obtain ks where g: "cl_conn (cl w)" "keysAt w (cl_keys (cl w)) = Some ks" "int (length vec) = k_dim ks"
    "\<not> (metadata \<noteq> [] \<and> \<not> jsonValid metadata)"
    using ok by (auto simp: insertRefusal_def split: if_splits option.splits)
  note unf = Insert_def withKeys_def andThen_def run_simps KeysDim_def Let_def g mapErr_def
  obtain r1 w1 where e1: "EncryptFlat E (cl_keys (cl w)) ?vec w = (r1, w1)" by (metis surj_pair)
  have f1: "sent w1 = sent w" "cl w1 = cl w" using sameRest_client[OF keepsD[OF rest_keys_use(1) e1]] by blast+
  show ?thesis
  proof (cases r1)
    case (Inl e)
    then show ?thesis using run e1 f1 by (intro early) (auto simp: unf)
  next
    case rmp: (Inr rmp)
    define i where "i = new_uuid E (tick w1)"
    define w2 where "w2 = w1\<lparr>tick := Suc (tick w1)\<rparr>"
    have f2: "sent w2 = sent w" "cl w2 = cl w" by (simp_all add: w2_def f1)
    obtain r3 w3 where e3: "centroidSetCached E w2 = (r3, w3)" by (metis surj_pair)
    have f3: "sent w3 = sent w @ fetched w" "cacheKept w w3" "cl_conn (cl w3) = cl_conn (cl w)"
      "cl_keys (cl w3) = cl_keys (cl w)"
      "\<And>c. r3 = Inr c \<Longrightarrow> cl w3 = (cl w)\<lparr>cl_centroids := c, cl_loaded := True\<rparr>"
      "\<And>c. r3 = Inr c \<Longrightarrow> \<not> cl_loaded (cl w) \<Longrightarrow> centroidsAnswer E (sent w) (tick w2) = Inr (the c)"
      by (rule centroidSetCached_cases[OF e3]; auto simp: f2 fetched_def cacheKept_def cacheOK_def)+
    note unf2 = unf e1 rmp newUUID_run e3 w2_def[symmetric]
    show ?thesis
    proof (cases "\<exists>cs. r3 = Inr (Some cs) \<and> enabled (Some cs) \<and> cs_dim cs = int (length vec)")
      case False
      then have "\<exists>e. r = Inl e \<and> w' = w3"
        using run by (auto simp: unf2 enabled_def split: sum.splits if_splits option.splits)
      then show ?thesis using routing f3(1-4) by blast
    next
      case True
      then obtain cs where cs: "r3 = Inr (Some cs)" "enabled (Some cs)" "cs_dim cs = int (length vec)" by blast
      obtain r4 w4 where e4: "EncryptClustered E (cl_keys (cl w)) ?vec w3 = (r4, w4)" by (metis surj_pair)
      have f4: "sent w4 = sent w3" "cl w4 = cl w3" using sameRest_client[OF keepsD[OF rest_keys_use(2) e4]] by blast+
      note unf3 = unf2 cs e4
      show ?thesis
      proof (cases r4)
        case (Inl e)
        then show ?thesis using run f3(1-4) f4 by (intro routing) (auto simp: unf3 cacheKept_def)
      next
        case mm: (Inr mm)
        let ?req = "applyInsertOptions opts (preEncryptedRequest (routedItem i rmp mm cs ?vec metadata))"
        obtain r5 w5 where e5: "insertWithRetry E ?req w4 = (r5, w5)" by (metis surj_pair)
        obtain n where n: "0 < n" "n \<le> 3" "sent w5 = sent w4 @ replicate n (RpcInsert ?req)" "cl w5 = cl w4"
          using insertWithRetry_frame[of E ?req w4] by (metis e5 snd_conv)
        have req: "applyInsertOptions opts \<lparr>ir_id = i, ir_metadata = metadata, ir_rmp_item = Some \<lparr>rmp_item = rmp\<rparr>,
            ir_mm_item = Some \<lparr>mm_item = mm, mm_cluster_id = assign cs ?vec, mm_set_version = cs_version cs\<rparr>,
            ir_filter_tags = []\<rparr> = ?req"
          by (simp add: preEncryptedRequest_def routedItem_def)
        have "(r, w') = (case r5 of Inl e \<Rightarrow> Inl e | Inr _ \<Rightarrow> Inr i, w5)"
          using run by (simp add: unf3 mm i_def[symmetric] req e5 split: sum.splits)
        then show ?thesis
          using n f3(1,5,6) f4 cs by (intro sending[of n i rmp mm cs]) (auto split: sum.splits)
      qed
    qed
  qed
qed

lemma InsertPreEncrypted_run:
  "InsertPreEncrypted E it opts w =
    (if \<not> cl_conn (cl w) then (Inl (Sentinel ErrClientClosed), w)
     else (case validateItem it of
         Inl e \<Rightarrow> (Inl e, w)
       | Inr _ \<Rightarrow> insertWithRetry E (applyInsertOptions opts (preEncryptedRequest it)) w))"
  by (simp add: InsertPreEncrypted_def whenOpen_def connOK_def andThen_def run_simps split: sum.split)

lemma validateItem_ok:
  "validateItem it = Inr () \<longleftrightarrow> pe_id it \<noteq> [] \<and> pe_rmp_blob it \<noteq> [] \<and> pe_mm_blob it \<noteq> [] \<and>
     pe_set_version it \<noteq> [] \<and> (pe_metadata it = [] \<or> jsonValid (pe_metadata it))"
  by (auto simp: validateItem_def)

lemma applyTags_fields:
  "\<forall>opt \<in> set opts. \<exists>tags. opt = WithFilterTags tags \<Longrightarrow>
    \<exists>tags. applyInsertOptions opts req = req\<lparr>ir_filter_tags := tags\<rparr>"
proof (induction opts arbitrary: req)
  case Nil
  then show ?case by (intro exI[of _ "ir_filter_tags req"]) simp
next
  case (Cons opt opts)
  from Cons.prems obtain tags where opt: "opt = WithFilterTags tags" by auto
  obtain tags' where "applyInsertOptions opts (opt req) = (opt req)\<lparr>ir_filter_tags := tags'\<rparr>"
    using Cons.IH Cons.prems by auto
  then show ?case by (intro exI[of _ tags']) (simp add: opt WithFilterTags_def)
qed

section \<open>Properties\<close>

text \<open>
  \<open>Insert\<close> refuses, in this order, on a closed client, without a key set, on a vector of
  the wrong length and on metadata that is not JSON; then nothing has happened: no RPC, no
  call into the library, no change of state.
\<close>

theorem insert_refuses_cleanly:
  "Insert E vec metadata opts w =
    (if \<not> cl_conn (cl w) then (Inl (Sentinel ErrClientClosed), w)
     else (case keysAt w (cl_keys (cl w)) of
         None \<Rightarrow> (Inl (Sentinel ErrKeysNotRegistered), w)
       | Some ks \<Rightarrow>
           if int (length vec) \<noteq> k_dim ks then (Inl (dimMismatch (int (length vec)) (k_dim ks)), w)
           else if metadata \<noteq> [] \<and> \<not> jsonValid metadata then (Inl (Sentinel ErrInvalidMetadata), w)
           else Insert E vec metadata opts w))"
  by (auto simp: Insert_def withKeys_def andThen_def run_simps KeysDim_def split: option.split)

text \<open>
  C36. A successful \<open>Insert\<close>: the server was sent, between one and three times, one and the
  same request, that of the item with the id that \<open>Insert\<close> returns, the metadata verbatim,
  both representations, and the cluster of the normalized vector in the centroid set now
  cached, under that set's version. It is exactly the request that forwarding the item with
  \<open>InsertPreEncrypted\<close> and the same options sends. The set was enabled and of the vector's
  dimension; if none was cached it was fetched, once, before.
\<close>

theorem insert_sends_routed_item:
  fixes w :: "'w client_world_scheme"
  assumes "Insert E vec metadata opts w = (Inr i, w')"
  shows "\<exists>rmp mm cs n. 0 < n \<and> n \<le> 3 \<and>
    sent w' = sent w @ (if cl_loaded (cl w) then [] else [RpcGetCentroids]) @
      replicate n (RpcInsert (applyInsertOptions opts (preEncryptedRequest
        \<lparr>pe_id = i, pe_rmp_blob = rmp, pe_mm_blob = mm, pe_cluster_id = assign cs (l2normalize vec),
         pe_set_version = cs_version cs, pe_metadata = metadata\<rparr>))) \<and>
    enabled (Some cs) \<and> cs_dim cs = int (length vec) \<and>
    cl w' = (cl w)\<lparr>cl_centroids := Some cs, cl_loaded := True\<rparr> \<and>
    (cl_loaded (cl w) \<or> (\<exists>t. centroidsAnswer E (sent w) t = Inr cs)) \<and>
    (metadata = [] \<or> jsonValid metadata)"
proof -
  have ok: "insertRefusal w vec metadata = None"
    using assms Insert_refused[of w vec metadata _ E opts] by (cases "insertRefusal w vec metadata") auto
  then have "metadata = [] \<or> jsonValid metadata"
    by (auto simp: insertRefusal_def split: if_splits option.splits)
  then show ?thesis
    by (rule_tac Insert_outcome[OF assms ok]) (simp_all add: routedItem_def fetched_def, blast)
qed

text \<open>
  C37. Retries never duplicate an item. Whatever happens and whatever the server answers, one
  call of \<open>Insert\<close> puts on the wire at most one \<open>GetCentroids\<close> followed by at most three
  copies of one single insert request; and an insert request is sent only against an
  enabled centroid set of the vector's dimension that is then cached.
\<close>

theorem insert_is_idempotent_on_the_wire:
  fixes w :: "'w client_world_scheme"
  shows "\<exists>cents n req. sent (snd (Insert E vec metadata opts w)) = sent w @ cents @ replicate n (RpcInsert req) \<and>
    (cents = [] \<or> cents = [RpcGetCentroids]) \<and> n \<le> 3 \<and>
    (n = 0 \<or> (\<exists>cs. cl_centroids (cl (snd (Insert E vec metadata opts w))) = Some cs \<and>
      enabled (Some cs) \<and> cs_dim cs = int (length vec)))"
proof (cases "insertRefusal w vec metadata")
  case (Some e)
  then show ?thesis by (intro exI[of _ "[]"] exI[of _ "0::nat"]) (simp add: Insert_refused)
next
  case None
  obtain r w' where run: "Insert E vec metadata opts w = (r, w')" by (metis surj_pair)
  have f: "fetched w = [] \<or> fetched w = [RpcGetCentroids]" by (simp add: fetched_def)
  from run None show ?thesis
  proof (cases rule: Insert_outcome)
    case early
    then show ?thesis by (intro exI[of _ "[]"] exI[of _ "0::nat"]) (simp add: run)
  next
    case routing
    then show ?thesis using f by (intro exI[of _ "fetched w"] exI[of _ "0::nat"]) (simp add: run)
  next
    case (sending i rmp mm cs n)
    then show ?thesis using f by (intro exI[of _ "fetched w"] exI[of _ n]) (auto simp: run)
  qed
qed

text \<open>
  C38. When the retries succeed. If the context is not cancelled, the insert RPC is reported
  successful exactly when one of the first three attempts is accepted and every attempt
  before it failed with UNAVAILABLE and without the centroid-version reason.
\<close>

theorem insert_succeeds_iff:
  assumes "\<forall>t. ctx_done E t = None"
  shows "fst (insertWithRetry E req w) = Inr () \<longleftrightarrow>
    (\<exists>k < 3. (\<exists>u. replyAt E req w k = Inr u) \<and>
      (\<forall>j < k. \<exists>e. replyAt E req w j = Inl e \<and> codeOf (rpc_status E) e = Unavailable \<and>
        \<not> isCentroidVersionMismatch (rpc_status E) e))"
  using insertWithRetry_replies[OF assms] by (simp add: retryable_def conj_commute)

text \<open>
  A replaced centroid set is reported as such and at once: when the server's answer
  carries the centroid-version reason, the error of \<open>insertWithRetry\<close> satisfies
  \<open>errors.Is(err, ErrCentroidVersionMismatch)\<close> and the request was sent exactly once,
  whatever the status code of the answer, UNAVAILABLE included.
\<close>

theorem mismatch_is_not_retried:
  assumes "grpc_documented (rpc_status E)" and "sv_insert E (sent w) (tick w) req = Inl (RpcErr st)"
    and "ErrorInfo centroidMismatchReason \<in> set (st_details st)"
  shows "\<exists>e w'. insertWithRetry E req w = (Inl e, w') \<and> errorsIs e ErrCentroidVersionMismatch \<and>
    sent w' = sent w @ [RpcInsert req]"
proof -
  have "isCentroidVersionMismatch (rpc_status E) (RpcErr st)"
    using assms by (simp add: isCentroidVersionMismatch_RpcErr)
  then show ?thesis
    using assms(2) by (simp add: insertWithRetry_def maxAttempts_def numeral_3_eq_3 insertAttempts_step mismatchError_def)
qed

text \<open>
  C39. What the forwarding path sends satisfies the contract the server enforces: with tag
  options only, every insert request that \<open>InsertPreEncrypted\<close> puts on the wire has a
  non-empty id, both blobs non-empty, a centroid set version, and empty or valid metadata,
  all as given by the caller; an item that lacks one of them, or a closed client, is an
  error with no effect at all.
\<close>

theorem pre_encrypted_contract:
  assumes "\<forall>opt \<in> set opts. \<exists>tags. opt = WithFilterTags tags"
  shows "(snd (InsertPreEncrypted E it opts w) = w \<and> (\<exists>e. fst (InsertPreEncrypted E it opts w) = Inl e)) \<or>
    (\<exists>n tags. sent (snd (InsertPreEncrypted E it opts w)) = sent w @
        replicate n (RpcInsert ((preEncryptedRequest it)\<lparr>ir_filter_tags := tags\<rparr>)) \<and> 0 < n \<and> n \<le> 3 \<and>
      cl_conn (cl w) \<and> pe_id it \<noteq> [] \<and> pe_rmp_blob it \<noteq> [] \<and> pe_mm_blob it \<noteq> [] \<and> pe_set_version it \<noteq> [] \<and>
      (pe_metadata it = [] \<or> jsonValid (pe_metadata it)))"
proof (cases "cl_conn (cl w) \<and> validateItem it = Inr ()")
  case True
  obtain tags where tags: "applyInsertOptions opts (preEncryptedRequest it) = (preEncryptedRequest it)\<lparr>ir_filter_tags := tags\<rparr>"
    using applyTags_fields[OF assms] by blast
  obtain n where "0 < n" "n \<le> 3"
    "sent (snd (insertWithRetry E ((preEncryptedRequest it)\<lparr>ir_filter_tags := tags\<rparr>) w)) =
      sent w @ replicate n (RpcInsert ((preEncryptedRequest it)\<lparr>ir_filter_tags := tags\<rparr>))"
    using insertWithRetry_frame by blast
  then show ?thesis
    using True validateItem_ok[of it] by (intro disjI2 exI[of _ n] exI[of _ tags]) (simp add: InsertPreEncrypted_run tags)
next
  case False
  then show ?thesis
    by (cases "validateItem it") (auto simp: InsertPreEncrypted_run)
qed

section \<open>Witnesses\<close>

lemma sample_encrypt:
  fixes w :: client_world
  assumes "keysAt w (Some 0) = Some sampleKeys" and "vec \<noteq> []"
  shows "\<exists>b w'. EncryptFlat sampleServer (Some 0) vec w = (Inr b, w')"
    and "\<exists>b w'. EncryptClustered sampleServer (Some 0) vec w = (Inr b, w')"
  using assms
  by (simp_all add: EncryptFlat_def EncryptClustered_def sampleKeys_def sampleBundle_def
      EncryptSingle_def EncryptRow_def scoped_def andThen_def deferring_def c_create_def c_acquire_def c_malloc_def
      c_invoke_def eviFailed_def EVI_STATUS_SUCCESS_def sampleServer_calls run_simps Let_def c_created_def c_free_def
      encShimError_def shimError_def)

lemma sample_unit: "l2normalize [Num 1, Num 0] = [Num 1, Num 0]"
proof -
  have "sumSquares (Num 0) [Num 1, Num 0] = Num 1" by (simp add: float_eval)
  moreover have "roundMag f32 False 1 = Num 1" using roundMag_pow2[of f32 0] by (simp add: withSign_def)
  then have "fmul f32 (Num 1) (Num 1) = Num 1" "fmul f32 (Num 0) (Num 1) = Num 0" by (simp_all add: float_eval)
  ultimately show ?thesis unfolding l2normalize_def Let_def by (simp only: inv_one) simp
qed

lemma sampleSet_enabled: "enabled (Some sampleSet)" "cs_dim sampleSet = 2"
  by (simp_all add: enabled_def sampleSet_def)

definition sampleItem :: PreEncryptedItem where
  "sampleItem = \<lparr>pe_id = ''uuid'', pe_rmp_blob = [1], pe_mm_blob = [2], pe_cluster_id = 1,
     pe_set_version = ''sha256:abc'', pe_metadata = ''{}''\<rparr>"

lemma sample_retry: "\<exists>w'. insertWithRetry sampleServer req w = (Inr (), w')"
  by (simp add: insertWithRetry_def maxAttempts_def numeral_3_eq_3 insertAttempts_step sampleServer_calls)

lemma sample_insert:
  "\<exists>w'. Insert sampleServer [Num 1, Num 0] ''{}'' [WithFilterTags [''t'']] sampleClientWorld = (Inr ''uuid'', w')"
proof -
  let ?w = sampleClientWorld
  have start: "cl_conn (cl ?w)" "cl_keys (cl ?w) = Some 0" "\<not> cl_loaded (cl ?w)"
    "keysAt ?w (Some 0) = Some sampleKeys" "k_objs ?w = [sampleKeys]" "KeysDim sampleKeys = 2" "jsonValid ''{}''"
    by (simp_all add: sampleClientWorld_def keysAt_def sampleKeys_def KeysDim_def jsonValid_samples(1))
  obtain b w1 where e1: "EncryptFlat sampleServer (Some 0) [Num 1, Num 0] ?w = (Inr b, w1)"
    using sample_encrypt(1)[OF start(4)] by blast
  have f1: "cl w1 = cl ?w" "k_objs w1 = k_objs ?w" using sameRest_client[OF keepsD[OF rest_keys_use(1) e1]] by blast+
  define w2 where "w2 = w1\<lparr>tick := Suc (tick w1)\<rparr>"
  obtain w3 where e3: "centroidSetCached sampleServer w2 = (Inr (Some sampleSet), w3)" "k_objs w3 = k_objs ?w"
    using start(3) f1 by (simp add: centroidSetCached_fetch sampleServer_answer Let_def w2_def)
  have "keysAt w3 (Some 0) = Some sampleKeys" using e3(2) start(5) by (simp add: keysAt_def)
  then obtain b' w4 where e4: "EncryptClustered sampleServer (Some 0) [Num 1, Num 0] w3 = (Inr b', w4)"
    using sample_encrypt(2) by blast
  show ?thesis
    using sample_retry[of "applyInsertOptions [WithFilterTags [''t'']]
        \<lparr>ir_id = ''uuid'', ir_metadata = ''{}'', ir_rmp_item = Some \<lparr>rmp_item = b\<rparr>,
         ir_mm_item = Some \<lparr>mm_item = b', mm_cluster_id = assign sampleSet [Num 1, Num 0], mm_set_version = cs_version sampleSet\<rparr>,
         ir_filter_tags = []\<rparr>" w4]
    by (auto simp: Insert_def withKeys_def andThen_def run_simps start mapErr_def sample_unit e1 newUUID_run
        sampleServer_calls w2_def[symmetric] e3 sampleSet_enabled e4 Let_def)
qed

theorem insert_sends_routed_item_witness:
  "\<exists>w' rmp mm cs n. Insert sampleServer [Num 1, Num 0] ''{}'' [WithFilterTags [''t'']] sampleClientWorld = (Inr ''uuid'', w') \<and>
    sent w' = RpcGetCentroids # replicate n (RpcInsert
      \<lparr>ir_id = ''uuid'', ir_metadata = ''{}'', ir_rmp_item = Some \<lparr>rmp_item = rmp\<rparr>,
       ir_mm_item = Some \<lparr>mm_item = mm, mm_cluster_id = assign cs [Num 1, Num 0], mm_set_version = cs_version cs\<rparr>,
       ir_filter_tags = [''t'']\<rparr>) \<and> 0 < n"
proof -
  obtain w' where run: "Insert sampleServer [Num 1, Num 0] ''{}'' [WithFilterTags [''t'']] sampleClientWorld = (Inr ''uuid'', w')"
    using sample_insert by blast
  from insert_sends_routed_item[OF run] run show ?thesis
    by (auto simp: preEncryptedRequest_def WithFilterTags_def sample_unit sampleClientWorld_def)
qed

theorem insert_succeeds_iff_witness:
  "fst (insertWithRetry sampleServer (preEncryptedRequest sampleItem) sampleClientWorld) = Inr ()"
  using insert_succeeds_iff[of sampleServer "preEncryptedRequest sampleItem" sampleClientWorld]
  by (simp add: sampleServer_calls replyAt_def exI[of _ "0::nat"])

text \<open>A server that has replaced its centroid set.\<close>

definition replacedServer :: client_env where
  "replacedServer = sampleServer\<lparr>sv_insert := (\<lambda>hist t q. Inl (RpcErr \<lparr>st_code = Unavailable, st_message = ''stale'',
     st_details = [ErrorInfo centroidMismatchReason]\<rparr>))\<rparr>"

theorem mismatch_is_not_retried_witness:
  "\<exists>e w'. insertWithRetry replacedServer (preEncryptedRequest sampleItem) sampleClientWorld = (Inl e, w') \<and>
    errorsIs e ErrCentroidVersionMismatch \<and> sent w' = [RpcInsert (preEncryptedRequest sampleItem)]"
proof -
  have g: "grpc_documented (rpc_status replacedServer)"
    by (simp add: replacedServer_def sampleServer_calls plain_grpc_documented)
  show ?thesis
    using mismatch_is_not_retried[OF g, of sampleClientWorld "preEncryptedRequest sampleItem"
        "\<lparr>st_code = Unavailable, st_message = ''stale'', st_details = [ErrorInfo centroidMismatchReason]\<rparr>"]
    by (simp add: replacedServer_def sampleClientWorld_def)
qed

theorem pre_encrypted_contract_witness:
  "\<exists>n. 0 < n \<and> sent (snd (InsertPreEncrypted sampleServer sampleItem [] sampleClientWorld)) =
    replicate n (RpcInsert (preEncryptedRequest sampleItem))"
proof -
  obtain w' where r: "InsertPreEncrypted sampleServer sampleItem [] sampleClientWorld = (Inr (), w')"
    using sample_retry[of "preEncryptedRequest sampleItem" sampleClientWorld] validateItem_ok[of sampleItem]
    by (auto simp: InsertPreEncrypted_run sampleClientWorld_def sampleItem_def jsonValid_samples(1))
  have "\<forall>opt \<in> set []. \<exists>tags. opt = WithFilterTags tags" by simp
  from pre_encrypted_contract[OF this, of sampleServer sampleItem sampleClientWorld] r obtain n tags where
    "0 < n" "sent w' = replicate n (RpcInsert ((preEncryptedRequest sampleItem)\<lparr>ir_filter_tags := tags\<rparr>))"
    by (auto simp: sampleClientWorld_def)
  moreover obtain m where "sent (snd (InsertPreEncrypted sampleServer sampleItem [] sampleClientWorld)) =
      replicate m (RpcInsert (preEncryptedRequest sampleItem))" "0 < m"
    using insertWithRetry_frame[of sampleServer "preEncryptedRequest sampleItem" sampleClientWorld] validateItem_ok[of sampleItem]
    by (auto simp: InsertPreEncrypted_run sampleClientWorld_def sampleItem_def jsonValid_samples(1))
  ultimately show ?thesis by blast
qed

end
