(* ===== verification/Go_SHA256.thy ===== *)
theory Go_SHA256
  imports Prelude
begin

unbundle bit_operations_syntax

text \<open>
  \<open>crypto/sha256\<close> as the SDK uses it: a digest is created, written to in pieces and summed.
  The digest keeps the eight chaining words, the bytes of the incomplete block and the
  number of bytes written. The reference is the hash of the whole message, padded and cut
  into blocks at once; \<open>streaming\<close> is the interface the callers rely on.
\<close>

section \<open>The compression function\<close>

type_synonym w32 = "32 word"

text \<open>The constants are written two to a 64-bit number, the first in the upper half.\<close>

definition halves :: "64 word \<Rightarrow> w32 list" where
  "halves x = [ucast (drop_bit 32 x), ucast x]"

definition roundConstants :: "w32 list" where
  "roundConstants = concat (map halves
    [0x428a2f9871374491, 0xb5c0fbcfe9b5dba5, 0x3956c25b59f111f1, 0x923f82a4ab1c5ed5,
     0xd807aa9812835b01, 0x243185be550c7dc3, 0x72be5d7480deb1fe, 0x9bdc06a7c19bf174,
     0xe49b69c1efbe4786, 0x0fc19dc6240ca1cc, 0x2de92c6f4a7484aa, 0x5cb0a9dc76f988da,
     0x983e5152a831c66d, 0xb00327c8bf597fc7, 0xc6e00bf3d5a79147, 0x06ca635114292967,
     0x27b70a852e1b2138, 0x4d2c6dfc53380d13, 0x650a7354766a0abb, 0x81c2c92e92722c85,
     0xa2bfe8a1a81a664b, 0xc24b8b70c76c51a3, 0xd192e819d6990624, 0xf40e3585106aa070,
     0x19a4c1161e376c08, 0x2748774c34b0bcb5, 0x391c0cb34ed8aa4a, 0x5b9cca4f682e6ff3,
     0x748f82ee78a5636f, 0x84c878148cc70208, 0x90befffaa4506ceb, 0xbef9a3f7c67178f2])"

definition initialState :: "w32 list" where
  "initialState = concat (map halves
    [0x6a09e667bb67ae85, 0x3c6ef372a54ff53a, 0x510e527f9b05688c, 0x1f83d9ab5be0cd19])"

definition wordOf :: "byte \<Rightarrow> byte \<Rightarrow> byte \<Rightarrow> byte \<Rightarrow> w32" where
  "wordOf a b c d = push_bit 24 (ucast a) OR push_bit 16 (ucast b) OR push_bit 8 (ucast c) OR ucast d"

fun wordsOf :: "bytes \<Rightarrow> w32 list" where
  "wordsOf (a # b # c # d # rest) = wordOf a b c d # wordsOf rest"
| "wordsOf _ = []"

definition bytesOf :: "w32 \<Rightarrow> bytes" where
  "bytesOf x = [ucast (drop_bit 24 x), ucast (drop_bit 16 x), ucast (drop_bit 8 x), ucast x]"

definition smallSigma0 :: "w32 \<Rightarrow> w32" where
  "smallSigma0 x = word_rotr 7 x XOR word_rotr 18 x XOR drop_bit 3 x"

definition smallSigma1 :: "w32 \<Rightarrow> w32" where
  "smallSigma1 x = word_rotr 17 x XOR word_rotr 19 x XOR drop_bit 10 x"

definition bigSigma0 :: "w32 \<Rightarrow> w32" where
  "bigSigma0 x = word_rotr 2 x XOR word_rotr 13 x XOR word_rotr 22 x"

definition bigSigma1 :: "w32 \<Rightarrow> w32" where
  "bigSigma1 x = word_rotr 6 x XOR word_rotr 11 x XOR word_rotr 25 x"

text \<open>The message schedule, latest word first.\<close>

fun extendSchedule :: "nat \<Rightarrow> w32 list \<Rightarrow> w32 list" where
  "extendSchedule 0 ws = ws"
| "extendSchedule (Suc n) ws =
     extendSchedule n ((smallSigma1 (ws ! 1) + ws ! 6 + smallSigma0 (ws ! 14) + ws ! 15) # ws)"

fun rounds :: "(w32 \<times> w32) list \<Rightarrow> w32 list \<Rightarrow> w32 list" where
  "rounds ((k, m) # rest) [a, b, c, d, e, f, g, h] =
     (let t1 = h + bigSigma1 e + ((e AND f) XOR (NOT e AND g)) + k + m;
          t2 = bigSigma0 a + ((a AND b) XOR (a AND c) XOR (b AND c))
      in rounds rest [t1 + t2, a, b, c, d + t1, e, f, g])"
| "rounds _ st = st"

definition block :: "w32 list \<Rightarrow> bytes \<Rightarrow> w32 list" where
  "block st p =
     map (\<lambda>(x, y). x + y)
       (zip st (rounds (zip roundConstants (rev (extendSchedule 48 (rev (wordsOf p))))) st))"

section \<open>The digest\<close>

record digest =
  dg_state :: "w32 list"
  dg_buf :: bytes
  dg_len :: nat

definition digestNew :: digest where
  "digestNew = \<lparr>dg_state = initialState, dg_buf = [], dg_len = 0\<rparr>"

text \<open>Whole blocks are consumed, the rest is kept.\<close>

function consume :: "w32 list \<Rightarrow> bytes \<Rightarrow> w32 list \<times> bytes" where
  "consume st p = (if length p < 64 then (st, p) else consume (block st (take 64 p)) (drop 64 p))"
  by pat_completeness auto
termination by (relation "measure (\<lambda>(st, p). length p)") auto

declare consume.simps [simp del]

definition digestWrite :: "digest \<Rightarrow> bytes \<Rightarrow> digest" where
  "digestWrite d p = (case consume (dg_state d) (dg_buf d @ p) of
     (st, buf) \<Rightarrow> \<lparr>dg_state = st, dg_buf = buf, dg_len = dg_len d + length p\<rparr>)"

text \<open>The padding: a one bit, zeros up to 56 modulo 64, the length in bits in eight bytes.\<close>

definition padding :: "nat \<Rightarrow> bytes" where
  "padding len = 0x80 # replicate ((119 - len mod 64) mod 64) 0 @
     map (\<lambda>i. of_nat (8 * len div 2 ^ (8 * (7 - i)))) [0..<8]"

definition digestSum :: "digest \<Rightarrow> bytes" where
  "digestSum d = concat (map bytesOf (fst (consume (dg_state d) (dg_buf d @ padding (dg_len d)))))"

section \<open>The reference\<close>

text \<open>The hash of a message in one go.\<close>

definition sha256 :: "bytes \<Rightarrow> bytes" where
  "sha256 p = concat (map bytesOf (fst (consume initialState (p @ padding (length p)))))"

section \<open>Writing in pieces\<close>

lemma consume_short: "length p < 64 \<Longrightarrow> consume st p = (st, p)"
  by (simp add: consume.simps)

lemma consume_long: "64 \<le> length p \<Longrightarrow> consume st p = consume (block st (take 64 p)) (drop 64 p)"
  by (subst consume.simps) simp

lemma consume_append: "consume st (p @ q) = (case consume st p of (st', r) \<Rightarrow> consume st' (r @ q))"
proof (induction st p rule: consume.induct)
  case (1 st p)
  show ?case
  proof (cases "length p < 64")
    case True
    then show ?thesis by (simp add: consume_short)
  next
    case False
    then have "consume st (p @ q) = consume (block st (take 64 p)) (drop 64 p @ q)"
      by (subst consume_long) auto
    also have "\<dots> = (case consume (block st (take 64 p)) (drop 64 p) of (st', r) \<Rightarrow> consume st' (r @ q))"
      using False by (rule 1)
    finally show ?thesis using False by (simp add: consume_long)
  qed
qed

lemma digestWrite_append: "digestWrite (digestWrite d p) q = digestWrite d (p @ q)"
  using consume_append[of "dg_state d" "dg_buf d @ p" q]
  by (simp add: digestWrite_def split: prod.split)

lemma digestSum_new: "digestSum digestNew = sha256 []"
  by (simp add: digestSum_def digestNew_def sha256_def)

lemma digestSum_write: "digestSum (digestWrite digestNew p) = sha256 p"
  using consume_append[of initialState p "padding (length p)"]
  by (simp add: digestSum_def digestWrite_def digestNew_def sha256_def split: prod.split)

text \<open>The interface: how the bytes are cut into writes does not matter.\<close>

locale streaming =
  fixes start :: 'd and absorb :: "'d \<Rightarrow> bytes \<Rightarrow> 'd" and finish :: "'d \<Rightarrow> bytes" and hash :: "bytes \<Rightarrow> bytes"
  assumes absorb_append: "absorb (absorb d p) q = absorb d (p @ q)"
    and finish_start: "finish start = hash []"
    and finish_absorb: "finish (absorb start p) = hash p"
begin

lemma absorb_pieces: "foldl absorb (absorb start p) ps = absorb start (p @ concat ps)"
  by (induction ps arbitrary: p) (simp_all add: absorb_append)

lemma finish_pieces: "finish (foldl absorb start ps) = hash (concat ps)"
  by (cases ps) (simp_all add: finish_start absorb_pieces finish_absorb)

end

interpretation sha: streaming digestNew digestWrite digestSum sha256
  by unfold_locales (rule digestWrite_append digestSum_new digestSum_write)+

end
