(* ===== verification/Key_Registration.thy ===== *)
theory Key_Registration
  imports Client_Core Go_SHA256
begin

text \<open>
  \<open>client.go\<close>: \<open>RegisterKeys\<close>, which streams the two evaluation keys from disk to the
  server, and \<open>VerifyKeys\<close>, which compares what the server says it holds with the local
  files. A file is read through a descriptor: each read returns at least one byte and at
  most the buffer, how many is up to the environment, until the end.
\<close>

section \<open>Reading\<close>

definition registerKeyChunkSize :: nat where
  "registerKeyChunkSize = 2 ^ 20"

text \<open>The buffer of \<open>io.Copy\<close>.\<close>

definition copyBufferSize :: nat where
  "copyBufferSize = 32 * 1024"

definition contents :: "node \<Rightarrow> bytes" where
  "contents n = (case n of File b \<Rightarrow> b | Dir \<Rightarrow> [])"

definition osRead :: "'e client_env_scheme \<Rightarrow> node \<Rightarrow> nat \<Rightarrow> nat \<Rightarrow> (err, 'w os_world_scheme, nat) io" where
  "osRead E n off buf = syscall E (\<lambda>w. case n of
      Dir \<Rightarrow> (Inl (OsErr ''is a directory''), w)
    | File b \<Rightarrow>
        if off \<ge> length b then (Inl EOF, w)
        else (Inr (max 1 (min (rd_size E (tick w)) (min buf (length b - off)))), w))"

lemma osRead_Inr:
  assumes "osRead E n off buf w = (Inr k, w')" and "0 < buf"
  shows "w' = w\<lparr>tick := Suc (tick w)\<rparr>" and "0 < k" and "off + k \<le> length (contents n)" and "k \<le> buf"
    and "\<exists>b. n = File b"
  using assms by (auto simp: osRead_def syscall_def Let_def contents_def split: option.splits node.splits if_splits)

lemma osRead_Inl:
  assumes "osRead E n off buf w = (Inl e, w')"
  shows "w' = w\<lparr>tick := Suc (tick w)\<rparr>" and "e = EOF \<Longrightarrow> \<exists>b. n = File b \<and> length b \<le> off"
  using assms by (auto simp: osRead_def syscall_def Let_def split: option.splits node.splits if_splits)

section \<open>Streaming a key\<close>

text \<open>The read loop of \<open>streamEvalKey\<close>: the file, the offset, the digest so far.\<close>

function streamLoop :: "'e client_env_scheme \<Rightarrow> node \<Rightarrow> nat \<Rightarrow> digest \<Rightarrow> (err, 'w client_world_scheme, digest) io" where
  "streamLoop E n off h w =
     (case osRead E n off registerKeyChunkSize w of
        (Inl e, w1) \<Rightarrow> (if e = EOF then Inr h else Inl (wrapf ''runespace: read eval key'' e), w1)
      | (Inr k, w1) \<Rightarrow>
          (let p = take k (drop off (contents n)) in
           case invoke (sv_register_send E) RpcRegisterSend (Data p) w1 of
             (Inl e, w2) \<Rightarrow> (Inl e, w2)
           | (Inr _, w2) \<Rightarrow> streamLoop E n (off + k) (digestWrite h p) w2))"
  by pat_completeness auto
termination
proof (relation "measure (\<lambda>(E, n, off, h, w). length (contents n) - off)", goal_cases)
  case (2 E n off h w r w1 k p r2 w2 u)
  then show ?case using osRead_Inr[of E n off registerKeyChunkSize w k w1] by (auto simp: registerKeyChunkSize_def)
qed simp

declare streamLoop.simps [simp del]

definition keyHeaderFor :: "Keys \<Rightarrow> keyBundle \<Rightarrow> KeyKind \<Rightarrow> KeyHeader" where
  "keyHeaderFor keys b kind = \<lparr>kh_kind = kind, kh_total_len = 0, kh_kid = k_id keys,
     kh_preset = kk_preset (kb_kind b), kh_dim = of_int (k_dim keys), kh_eval_mode = kk_mode (kb_kind b)\<rparr>"

definition sendFrame :: "'e client_env_scheme \<Rightarrow> RegisterKeysStreamRequest \<Rightarrow>
    (err, 'w client_world_scheme, unit) io" where
  "sendFrame E f = invoke (sv_register_send E) RpcRegisterSend f"

definition streamEvalKey :: "'e client_env_scheme \<Rightarrow> KeyHeader \<Rightarrow> gopath \<Rightarrow>
    (err, 'w client_world_scheme, unit) io" where
  "streamEvalKey E hdr dir =
     andThen (openEvalKeyReader E dir) (\<lambda>r.
     deferring (readerCleanup E r)
       (andThen (sendFrame E (Header (hdr\<lparr>kh_total_len := er_size r mod 2 ^ 64\<rparr>))) (\<lambda>_.
        andThen (streamLoop E (er_node r) 0 digestNew) (\<lambda>h.
        sendFrame E (Footer \<lparr>kf_sha256 = digestSum h\<rparr>)))))"

definition RegisterKeys :: "'e client_env_scheme \<Rightarrow> keysRef \<Rightarrow> (err, 'w client_world_scheme, unit) io" where
  "RegisterKeys E k =
     whenOpen (andThen (gets (\<lambda>w. keysAt w k)) (\<lambda>keys. case keys of
       None \<Rightarrow> throw (Sentinel ErrKeysNotForRegister)
     | Some ks \<Rightarrow>
         (case (k_rmp ks, k_mm ks) of
            (Some rmp, Some mm) \<Rightarrow>
              andThen (invoke (sv_register_open E) (\<lambda>_. RpcRegisterOpen) ()) (\<lambda>_.
              andThen (streamEvalKey E (keyHeaderFor ks rmp KEY_KIND_RMP_EVAL) (kb_dir rmp)) (\<lambda>_.
              andThen (streamEvalKey E (keyHeaderFor ks mm KEY_KIND_MM_EVAL) (kb_dir mm)) (\<lambda>_.
              andThen (invoke (sv_register_close E) (\<lambda>_. RpcRegisterClose) ()) (\<lambda>_.
              UseKeys k))))
          | _ \<Rightarrow> throw (Sentinel ErrKeysNotForRegister))))"

section \<open>Verifying\<close>

text \<open>\<open>io.Copy\<close> from the file into the digest.\<close>

function hashLoop :: "'e client_env_scheme \<Rightarrow> node \<Rightarrow> nat \<Rightarrow> digest \<Rightarrow> (err, 'w os_world_scheme, digest) io" where
  "hashLoop E n off h w =
     (case osRead E n off copyBufferSize w of
        (Inl e, w1) \<Rightarrow> (if e = EOF then Inr h else Inl e, w1)
      | (Inr k, w1) \<Rightarrow> hashLoop E n (off + k) (digestWrite h (take k (drop off (contents n)))) w1)"
  by pat_completeness auto
termination
proof (relation "measure (\<lambda>(E, n, off, h, w). length (contents n) - off)", goal_cases)
  case (2 E n off h w r w1 k)
  then show ?case using osRead_Inr[of E n off copyBufferSize w k w1] by (auto simp: copyBufferSize_def)
qed simp

declare hashLoop.simps [simp del]

definition evalKeyFingerprint :: "'e client_env_scheme \<Rightarrow> gopath \<Rightarrow> (err, 'w cgo_world_scheme, bytes) io" where
  "evalKeyFingerprint E dir =
     andThen (openEvalKeyReader E dir) (\<lambda>r.
     deferring (readerCleanup E r)
       (andThen (hashLoop E (er_node r) 0 digestNew) (\<lambda>h. ret (digestSum h))))"

fun localKeys :: "'e client_env_scheme \<Rightarrow> Keys \<Rightarrow> keyBundle list \<Rightarrow> (string \<Rightarrow> RegisteredKey option) \<Rightarrow>
    (err, 'w cgo_world_scheme, string \<Rightarrow> RegisteredKey option) io" where
  "localKeys E ks [] m = ret m"
| "localKeys E ks (b # bs) m =
     andThen (mapErr (\<lambda>e. Errorf [Lit ''runespace: fingerprint '', Str (kk_name (kb_kind b)), Lit '' key: '', Wrap e])
       (evalKeyFingerprint E (kb_dir b))) (\<lambda>fp.
     localKeys E ks bs (m(kk_name (kb_kind b) \<mapsto>
       \<lparr>rk_kind = kk_name (kb_kind b), rk_key_id = k_id ks, rk_preset = kk_preset (kb_kind b), rk_dim = k_dim ks,
        rk_eval_mode = kk_mode (kb_kind b), rk_fingerprint = fp\<rparr>)))"

definition identityMismatch :: "RegisteredKey \<Rightarrow> RegisteredKey \<Rightarrow> err" where
  "identityMismatch rk lm = Errorf [Lit ''runespace: '', Quo (rk_kind rk), Lit '' key identity mismatch: server{kid='',
     Str (rk_key_id rk), Lit '' preset='', Str (rk_preset rk), Lit '' dim='', Dec (rk_dim rk), Lit '' mode='',
     Str (rk_eval_mode rk), Lit ''} local{kid='', Str (rk_key_id lm), Lit '' preset='', Str (rk_preset lm),
     Lit '' dim='', Dec (rk_dim lm), Lit '' mode='', Str (rk_eval_mode lm), Lit ''}'']"

definition notLocal :: "RegisteredKey \<Rightarrow> err" where
  "notLocal rk = Errorf [Lit ''runespace: server registered a '', Quo (rk_kind rk), Lit '' key not in the local set'']"

text \<open>The dash of this message is an em dash in the source.\<close>

definition fingerprintMismatch :: "RegisteredKey \<Rightarrow> err" where
  "fingerprintMismatch rk = Errorf [Lit ''runespace: '', Quo (rk_kind rk),
     Lit '' key fingerprint mismatch - the instance is serving a different key'']"

definition noRegisteredKeys :: err where
  "noRegisteredKeys = Errorf [Lit ''runespace: server reports no registered keys'']"

fun checkRegistered :: "(string \<Rightarrow> RegisteredKey option) \<Rightarrow> RegisteredKey list \<Rightarrow> err + unit" where
  "checkRegistered m [] = Inr ()"
| "checkRegistered m (rk # rks) =
     (case m (rk_kind rk) of
        None \<Rightarrow> Inl (notLocal rk)
      | Some lm \<Rightarrow>
          if rk_key_id rk \<noteq> rk_key_id lm \<or> rk_preset rk \<noteq> rk_preset lm \<or> rk_dim rk \<noteq> rk_dim lm \<or>
            rk_eval_mode rk \<noteq> rk_eval_mode lm
          then Inl (identityMismatch rk lm)
          else if length (rk_fingerprint rk) > 0 \<and> rk_fingerprint rk \<noteq> rk_fingerprint lm
          then Inl (fingerprintMismatch rk)
          else checkRegistered m rks)"

definition VerifyKeys :: "'e client_env_scheme \<Rightarrow> keysRef \<Rightarrow> (err, 'w client_world_scheme, unit) io" where
  "VerifyKeys E k =
     whenOpen (andThen (gets (\<lambda>w. keysAt w k)) (\<lambda>keys. case keys of
       None \<Rightarrow> throw (Sentinel ErrKeysNotForRegister)
     | Some ks \<Rightarrow>
         (case (k_rmp ks, k_mm ks) of
            (Some rmp, Some mm) \<Rightarrow>
              andThen (Info E) (\<lambda>info.
              if length (in_registered_keys info) = 0 then throw noRegisteredKeys
              else andThen (localKeys E ks [rmp, mm] (\<lambda>_. None)) (\<lambda>m.
                liftRes (checkRegistered m (in_registered_keys info))))
          | _ \<Rightarrow> throw (Sentinel ErrKeysNotForRegister))))"

section \<open>Frames of the loops\<close>

text \<open>A step relation that a read and a send keep is kept by the loops.\<close>

lemma streamLoop_related:
  fixes R :: "'w client_world_scheme \<Rightarrow> 'w client_world_scheme \<Rightarrow> bool"
  assumes R: "step_relation R" and read: "\<And>n off. keeps R (osRead E n off registerKeyChunkSize)"
    and send: "\<And>q. keeps R (invoke (sv_register_send E) RpcRegisterSend q)"
  shows "keeps R (streamLoop E n off h)"
proof (rule keepsI)
  fix w :: "'w client_world_scheme"
  show "R w (snd (streamLoop E n off h w))" using read send
  proof (induction E n off h w rule: streamLoop.induct)
    case (1 E n off h w)
    obtain r w1 where r: "osRead E n off registerKeyChunkSize w = (r, w1)" by (metis surj_pair)
    note k1 = keepsD[OF "1.prems"(1) r]
    show ?case
    proof (cases r)
      case (Inl e)
      with r k1 show ?thesis by (simp add: streamLoop.simps[of E n off h w])
    next
      case (Inr k)
      obtain s w2 where s: "invoke (sv_register_send E) RpcRegisterSend (Data (take k (drop off (contents n)))) w1 = (s, w2)"
        by (metis surj_pair)
      note k2 = step_relation.R_trans[OF R k1 keepsD[OF "1.prems"(2) s]]
      show ?thesis
      proof (cases s)
        case (Inl e)
        with r Inr s k2 show ?thesis by (simp add: streamLoop.simps[of E n off h w] Let_def)
      next
        case ok: (Inr u)
        from r Inr s ok "1.IH"[OF r[symmetric] Inr refl s[symmetric] ok "1.prems"] step_relation.R_trans[OF R k2]
        show ?thesis by (simp add: streamLoop.simps[of E n off h w] Let_def)
      qed
    qed
  qed
qed

lemma hashLoop_related:
  fixes R :: "'w os_world_scheme \<Rightarrow> 'w os_world_scheme \<Rightarrow> bool"
  assumes R: "step_relation R" and read: "\<And>n off. keeps R (osRead E n off copyBufferSize)"
  shows "keeps R (hashLoop E n off h)"
proof (rule keepsI)
  fix w :: "'w os_world_scheme"
  show "R w (snd (hashLoop E n off h w))" using read
  proof (induction E n off h w rule: hashLoop.induct)
    case (1 E n off h w)
    obtain r w1 where r: "osRead E n off copyBufferSize w = (r, w1)" by (metis surj_pair)
    note k1 = keepsD[OF "1.prems" r]
    show ?case
    proof (cases r)
      case (Inl e)
      with r k1 show ?thesis by (simp add: hashLoop.simps[of E n off h w])
    next
      case (Inr k)
      from r Inr "1.IH"[OF r[symmetric] Inr "1.prems"] step_relation.R_trans[OF R k1]
      show ?thesis by (simp add: hashLoop.simps[of E n off h w])
    qed
  qed
qed

end
