(* ===== verification/Registration_Roundtrip.thy ===== *)
theory Registration_Roundtrip
  imports Key_Registration
begin

text \<open>
  What registration puts on the wire is what a receiver that follows the protocol takes off
  it: the files on disk, whole and under the right identity; and what \<open>VerifyKeys\<close> accepts.
\<close>

section \<open>The read loops\<close>

text \<open>A cut of some bytes into pieces, none empty, none above a size.\<close>

definition cutOf :: "nat \<Rightarrow> bytes list \<Rightarrow> bytes \<Rightarrow> bool" where
  "cutOf n pieces data \<longleftrightarrow> concat pieces = data \<and> (\<forall>p \<in> set pieces. p \<noteq> [] \<and> length p \<le> n)"

lemma cutOf_step:
  "0 < k \<Longrightarrow> k \<le> n \<Longrightarrow> off + k \<le> length b \<Longrightarrow> cutOf n ps (drop (off + k) b) \<Longrightarrow>
    cutOf n (take k (drop off b) # ps) (drop off b)"
  using append_take_drop_id[of k "drop off b"] by (auto simp: cutOf_def add.commute)

lemma streamLoop_Inr:
  "streamLoop E n off h w = (Inr h', w') \<Longrightarrow>
    (\<exists>b. n = File b) \<and> (\<exists>ps. cutOf registerKeyChunkSize ps (drop off (contents n)) \<and> h' = foldl digestWrite h ps \<and>
      sent w' = sent w @ map (\<lambda>p. RpcRegisterSend (Data p)) ps) \<and>
    nodes w' = nodes w \<and> cl w' = cl w \<and> k_objs w' = k_objs w"
proof (induction E n off h w rule: streamLoop.induct)
  case (1 E n off h w)
  obtain r w1 where r: "osRead E n off registerKeyChunkSize w = (r, w1)" by (metis surj_pair)
  show ?case
  proof (cases r)
    case (Inl e)
    then have "e = EOF" "h' = h" "w' = w1"
      using 1(2) r by (auto simp: streamLoop.simps[of E n off h w] split: if_splits)
    moreover from this osRead_Inl[OF r[unfolded Inl]] obtain b where "n = File b" "length b \<le> off" "w1 = w\<lparr>tick := Suc (tick w)\<rparr>"
      by blast
    ultimately show ?thesis by (auto simp: contents_def cutOf_def intro: exI[of _ "[]"])
  next
    case (Inr k)
    note step = osRead_Inr[OF r[unfolded Inr], unfolded registerKeyChunkSize_def, simplified]
    let ?p = "take k (drop off (contents n))"
    obtain s w2 where s: "invoke (sv_register_send E) RpcRegisterSend (Data ?p) w1 = (s, w2)" by (metis surj_pair)
    then have w2: "w2 = w1\<lparr>tick := Suc (tick w1), sent := sent w1 @ [RpcRegisterSend (Data ?p)]\<rparr>"
      by (simp add: invoke_run)
    have ok: "s = Inr ()" and rest: "streamLoop E n (off + k) (digestWrite h ?p) w2 = (Inr h', w')"
      using 1(2) r Inr s by (auto simp: streamLoop.simps[of E n off h w] Let_def split: sum.splits)
    from 1(1)[OF r[symmetric] Inr refl s[symmetric] ok rest] obtain ps where ps:
      "cutOf registerKeyChunkSize ps (drop (off + k) (contents n))" "h' = foldl digestWrite (digestWrite h ?p) ps"
      "sent w' = sent w2 @ map (\<lambda>p. RpcRegisterSend (Data p)) ps" "nodes w' = nodes w2" "cl w' = cl w2" "k_objs w' = k_objs w2"
      by blast
    have "cutOf registerKeyChunkSize (?p # ps) (drop off (contents n))"
      using cutOf_step[OF step(2) _ step(3) ps(1)] step(4) by (simp add: registerKeyChunkSize_def)
    then show ?thesis using ps step(1,5) w2 by (intro conjI exI[of _ "?p # ps"]) auto
  qed
qed

lemma hashLoop_Inr:
  fixes w :: "'w os_world_scheme"
  shows "hashLoop E n off h w = (Inr h', w') \<Longrightarrow>
    (\<exists>b. n = File b) \<and> (\<exists>ps. concat ps = drop off (contents n) \<and> h' = foldl digestWrite h ps)"
proof (induction E n off h w rule: hashLoop.induct)
  case (1 E n off h w)
  obtain r w1 where r: "osRead E n off copyBufferSize w = (r, w1)" by (metis surj_pair)
  show ?case
  proof (cases r)
    case (Inl e)
    then have "e = EOF" "h' = h" using 1(2) r by (auto simp: hashLoop.simps[of E n off h w] split: if_splits)
    with osRead_Inl[OF r[unfolded Inl]] show ?thesis by (auto simp: contents_def intro: exI[of _ "[]"])
  next
    case (Inr k)
    note step = osRead_Inr[OF r[unfolded Inr], unfolded copyBufferSize_def, simplified]
    let ?p = "take k (drop off (contents n))"
    have "hashLoop E n (off + k) (digestWrite h ?p) w1 = (Inr h', w')"
      using 1(2) r Inr by (simp add: hashLoop.simps[of E n off h w])
    from 1(1)[OF r[symmetric] Inr this] obtain ps where
      "concat ps = drop (off + k) (contents n)" "h' = foldl digestWrite (digestWrite h ?p) ps" by blast
    moreover have "drop off (contents n) = ?p @ drop (off + k) (contents n)"
      by (metis add.commute append_take_drop_id drop_drop)
    ultimately show ?thesis using step(5) by (intro conjI exI[of _ "?p # ps"]) auto
  qed
qed

text \<open>The loops touch neither the disk nor the client.\<close>

definition onlyTick :: "'w os_world_scheme \<Rightarrow> 'w os_world_scheme \<Rightarrow> bool" where
  "onlyTick w w' \<longleftrightarrow> w' = w\<lparr>tick := tick w'\<rparr>"

interpretation ticking: step_relation onlyTick
proof
  fix s t u :: "'a os_world_scheme"
  show "onlyTick s s" by (simp add: onlyTick_def)
  show "onlyTick s t \<Longrightarrow> onlyTick t u \<Longrightarrow> onlyTick s u" by (cases s; cases t; cases u) (simp add: onlyTick_def)
qed

lemma osRead_tick: "osRead E n off buf w = (r, w') \<Longrightarrow> w' = w\<lparr>tick := Suc (tick w)\<rparr>"
  by (auto simp: osRead_def syscall_def Let_def split: option.splits node.splits if_splits)

lemma onlyTick_hashLoop:
  fixes w :: "'w os_world_scheme"
  shows "onlyTick w (snd (hashLoop E n off h w))"
proof -
  have read: "keeps (onlyTick :: 'w os_world_scheme \<Rightarrow> 'w os_world_scheme \<Rightarrow> bool) (osRead E n off copyBufferSize)" for n off
  proof (rule keepsI)
    fix w :: "'w os_world_scheme"
    obtain r w' where r: "osRead E n off copyBufferSize w = (r, w')" by fastforce
    from osRead_tick[OF r] have "onlyTick w w'" by (simp add: onlyTick_def)
    then show "onlyTick w (snd (osRead E n off copyBufferSize w))" by (simp add: r)
  qed
  from hashLoop_related[OF ticking.step_relation_axioms read] show ?thesis by (simp add: keeps_def)
qed

lemma streamLoop_nodes: "nodes (snd (streamLoop E n off h w)) = nodes w"
proof (induction E n off h w rule: streamLoop.induct)
  case (1 E n off h w)
  obtain r w1 where r: "osRead E n off registerKeyChunkSize w = (r, w1)" by (metis surj_pair)
  have n1: "nodes w1 = nodes w" using osRead_tick[OF r] by simp
  show ?case
  proof (cases r)
    case (Inl e)
    with r n1 show ?thesis by (simp add: streamLoop.simps[of E n off h w])
  next
    case (Inr k)
    obtain s w2 where s: "invoke (sv_register_send E) RpcRegisterSend (Data (take k (drop off (contents n)))) w1 = (s, w2)"
      by (metis surj_pair)
    have n2: "nodes w2 = nodes w" using s n1 by (auto simp: invoke_run)
    show ?thesis
    proof (cases s)
      case (Inl e)
      with r Inr s n2 show ?thesis by (simp add: streamLoop.simps[of E n off h w] Let_def)
    next
      case ok: (Inr u)
      with r Inr s n2 1[OF r[symmetric] Inr refl s[symmetric] ok] show ?thesis
        by (simp add: streamLoop.simps[of E n off h w] Let_def)
    qed
  qed
qed

section \<open>The reader\<close>

lemma resolveKeySlot_bin:
  assumes "resolveKeySlot E dir b j w = (Inr (Some (src, isJSON)), w')" and "nodeAt (nodes w) (joinPath dir j) = None"
  shows "src = joinPath dir b \<and> \<not> isJSON \<and> onlyTick w w'"
  using assms
  by (auto simp: resolveKeySlot_def andThen_def attempt_def osStat_def syscall_def Let_def run_simps onlyTick_def
      split: option.splits sum.splits prod.splits)

text \<open>With no JSON envelope in the slot, the file that is read is the raw one.\<close>

lemma openEvalKeyReader_bin:
  fixes w :: "'w cgo_world_scheme"
  assumes "openEvalKeyReader E dir w = (Inr r, w')" and "nodeAt (nodes w) (joinPath dir evalKeyJSONFile) = None"
  shows "nodeAt (nodes w) (joinPath dir evalKeyBinFile) = Some (er_node r)" and "er_tmp r = None"
    and "er_node r = File b \<Longrightarrow> er_size r = int (length b)" and "onlyTick w w'"
proof -
  from assms(1) obtain slot w1 where slot: "resolveKeySlot E dir evalKeyBinFile evalKeyJSONFile w = (Inr slot, w1)"
    and rest: "(case slot of None \<Rightarrow> throw (Sentinel ErrKeysNotFound)
     | Some (src, isJSON) \<Rightarrow>
         if \<not> isJSON
         then andThen (osOpen E src) (\<lambda>f.
           andThen (onFailure (ignoring (osClose E)) (statOpen E f)) (\<lambda>n.
           ret \<lparr>er_node = f, er_size = n, er_tmp = None\<rparr>))
         else andThen (mapErr (wrapf ''runespace: stage eval'') (osCreateTemp E)) (\<lambda>tmp.
           andThen (attempt (osClose E)) (\<lambda>(_ :: err + unit).
           onFailure (ignoring (osRemove E tmp))
             (andThen (mapErr (wrapf ''runespace: unwrap eval'') (UnwrapEvalKey E src tmp)) (\<lambda>_.
              andThen (osOpen E tmp) (\<lambda>f.
              andThen (onFailure (ignoring (osClose E)) (statOpen E f)) (\<lambda>n.
              ret \<lparr>er_node = f, er_size = n, er_tmp = Some tmp\<rparr>))))))) w1 = (Inr r, w')"
    unfolding openEvalKeyReader_def by (auto elim: andThen_InrE)
  from rest obtain src isJSON where s: "slot = Some (src, isJSON)" by (auto simp: run_simps split: option.splits)
  from resolveKeySlot_bin[OF slot[unfolded s] assms(2)] have
    bin: "src = joinPath dir evalKeyBinFile" "\<not> isJSON" "onlyTick w w1" by blast+
  from bin(3) have n1: "nodes w1 = nodes w" by (cases w; cases w1) (simp add: onlyTick_def)
  from rest s bin(1,2) obtain f w2 where f: "osOpen E (joinPath dir evalKeyBinFile) w1 = (Inr f, w2)"
    and st: "andThen (onFailure (ignoring (osClose E)) (statOpen E f)) (\<lambda>n.
           ret \<lparr>er_node = f, er_size = n, er_tmp = None\<rparr>) w2 = (Inr r, w')"
    by (auto elim: andThen_InrE)
  have o: "nodeAt (nodes w) (joinPath dir evalKeyBinFile) = Some f" "onlyTick w1 w2"
    using f n1 by (auto simp: osOpen_def syscall_def Let_def onlyTick_def split: option.splits)
  have r: "er_node r = f" "er_tmp r = None" "f = File b \<Longrightarrow> er_size r = int (length b)" "onlyTick w2 w'" for b
    using st by (auto simp: andThen_def onFailure_def statOpen_def syscall_def Let_def run_simps onlyTick_def nodeSize_def
        split: option.splits)
  show "nodeAt (nodes w) (joinPath dir evalKeyBinFile) = Some (er_node r)" and "er_tmp r = None"
    using o(1) r by simp_all
  show "er_node r = File b \<Longrightarrow> er_size r = int (length b)" using r by blast
  show "onlyTick w w'" using bin(3) o(2) r(4) ticking.R_trans by blast
qed

lemma readerCleanup_bin: "er_tmp r = None \<Longrightarrow> onlyTick w (readerCleanup E r w)"
  by (auto simp: readerCleanup_def ignoring_def osClose_def syscall_def Let_def onlyTick_def split: option.splits)

lemma onlyTick_client:
  fixes w :: "'w client_world_scheme"
  assumes "onlyTick w w'"
  shows "nodes w' = nodes w" and "cl w' = cl w" and "sent w' = sent w" and "k_objs w' = k_objs w"
  using assms by (cases w; cases w'; simp add: onlyTick_def)+

section \<open>The receiver\<close>

text \<open>
  The protocol's side of the stream: for each key exactly one header, its data frames in
  order, one footer; the length announced and the digest are checked.
\<close>

fun receive :: "(KeyHeader \<times> bytes) option \<Rightarrow> RegisterKeysStreamRequest list \<Rightarrow> (KeyHeader \<times> bytes) list option" where
  "receive None [] = Some []"
| "receive None (Header h # fs) = receive (Some (h, [])) fs"
| "receive (Some (h, acc)) (Data p # fs) = receive (Some (h, acc @ p)) fs"
| "receive (Some (h, acc)) (Footer f # fs) =
     (if kh_total_len h = int (length acc) mod 2 ^ 64 \<and> kf_sha256 f = sha256 acc
      then map_option (\<lambda>ks. (h, acc) # ks) (receive None fs) else None)"
| "receive _ _ = None"

definition keyFrames :: "KeyHeader \<Rightarrow> bytes list \<Rightarrow> RegisterKeysStreamRequest list" where
  "keyFrames hdr pieces =
     Header (hdr\<lparr>kh_total_len := int (length (concat pieces)) mod 2 ^ 64\<rparr>) # map Data pieces @
     [Footer \<lparr>kf_sha256 = sha256 (concat pieces)\<rparr>]"

lemma receive_data: "receive (Some (h, acc)) (map Data pieces @ fs) = receive (Some (h, acc @ concat pieces)) fs"
  by (induction pieces arbitrary: acc) simp_all

lemma receive_keyFrames:
  "receive None (keyFrames hdr pieces @ fs) =
    map_option (\<lambda>ks. (hdr\<lparr>kh_total_len := int (length (concat pieces)) mod 2 ^ 64\<rparr>, concat pieces) # ks) (receive None fs)"
  by (simp add: keyFrames_def receive_data)

lemma streamEvalKey_Inr:
  fixes w :: "'w client_world_scheme"
  assumes "streamEvalKey E hdr dir w = (Inr u, w')" and "nodeAt (nodes w) (joinPath dir evalKeyJSONFile) = None"
  shows "\<exists>data pieces. nodeAt (nodes w) (joinPath dir evalKeyBinFile) = Some (File data) \<and>
    cutOf registerKeyChunkSize pieces data \<and> sent w' = sent w @ map RpcRegisterSend (keyFrames hdr pieces) \<and>
    nodes w' = nodes w \<and> cl w' = cl w \<and> k_objs w' = k_objs w"
proof -
  from assms(1) obtain r w1 w4 where opened: "openEvalKeyReader E dir w = (Inr r, w1)"
    and body: "andThen (sendFrame E (Header (hdr\<lparr>kh_total_len := er_size r mod 2 ^ 64\<rparr>))) (\<lambda>_.
        andThen (streamLoop E (er_node r) 0 digestNew) (\<lambda>h.
        sendFrame E (Footer \<lparr>kf_sha256 = digestSum h\<rparr>))) w1 = (Inr u, w4)"
    and w': "w' = readerCleanup E r w4"
    unfolding streamEvalKey_def by (auto simp: deferring_def elim!: andThen_InrE split: prod.splits)
  from body obtain w2 w3 h where
    h1: "sendFrame E (Header (hdr\<lparr>kh_total_len := er_size r mod 2 ^ 64\<rparr>)) w1 = (Inr (), w2)" and
    h2: "streamLoop E (er_node r) 0 digestNew w2 = (Inr h, w3)" and
    h3: "sendFrame E (Footer \<lparr>kf_sha256 = digestSum h\<rparr>) w3 = (Inr u, w4)"
    by (auto elim!: andThen_InrE)
  note reader = openEvalKeyReader_bin[OF opened assms(2)]
  from streamLoop_Inr[OF h2] obtain data ps where
    loop: "er_node r = File data" "cutOf registerKeyChunkSize ps data" "h = foldl digestWrite digestNew ps"
      "sent w3 = sent w2 @ map (\<lambda>p. RpcRegisterSend (Data p)) ps" "nodes w3 = nodes w2" "cl w3 = cl w2" "k_objs w3 = k_objs w2"
    by (auto simp: contents_def)
  have digest: "digestSum h = sha256 (concat ps)" by (simp add: loop(3) sha.finish_pieces)
  have whole: "concat ps = data" using loop(2) by (simp add: cutOf_def)
  have size: "er_size r = int (length (concat ps))" using reader(3)[OF loop(1)] whole by simp
  have w2: "w2 = w1\<lparr>tick := Suc (tick w1), sent := sent w1 @
      [RpcRegisterSend (Header (hdr\<lparr>kh_total_len := er_size r mod 2 ^ 64\<rparr>))]\<rparr>"
    using h1 by (simp add: sendFrame_def invoke_run)
  have w4: "w4 = w3\<lparr>tick := Suc (tick w3), sent := sent w3 @ [RpcRegisterSend (Footer \<lparr>kf_sha256 = digestSum h\<rparr>)]\<rparr>"
    using h3 by (simp add: sendFrame_def invoke_run)
  note first = onlyTick_client[OF reader(4)] and last = onlyTick_client[OF readerCleanup_bin[OF reader(2), of w4 E]]
  have "sent w' = sent w @ map RpcRegisterSend (keyFrames hdr ps)"
    unfolding w' last(3) by (simp add: w4 loop(4) w2 first(3) keyFrames_def digest size comp_def)
  then show ?thesis
    using reader(1) loop(1,2)
    by (intro exI[of _ data] exI[of _ ps]) (simp add: w' last(1,2,4), simp add: w4 loop(5-7) w2 first)
qed

lemma RegisterKeys_run:
  assumes "connOK w" and "keysAt w k = Some ks" and "k_rmp ks = Some rmp" and "k_mm ks = Some mm"
  shows "RegisterKeys E k w =
    andThen (invoke (sv_register_open E) (\<lambda>_. RpcRegisterOpen) ()) (\<lambda>_.
    andThen (streamEvalKey E (keyHeaderFor ks rmp KEY_KIND_RMP_EVAL) (kb_dir rmp)) (\<lambda>_.
    andThen (streamEvalKey E (keyHeaderFor ks mm KEY_KIND_MM_EVAL) (kb_dir mm)) (\<lambda>_.
    andThen (invoke (sv_register_close E) (\<lambda>_. RpcRegisterClose) ()) (\<lambda>_. UseKeys k)))) w"
  using assms by (simp add: RegisterKeys_def whenOpen_def andThen_def run_simps)

lemma RegisterKeys_Inr:
  fixes w :: "'w client_world_scheme"
  assumes "RegisterKeys E k w = (Inr (), w')"
    and "keysAt w k = Some ks" and "k_rmp ks = Some rmp" and "k_mm ks = Some mm"
    and "nodeAt (nodes w) (joinPath (kb_dir rmp) evalKeyJSONFile) = None"
    and "nodeAt (nodes w) (joinPath (kb_dir mm) evalKeyJSONFile) = None"
  shows "\<exists>a b frames.
    nodeAt (nodes w) (joinPath (kb_dir rmp) evalKeyBinFile) = Some (File a) \<and>
    nodeAt (nodes w) (joinPath (kb_dir mm) evalKeyBinFile) = Some (File b) \<and>
    sent w' = sent w @ RpcRegisterOpen # map RpcRegisterSend frames @ [RpcRegisterClose] \<and>
    receive None frames = Some
      [((keyHeaderFor ks rmp KEY_KIND_RMP_EVAL)\<lparr>kh_total_len := int (length a) mod 2 ^ 64\<rparr>, a),
       ((keyHeaderFor ks mm KEY_KIND_MM_EVAL)\<lparr>kh_total_len := int (length b) mod 2 ^ 64\<rparr>, b)] \<and>
    (\<forall>p. Data p \<in> set frames \<longrightarrow> p \<noteq> [] \<and> length p \<le> 1048576) \<and>
    cl w' = (cl w)\<lparr>cl_keys := k\<rparr> \<and> nodes w' = nodes w \<and> k_objs w' = k_objs w \<and> cl_conn (cl w) \<and>
    (\<exists>t. sv_register_close E (sent w @ RpcRegisterOpen # map RpcRegisterSend frames) t () = Inr ())"
proof -
  have opened: "connOK w"
    using assms(1) by (cases "connOK w") (auto simp: RegisterKeys_def whenOpen_def andThen_def run_simps)
  obtain w1 w2 w3 w4 where
    s1: "invoke (sv_register_open E) (\<lambda>_. RpcRegisterOpen) () w = (Inr (), w1)" and
    s2: "streamEvalKey E (keyHeaderFor ks rmp KEY_KIND_RMP_EVAL) (kb_dir rmp) w1 = (Inr (), w2)" and
    s3: "streamEvalKey E (keyHeaderFor ks mm KEY_KIND_MM_EVAL) (kb_dir mm) w2 = (Inr (), w3)" and
    s4: "invoke (sv_register_close E) (\<lambda>_. RpcRegisterClose) () w3 = (Inr (), w4)" and
    s5: "UseKeys k w4 = (Inr (), w')"
    using assms(1) unfolding RegisterKeys_run[OF opened assms(2-4)] by (auto elim!: andThen_InrE)
  have w1: "w1 = w\<lparr>tick := Suc (tick w), sent := sent w @ [RpcRegisterOpen]\<rparr>" using s1 by (simp add: invoke_run)
  have w4: "w4 = w3\<lparr>tick := Suc (tick w3), sent := sent w3 @ [RpcRegisterClose]\<rparr>" using s4 by (simp add: invoke_run)
  have w': "w' = w4\<lparr>cl := (cl w4)\<lparr>cl_keys := k\<rparr>\<rparr>" using s5 by (simp add: UseKeys_def setClient_def modify_run)
  from streamEvalKey_Inr[OF s2] assms(5) obtain a ps where a:
    "nodeAt (nodes w) (joinPath (kb_dir rmp) evalKeyBinFile) = Some (File a)" "cutOf registerKeyChunkSize ps a"
    "sent w2 = sent w1 @ map RpcRegisterSend (keyFrames (keyHeaderFor ks rmp KEY_KIND_RMP_EVAL) ps)"
    "nodes w2 = nodes w" "cl w2 = cl w" "k_objs w2 = k_objs w"
    by (auto simp: w1)
  from streamEvalKey_Inr[OF s3] assms(6) obtain b qs where b:
    "nodeAt (nodes w) (joinPath (kb_dir mm) evalKeyBinFile) = Some (File b)" "cutOf registerKeyChunkSize qs b"
    "sent w3 = sent w2 @ map RpcRegisterSend (keyFrames (keyHeaderFor ks mm KEY_KIND_MM_EVAL) qs)"
    "nodes w3 = nodes w" "cl w3 = cl w" "k_objs w3 = k_objs w"
    using a(4-6) by auto
  let ?frames = "keyFrames (keyHeaderFor ks rmp KEY_KIND_RMP_EVAL) ps @ keyFrames (keyHeaderFor ks mm KEY_KIND_MM_EVAL) qs"
  have whole: "concat ps = a" "concat qs = b" using a(2) b(2) by (simp_all add: cutOf_def)
  have "receive None ?frames = Some
      [((keyHeaderFor ks rmp KEY_KIND_RMP_EVAL)\<lparr>kh_total_len := int (length a) mod 2 ^ 64\<rparr>, a),
       ((keyHeaderFor ks mm KEY_KIND_MM_EVAL)\<lparr>kh_total_len := int (length b) mod 2 ^ 64\<rparr>, b)]"
    using receive_keyFrames[of "keyHeaderFor ks rmp KEY_KIND_RMP_EVAL" ps]
      receive_keyFrames[of "keyHeaderFor ks mm KEY_KIND_MM_EVAL" qs "[]"] by (simp add: whole)
  moreover have "p \<noteq> [] \<and> length p \<le> 1048576" if "Data p \<in> set ?frames" for p
    using that a(2) b(2) by (auto simp: keyFrames_def cutOf_def registerKeyChunkSize_def)
  moreover have "sent w' = sent w @ RpcRegisterOpen # map RpcRegisterSend ?frames @ [RpcRegisterClose]"
    by (simp add: w' w4 b(3) a(3) w1)
  moreover have "cl w' = (cl w)\<lparr>cl_keys := k\<rparr>" "nodes w' = nodes w" "k_objs w' = k_objs w" by (simp_all add: w' w4 b)
  moreover have "cl_conn (cl w)" using opened by (simp add: connOK_def)
  moreover have "sv_register_close E (sent w @ RpcRegisterOpen # map RpcRegisterSend ?frames) (tick w3) () = Inr ()"
    using s4 by (simp add: invoke_run b(3) a(3) w1)
  ultimately show ?thesis using a(1) b(1) by blast
qed

section \<open>Properties\<close>

text \<open>
  C19. Registration round-trips. With both evaluation keys stored raw, as \<open>GenerateKeys\<close> leaves
  them, a successful \<open>RegisterKeys\<close> has opened one stream, sent the frames of both keys and
  closed it, and a receiver that follows the protocol, checking the announced lengths and the
  SHA-256 digests, takes off the stream exactly two keys: the bytes of the two files, whole,
  under the kind, id, preset, dimension and evaluation mode of the key set. No data frame is
  empty or longer than 1 MiB. The key set is then bound to the client; the disk is unchanged.
\<close>

theorem registration_roundtrip:
  fixes w :: "'w client_world_scheme"
  assumes "RegisterKeys E k w = (Inr (), w')"
    and "keysAt w k = Some ks" and "k_rmp ks = Some rmp" and "k_mm ks = Some mm"
    and "nodeAt (nodes w) (joinPath (kb_dir rmp) evalKeyJSONFile) = None"
    and "nodeAt (nodes w) (joinPath (kb_dir mm) evalKeyJSONFile) = None"
  shows "\<exists>a b frames.
    nodeAt (nodes w) (joinPath (kb_dir rmp) evalKeyBinFile) = Some (File a) \<and>
    nodeAt (nodes w) (joinPath (kb_dir mm) evalKeyBinFile) = Some (File b) \<and>
    sent w' = sent w @ RpcRegisterOpen # map RpcRegisterSend frames @ [RpcRegisterClose] \<and>
    receive None frames = Some
      [((keyHeaderFor ks rmp KEY_KIND_RMP_EVAL)\<lparr>kh_total_len := int (length a) mod 2 ^ 64\<rparr>, a),
       ((keyHeaderFor ks mm KEY_KIND_MM_EVAL)\<lparr>kh_total_len := int (length b) mod 2 ^ 64\<rparr>, b)] \<and>
    (\<forall>p. Data p \<in> set frames \<longrightarrow> p \<noteq> [] \<and> length p \<le> 1048576) \<and>
    cl w' = (cl w)\<lparr>cl_keys := k\<rparr> \<and> nodes w' = nodes w"
  using RegisterKeys_Inr[OF assms] by blast

section \<open>Fingerprints\<close>

lemma evalKeyFingerprint_Inr:
  fixes w :: "'w cgo_world_scheme"
  assumes "evalKeyFingerprint E dir w = (Inr fp, w')" and "nodeAt (nodes w) (joinPath dir evalKeyJSONFile) = None"
  shows "\<exists>data. nodeAt (nodes w) (joinPath dir evalKeyBinFile) = Some (File data) \<and> fp = sha256 data \<and> onlyTick w w'"
proof -
  from assms(1) obtain r w1 h w2 where opened: "openEvalKeyReader E dir w = (Inr r, w1)"
    and h: "hashLoop E (er_node r) 0 digestNew w1 = (Inr h, w2)" and fp: "fp = digestSum h" "w' = readerCleanup E r w2"
    unfolding evalKeyFingerprint_def by (auto simp: deferring_def ret_def elim!: andThen_InrE split: prod.splits)
  note reader = openEvalKeyReader_bin[OF opened assms(2)]
  from hashLoop_Inr[OF h] obtain data ps where d: "er_node r = File data" "concat ps = data" "h = foldl digestWrite digestNew ps"
    by (auto simp: contents_def)
  have "onlyTick w1 w2" using onlyTick_hashLoop[of w1 E "er_node r" 0 digestNew] by (simp add: h)
  then have "onlyTick w w'"
    using reader(4) readerCleanup_bin[OF reader(2), of w2 E] fp(2) ticking.R_trans by blast
  then show ?thesis using reader(1) d fp(1) by (auto simp: sha.finish_pieces)
qed

lemma osRead_reliable:
  "reliable E \<Longrightarrow> osRead E (File b) off buf w = (Inl e, w') \<Longrightarrow> e = EOF"
  by (auto simp: osRead_def syscall_def Let_def reliable_def split: if_splits)

lemma hashLoop_reliable:
  fixes w :: "'w os_world_scheme"
  assumes "reliable E"
  shows "n = File b \<Longrightarrow> \<exists>h' w'. hashLoop E n off h w = (Inr h', w')"
  using assms
proof (induction E n off h w rule: hashLoop.induct)
  case (1 E n off h w)
  obtain r w1 where r: "osRead E n off copyBufferSize w = (r, w1)" by (metis surj_pair)
  show ?case
  proof (cases r)
    case (Inl e)
    then have "e = EOF" using osRead_reliable[OF 1(3)] r 1(2) by blast
    then show ?thesis using r Inl by (simp add: hashLoop.simps[of E n off h w])
  next
    case (Inr k)
    then show ?thesis using r 1(1)[OF r[symmetric] Inr 1(2,3)] by (simp add: hashLoop.simps[of E n off h w])
  qed
qed

lemma evalKeyFingerprint_reliable:
  fixes w :: "'w cgo_world_scheme"
  assumes "reliable E" and "nodeAt (nodes w) (joinPath dir evalKeyJSONFile) = None"
    and "nodeAt (nodes w) (joinPath dir evalKeyBinFile) = Some (File data)"
  shows "\<exists>w'. evalKeyFingerprint E dir w = (Inr (sha256 data), w') \<and> onlyTick w w'"
proof -
  have "\<exists>r w1. openEvalKeyReader E dir w = (Inr r, w1) \<and> er_node r = File data"
    using assms
    by (simp add: openEvalKeyReader_def resolveKeySlot_def osStat_reliable andThen_def attempt_def run_simps
        osOpen_def onFailure_def statOpen_def syscall_def reliable_def Let_def)
  then obtain r w1 where opened: "openEvalKeyReader E dir w = (Inr r, w1)" "er_node r = File data" by blast
  obtain h w2 where "hashLoop E (er_node r) 0 digestNew w1 = (Inr h, w2)"
    using hashLoop_reliable[OF assms(1) opened(2)] by blast
  then have "evalKeyFingerprint E dir w = (Inr (digestSum h), readerCleanup E r w2)"
    by (simp add: evalKeyFingerprint_def andThen_def deferring_def run_simps opened(1))
  then show ?thesis using evalKeyFingerprint_Inr[OF _ assms(2)] assms(3) by fastforce
qed

text \<open>The local record of one bundle, and the two of a key set.\<close>

definition localKey :: "Keys \<Rightarrow> keyBundle \<Rightarrow> bytes \<Rightarrow> RegisteredKey" where
  "localKey ks b data = \<lparr>rk_kind = kk_name (kb_kind b), rk_key_id = k_id ks, rk_preset = kk_preset (kb_kind b),
     rk_dim = k_dim ks, rk_eval_mode = kk_mode (kb_kind b), rk_fingerprint = sha256 data\<rparr>"

fun addLocal :: "Keys \<Rightarrow> (string \<Rightarrow> RegisteredKey option) \<Rightarrow> keyBundle \<times> bytes \<Rightarrow> string \<Rightarrow> RegisteredKey option" where
  "addLocal ks m (b, data) = m(kk_name (kb_kind b) \<mapsto> localKey ks b data)"

lemma localKeys_step:
  "evalKeyFingerprint E (kb_dir b) w = (Inr (sha256 data), w1) \<Longrightarrow>
    localKeys E ks (b # bs) m w = localKeys E ks bs (addLocal ks m (b, data)) w1"
  by (simp add: andThen_def mapErr_def localKey_def)

definition rawStored :: "keyBundle \<Rightarrow> 'w os_world_scheme \<Rightarrow> bytes \<Rightarrow> bool" where
  "rawStored b w data \<longleftrightarrow> nodeAt (nodes w) (joinPath (kb_dir b) evalKeyJSONFile) = None \<and>
     nodeAt (nodes w) (joinPath (kb_dir b) evalKeyBinFile) = Some (File data)"

lemma rawStored_tick: "onlyTick w w' \<Longrightarrow> rawStored b w' data = rawStored b w data"
  by (cases w; cases w') (simp add: rawStored_def onlyTick_def)

lemma localKeys_Inr:
  fixes w :: "'w cgo_world_scheme"
  assumes "localKeys E ks bs m w = (Inr m', w')"
    and "\<forall>b \<in> set bs. nodeAt (nodes w) (joinPath (kb_dir b) evalKeyJSONFile) = None"
  shows "\<exists>datas. list_all2 (\<lambda>b data. rawStored b w data) bs datas \<and>
    m' = foldl (addLocal ks) m (zip bs datas)"
  using assms
proof (induction bs arbitrary: m w)
  case Nil
  then show ?case by (simp add: ret_def)
next
  case (Cons b bs)
  from Cons.prems(1) obtain fp w1 where fp: "evalKeyFingerprint E (kb_dir b) w = (Inr fp, w1)"
    by (auto elim!: andThen_InrE dest: mapErr_InrE)
  obtain data where d: "nodeAt (nodes w) (joinPath (kb_dir b) evalKeyBinFile) = Some (File data)" "fp = sha256 data" "onlyTick w w1"
    using evalKeyFingerprint_Inr[OF fp] Cons.prems(2) by auto
  have nodes: "nodes w1 = nodes w" using d(3) by (cases w; cases w1) (simp add: onlyTick_def)
  have rest: "localKeys E ks bs (addLocal ks m (b, data)) w1 = (Inr m', w')"
    using Cons.prems(1) localKeys_step[OF fp[unfolded d(2)]] by metis
  obtain datas where ds: "list_all2 (\<lambda>b data. rawStored b w1 data) bs datas"
    "m' = foldl (addLocal ks) (addLocal ks m (b, data)) (zip bs datas)"
    using Cons.IH[OF rest] Cons.prems(2) nodes by (auto simp del: addLocal.simps)
  have "rawStored b w data" using d(1) Cons.prems(2) by (simp add: rawStored_def)
  then show ?case
    using ds rawStored_tick[OF d(3)] by (intro exI[of _ "data # datas"]) (simp del: addLocal.simps)
qed

lemma localKeys_reliable:
  fixes w :: "'w cgo_world_scheme"
  assumes "reliable E" and "list_all2 (\<lambda>b data. rawStored b w data) bs datas"
  shows "\<exists>w'. localKeys E ks bs m w =
    (Inr (foldl (addLocal ks) m (zip bs datas)), w')"
  using assms(2)
proof (induction bs arbitrary: m w datas)
  case Nil
  then show ?case by (simp add: ret_def)
next
  case (Cons b bs)
  then obtain data ds where d: "datas = data # ds" "rawStored b w data" "list_all2 (\<lambda>b data. rawStored b w data) bs ds"
    by (auto simp: list_all2_Cons1)
  obtain w1 where w1: "evalKeyFingerprint E (kb_dir b) w = (Inr (sha256 data), w1)" "onlyTick w w1"
    using evalKeyFingerprint_reliable[OF assms(1)] d(2) unfolding rawStored_def by blast
  have "list_all2 (\<lambda>b data. rawStored b w1 data) bs ds" using d(3) rawStored_tick[OF w1(2)] by simp
  from Cons.IH[OF this, of "addLocal ks m (b, data)"] show ?case
    by (simp only: d(1) localKeys_step[OF w1(1)] zip_Cons_Cons foldl_Cons)
qed

lemma checkRegistered_ok:
  "checkRegistered m rks = Inr () \<longleftrightarrow> (\<forall>rk \<in> set rks. \<exists>lm. m (rk_kind rk) = Some lm \<and> rk_key_id rk = rk_key_id lm \<and>
     rk_preset rk = rk_preset lm \<and> rk_dim rk = rk_dim lm \<and> rk_eval_mode rk = rk_eval_mode lm \<and>
     (rk_fingerprint rk = [] \<or> rk_fingerprint rk = rk_fingerprint lm))"
  by (induction rks) (auto split: option.split)

section \<open>What VerifyKeys accepts\<close>

text \<open>The two bundles carry the kinds \<open>OpenKeys\<close> gives them; the dimension fits the wire field.\<close>

definition namedBundles :: "Keys \<Rightarrow> keyBundle \<Rightarrow> keyBundle \<Rightarrow> bool" where
  "namedBundles ks rmp mm \<longleftrightarrow> k_rmp ks = Some rmp \<and> k_mm ks = Some mm \<and>
     kk_name (kb_kind rmp) = ''rmp'' \<and> kk_name (kb_kind mm) = ''mm''"

definition heldLocally :: "Keys \<Rightarrow> keyBundle \<Rightarrow> bytes \<Rightarrow> KeyMeta \<Rightarrow> bool" where
  "heldLocally ks b data rk \<longleftrightarrow> km_kid rk = k_id ks \<and> km_preset rk = kk_preset (kb_kind b) \<and>
     uint (km_dim rk) = k_dim ks \<and> km_eval_mode rk = kk_mode (kb_kind b) \<and>
     (km_fingerprint rk = [] \<or> km_fingerprint rk = sha256 data)"

lemma keyKindName_cases:
  "keyKindName k = ''rmp'' \<longleftrightarrow> k = KEY_KIND_RMP_EVAL" "keyKindName k = ''mm'' \<longleftrightarrow> k = KEY_KIND_MM_EVAL"
  "keyKindName k \<in> {''rmp'', ''mm'', ''unknown''}"
  by (auto simp: keyKindName_def rmpKind_def mmKind_def key_kind_enum_defs)

lemma checkRegistered_local:
  assumes "namedBundles ks rmp mm"
  shows "checkRegistered (foldl (addLocal ks) (\<lambda>_. None) (zip [rmp, mm] [a, b])) (map registeredKey rks) = Inr () \<longleftrightarrow>
    (\<forall>rk \<in> set rks. km_kind rk = KEY_KIND_RMP_EVAL \<and> heldLocally ks rmp a rk \<or>
      km_kind rk = KEY_KIND_MM_EVAL \<and> heldLocally ks mm b rk)"
proof -
  have kinds: "KEY_KIND_RMP_EVAL \<noteq> KEY_KIND_MM_EVAL" by (simp add: key_kind_enum_defs)
  define m where "m = foldl (addLocal ks) (\<lambda>_. None) (zip [rmp, mm] [a, b])"
  have "(\<exists>lm. m (keyKindName (km_kind rk)) = Some lm \<and>
      km_kid rk = rk_key_id lm \<and> km_preset rk = rk_preset lm \<and> uint (km_dim rk) = rk_dim lm \<and>
      km_eval_mode rk = rk_eval_mode lm \<and> (km_fingerprint rk = [] \<or> km_fingerprint rk = rk_fingerprint lm)) \<longleftrightarrow>
     (km_kind rk = KEY_KIND_RMP_EVAL \<and> heldLocally ks rmp a rk \<or> km_kind rk = KEY_KIND_MM_EVAL \<and> heldLocally ks mm b rk)" for rk
    using assms kinds keyKindName_cases[of "km_kind rk"]
    by (auto simp: m_def namedBundles_def localKey_def heldLocally_def)
  then show ?thesis unfolding m_def[symmetric] by (simp add: checkRegistered_ok registeredKey_def)
qed

lemma VerifyKeys_run:
  assumes "cl_conn (cl w)" and "keysAt w k = Some ks" and "namedBundles ks rmp mm"
  shows "VerifyKeys E k w =
    (let w1 = w\<lparr>tick := Suc (tick w), sent := sent w @ [RpcGetInfo]\<rparr> in
     case sv_info E (sent w) (tick w) () of
       Inl e \<Rightarrow> (Inl e, w1)
     | Inr resp \<Rightarrow>
         if gi_registered_keys resp = [] then (Inl noRegisteredKeys, w1)
         else (case localKeys E ks [rmp, mm] (\<lambda>_. None) w1 of
             (Inl e, w2) \<Rightarrow> (Inl e, w2)
           | (Inr m, w2) \<Rightarrow> (checkRegistered m (map registeredKey (gi_registered_keys resp)), w2)))"
  using assms
  by (simp add: VerifyKeys_def whenOpen_def connOK_def Info_def namedBundles_def andThen_def run_simps invoke_run Let_def
      del: localKeys.simps split: sum.split prod.split)

text \<open>
  A server that serves what was registered with it. Registration is one-shot (\<open>runespace.proto\<close>;
  \<open>errors.proto\<close> has a reason for refusing a rotation), so this speaks of the first stream a client
  completes, and only if the server accepted it: whenever \<open>GetInfo\<close> answers after that, the metadata
  is that of the keys taken off the stream, with their digests.
\<close>

definition metaOf :: "KeyHeader \<times> bytes \<Rightarrow> KeyMeta" where
  "metaOf k = \<lparr>km_kind = kh_kind (fst k), km_kid = kh_kid (fst k), km_preset = kh_preset (fst k),
     km_dim = kh_dim (fst k), km_eval_mode = kh_eval_mode (fst k), km_fingerprint = sha256 (snd k)\<rparr>"

definition servesRegistered :: "'e client_env_scheme \<Rightarrow> bool" where
  "servesRegistered E \<longleftrightarrow> (\<forall>hist frames keys t t' resp. RpcRegisterClose \<notin> set hist \<longrightarrow>
     receive None frames = Some keys \<longrightarrow>
     sv_register_close E (hist @ RpcRegisterOpen # map RpcRegisterSend frames) t () = Inr () \<longrightarrow>
     sv_info E (hist @ RpcRegisterOpen # map RpcRegisterSend frames @ [RpcRegisterClose]) t' () = Inr resp \<longrightarrow>
     gi_registered_keys resp = map metaOf keys)"

text \<open>
  C20. What \<open>VerifyKeys\<close> accepts. With both evaluation keys stored raw, it returns nil only if
  \<open>GetInfo\<close> succeeded and reported at least one key, and every reported key is an RMP or MM
  evaluation key whose id, preset, dimension and mode are those of the local bundle of that
  kind and whose fingerprint, when the server reports one, is the SHA-256 digest of the
  local file.
\<close>

theorem verify_sound:
  fixes w :: "'w client_world_scheme"
  assumes "VerifyKeys E k w = (Inr (), w')"
    and "keysAt w k = Some ks" and "namedBundles ks rmp mm"
    and "nodeAt (nodes w) (joinPath (kb_dir rmp) evalKeyJSONFile) = None"
    and "nodeAt (nodes w) (joinPath (kb_dir mm) evalKeyJSONFile) = None"
  shows "\<exists>resp a b. sv_info E (sent w) (tick w) () = Inr resp \<and> gi_registered_keys resp \<noteq> [] \<and>
    nodeAt (nodes w) (joinPath (kb_dir rmp) evalKeyBinFile) = Some (File a) \<and>
    nodeAt (nodes w) (joinPath (kb_dir mm) evalKeyBinFile) = Some (File b) \<and>
    (\<forall>rk \<in> set (gi_registered_keys resp).
      km_kind rk = KEY_KIND_RMP_EVAL \<and> heldLocally ks rmp a rk \<or>
      km_kind rk = KEY_KIND_MM_EVAL \<and> heldLocally ks mm b rk)"
proof -
  have conn: "cl_conn (cl w)"
    using assms(1) by (cases "cl_conn (cl w)") (auto simp: VerifyKeys_def whenOpen_def connOK_def andThen_def run_simps)
  let ?w1 = "w\<lparr>tick := Suc (tick w), sent := sent w @ [RpcGetInfo]\<rparr>"
  obtain resp m w2 where r: "sv_info E (sent w) (tick w) () = Inr resp" "gi_registered_keys resp \<noteq> []"
    "localKeys E ks [rmp, mm] (\<lambda>_. None) ?w1 = (Inr m, w2)"
    "checkRegistered m (map registeredKey (gi_registered_keys resp)) = Inr ()"
    using assms(1) unfolding VerifyKeys_run[OF conn assms(2,3)]
    by (auto simp: Let_def split: sum.splits if_splits prod.splits)
  have raw: "\<forall>b \<in> set [rmp, mm]. nodeAt (nodes ?w1) (joinPath (kb_dir b) evalKeyJSONFile) = None"
    using assms(4,5) by simp
  obtain a b where ab: "rawStored rmp ?w1 a" "rawStored mm ?w1 b"
    "m = foldl (addLocal ks) (\<lambda>_. None) (zip [rmp, mm] [a, b])"
    using localKeys_Inr[OF r(3) raw] by (auto simp: list_all2_Cons1 simp del: addLocal.simps)
  show ?thesis
    using r(1,2) ab(1,2) checkRegistered_local[OF assms(3), of a b "gi_registered_keys resp"] r(4)
    unfolding ab(3) by (auto simp: rawStored_def)
qed

text \<open>
  C21. A key set that has just been registered verifies. On a machine where no file operation
  fails, against a server that serves the keys of the one registration it accepted, and with
  both keys stored raw, \<open>VerifyKeys\<close> returns nil right after the first \<open>RegisterKeys\<close> to go through
  if that was for the same key set and the \<open>GetInfo\<close> it sends is answered, whatever the sizes in
  which the files are read either time.
\<close>

theorem register_then_verify:
  fixes w :: "'w client_world_scheme"
  assumes "RegisterKeys E k w = (Inr (), w1)"
    and "reliable E" and "servesRegistered E" and "RpcRegisterClose \<notin> set (sent w)"
    and "sv_info E (sent w1) (tick w1) () = Inr resp"
    and "keysAt w k = Some ks" and "namedBundles ks rmp mm" and "0 \<le> k_dim ks" and "k_dim ks < 2 ^ 32"
    and "nodeAt (nodes w) (joinPath (kb_dir rmp) evalKeyJSONFile) = None"
    and "nodeAt (nodes w) (joinPath (kb_dir mm) evalKeyJSONFile) = None"
  shows "\<exists>w2. VerifyKeys E k w1 = (Inr (), w2)"
proof -
  have bundles: "k_rmp ks = Some rmp" "k_mm ks = Some mm" using assms(7) by (simp_all add: namedBundles_def)
  obtain a b frames where r:
    "nodeAt (nodes w) (joinPath (kb_dir rmp) evalKeyBinFile) = Some (File a)"
    "nodeAt (nodes w) (joinPath (kb_dir mm) evalKeyBinFile) = Some (File b)"
    "sent w1 = sent w @ RpcRegisterOpen # map RpcRegisterSend frames @ [RpcRegisterClose]"
    "receive None frames = Some
      [((keyHeaderFor ks rmp KEY_KIND_RMP_EVAL)\<lparr>kh_total_len := int (length a) mod 2 ^ 64\<rparr>, a),
       ((keyHeaderFor ks mm KEY_KIND_MM_EVAL)\<lparr>kh_total_len := int (length b) mod 2 ^ 64\<rparr>, b)]"
    "cl w1 = (cl w)\<lparr>cl_keys := k\<rparr>" "nodes w1 = nodes w" "k_objs w1 = k_objs w" "cl_conn (cl w)"
    "\<exists>t. sv_register_close E (sent w @ RpcRegisterOpen # map RpcRegisterSend frames) t () = Inr ()"
    using RegisterKeys_Inr[OF assms(1,6) bundles assms(10,11)] by blast
  have resp: "gi_registered_keys resp = map metaOf
      [((keyHeaderFor ks rmp KEY_KIND_RMP_EVAL)\<lparr>kh_total_len := int (length a) mod 2 ^ 64\<rparr>, a),
       ((keyHeaderFor ks mm KEY_KIND_MM_EVAL)\<lparr>kh_total_len := int (length b) mod 2 ^ 64\<rparr>, b)]"
    using assms(3,4,5) r(3,4,9) unfolding servesRegistered_def by metis
  have keys: "keysAt w1 k = Some ks" "cl_conn (cl w1)"
    using assms(6) r(5,8) unfolding keysAt_def r(7) by simp_all
  let ?w2 = "w1\<lparr>tick := Suc (tick w1), sent := sent w1 @ [RpcGetInfo]\<rparr>"
  have "list_all2 (\<lambda>b data. rawStored b ?w2 data) [rmp, mm] [a, b]"
    using r(1,2,6) assms(10,11) by (simp add: rawStored_def)
  then obtain w3 where w3: "localKeys E ks [rmp, mm] (\<lambda>_. None) ?w2 =
      (Inr (foldl (addLocal ks) (\<lambda>_. None) (zip [rmp, mm] [a, b])), w3)"
    using localKeys_reliable[OF assms(2)] by blast
  have dim: "uint (of_int (k_dim ks) :: 32 word) = k_dim ks"
    using assms(8,9) by (simp add: uint_word_of_int_eq take_bit_int_eq_self)
  have "checkRegistered (foldl (addLocal ks) (\<lambda>_. None) (zip [rmp, mm] [a, b])) (map registeredKey (gi_registered_keys resp)) = Inr ()"
    unfolding checkRegistered_local[OF assms(7)] resp
    by (simp add: heldLocally_def metaOf_def keyHeaderFor_def dim)
  then show ?thesis
    by (simp only: VerifyKeys_run[OF keys(2,1) assms(7)] Let_def assms(5) sum.case w3 prod.case) (simp add: resp)
qed

lemma VerifyKeys_partial:
  fixes w :: "'w client_world_scheme"
  assumes "reliable E" and "cl_conn (cl w)" and "keysAt w k = Some ks" and "namedBundles ks rmp mm"
    and "rawStored rmp w a" and "rawStored mm w b"
    and "sv_info E (sent w) (tick w) () = Inr resp"
    and "gi_registered_keys resp = [rk]" and "km_kind rk = KEY_KIND_RMP_EVAL" and "heldLocally ks rmp a rk"
    and "km_fingerprint rk = []"
  shows "\<exists>w'. VerifyKeys E k w = (Inr (), w')"
proof -
  let ?w1 = "w\<lparr>tick := Suc (tick w), sent := sent w @ [RpcGetInfo]\<rparr>"
  have "list_all2 (\<lambda>b data. rawStored b ?w1 data) [rmp, mm] [a, b]"
    using assms(5,6) by (simp add: rawStored_def)
  then obtain w3 where w3: "localKeys E ks [rmp, mm] (\<lambda>_. None) ?w1 =
      (Inr (foldl (addLocal ks) (\<lambda>_. None) (zip [rmp, mm] [a, b])), w3)"
    using localKeys_reliable[OF assms(1)] by blast
  have "checkRegistered (foldl (addLocal ks) (\<lambda>_. None) (zip [rmp, mm] [a, b])) (map registeredKey [rk]) = Inr ()"
    unfolding checkRegistered_local[OF assms(4)] using assms(9,10) by simp
  then show ?thesis
    by (simp only: VerifyKeys_run[OF assms(2-4)] Let_def assms(7,8) sum.case w3 prod.case) simp
qed

text \<open>
  \<open>VerifyKeys\<close> does not notice a missing key or a missing fingerprint: on a machine where
  no file operation fails it returns nil for a server that reports the RMP key alone, under
  the right identity and without a fingerprint, although its comment promises a full match
  that includes the digest of each eval key.
\<close>

theorem verify_accepts_partial:
  fixes w :: "'w client_world_scheme"
  assumes "reliable E" and "cl_conn (cl w)" and "keysAt w k = Some ks" and "namedBundles ks rmp mm"
    and "rawStored rmp w a" and "rawStored mm w b"
    and "sv_info E (sent w) (tick w) () = Inr resp"
    and "gi_registered_keys resp = [rk]" and "km_kind rk = KEY_KIND_RMP_EVAL" and "heldLocally ks rmp a rk"
    and "km_fingerprint rk = []"
  shows "\<exists>w'. VerifyKeys E k w = (Inr (), w')"
  using VerifyKeys_partial[OF assms] .

section \<open>A concrete registration\<close>

lemma streamLoop_total:
  assumes "reliable E" and "\<forall>hist t f. sv_register_send E hist t f = Inr ()"
  shows "n = File b \<Longrightarrow> \<exists>h' w'. streamLoop E n off h w = (Inr h', w')"
  using assms
proof (induction E n off h w rule: streamLoop.induct)
  case (1 E n off h w)
  obtain r w1 where r: "osRead E n off registerKeyChunkSize w = (r, w1)" by (metis surj_pair)
  show ?case
  proof (cases r)
    case (Inl e)
    then have "e = EOF" using osRead_reliable[OF 1(3)] r 1(2) by blast
    then show ?thesis using r Inl by (simp add: streamLoop.simps[of E n off h w])
  next
    case (Inr k)
    obtain w2 where s: "invoke (sv_register_send E) RpcRegisterSend (Data (take k (drop off (contents n)))) w1 = (Inr (), w2)"
      using 1(4) by (simp add: invoke_run)
    show ?thesis
      using r Inr s 1(1)[OF r[symmetric] Inr refl s[symmetric] refl 1(2-4)]
      by (simp add: streamLoop.simps[of E n off h w] Let_def)
  qed
qed

lemma streamEvalKey_total:
  fixes w :: "'w client_world_scheme"
  assumes "reliable E" and "\<forall>hist t f. sv_register_send E hist t f = Inr ()"
    and "nodeAt (nodes w) (joinPath dir evalKeyJSONFile) = None"
    and "nodeAt (nodes w) (joinPath dir evalKeyBinFile) = Some (File data)"
  shows "\<exists>w'. streamEvalKey E hdr dir w = (Inr (), w') \<and> nodes w' = nodes w"
proof -
  have "\<exists>r w1. openEvalKeyReader E dir w = (Inr r, w1) \<and> er_node r = File data"
    using assms(1,3,4)
    by (simp add: openEvalKeyReader_def resolveKeySlot_def osStat_reliable andThen_def attempt_def run_simps
        osOpen_def onFailure_def statOpen_def syscall_def reliable_def Let_def)
  then obtain r w1 where opened: "openEvalKeyReader E dir w = (Inr r, w1)" "er_node r = File data" by blast
  define w2 where "w2 = w1\<lparr>tick := Suc (tick w1), sent := sent w1 @
      [RpcRegisterSend (Header (hdr\<lparr>kh_total_len := er_size r mod 2 ^ 64\<rparr>))]\<rparr>"
  obtain h w3 where loop: "streamLoop E (er_node r) 0 digestNew w2 = (Inr h, w3)"
    using streamLoop_total[OF assms(1,2) opened(2)] by blast
  have header: "sendFrame E (Header (hdr\<lparr>kh_total_len := er_size r mod 2 ^ 64\<rparr>)) w1 = (Inr (), w2)"
    by (simp add: sendFrame_def invoke_run assms(2) w2_def)
  have "\<exists>w'. streamEvalKey E hdr dir w = (Inr (), w')"
    unfolding streamEvalKey_def andThen_def deferring_def opened(1) prod.case sum.case header loop
    by (simp add: sendFrame_def invoke_run assms(2))
  then show ?thesis using streamEvalKey_Inr[OF _ assms(3)] by blast
qed

lemma RegisterKeys_total:
  fixes w :: "'w client_world_scheme"
  assumes "reliable E" and "\<forall>hist t f. sv_register_send E hist t f = Inr ()"
    and "\<forall>hist t. sv_register_open E hist t () = Inr ()" and "\<forall>hist t. sv_register_close E hist t () = Inr ()"
    and "cl_conn (cl w)" and "keysAt w k = Some ks" and "k_rmp ks = Some rmp" and "k_mm ks = Some mm"
    and "rawStored rmp w a" and "rawStored mm w b"
  shows "\<exists>w'. RegisterKeys E k w = (Inr (), w')"
proof -
  define w1 where "w1 = w\<lparr>tick := Suc (tick w), sent := sent w @ [RpcRegisterOpen]\<rparr>"
  obtain w2 where w2: "streamEvalKey E (keyHeaderFor ks rmp KEY_KIND_RMP_EVAL) (kb_dir rmp) w1 = (Inr (), w2)" "nodes w2 = nodes w"
    using streamEvalKey_total[OF assms(1,2), of w1 "kb_dir rmp" a] assms(9) by (auto simp: rawStored_def w1_def)
  obtain w3 where w3: "streamEvalKey E (keyHeaderFor ks mm KEY_KIND_MM_EVAL) (kb_dir mm) w2 = (Inr (), w3)"
    using streamEvalKey_total[OF assms(1,2), of w2 "kb_dir mm" b] assms(10) w2(2) by (auto simp: rawStored_def)
  show ?thesis
    using RegisterKeys_run[OF _ assms(6-8), of E] assms(3-5)
    by (simp add: connOK_def andThen_def invoke_run w1_def[symmetric] w2(1) w3 UseKeys_def setClient_def modify_run)
qed

fun isSend :: "rpc \<Rightarrow> bool" where
  "isSend (RpcRegisterSend f) = True"
| "isSend _ = False"

fun frameOf :: "rpc \<Rightarrow> RegisterKeysStreamRequest" where
  "frameOf (RpcRegisterSend f) = f"
| "frameOf _ = Data []"

definition lastFrames :: "rpc list \<Rightarrow> RegisterKeysStreamRequest list" where
  "lastFrames hist = map frameOf (rev (takeWhile isSend (tl (rev hist))))"

definition echoServer :: client_env where
  "echoServer = sampleServer\<lparr>sv_info := (\<lambda>hist t q. Inr \<lparr>gi_version = ''1'', gi_commit = [], gi_build_date = [],
     gi_engine_status = ''ok'', gi_engine_probe_dim = 2, gi_ready = True,
     gi_registered_keys = (case receive None (lastFrames hist) of None \<Rightarrow> [] | Some ks \<Rightarrow> map metaOf ks),
     gi_stats = None\<rparr>)\<rparr>"

lemma lastFrames_sent: "lastFrames (hist @ RpcRegisterOpen # map RpcRegisterSend fs @ [RpcRegisterClose]) = fs"
proof -
  have "takeWhile isSend (map RpcRegisterSend gs @ RpcRegisterOpen # rest) = map RpcRegisterSend gs" for gs rest
    by (induction gs) simp_all
  from this[of "rev fs" "rev hist"] show ?thesis by (simp add: lastFrames_def rev_map comp_def)
qed

lemma echoServer_facts:
  "reliable echoServer" "servesRegistered echoServer" "\<forall>hist t f. sv_register_send echoServer hist t f = Inr ()"
  "\<forall>hist t. sv_register_open echoServer hist t () = Inr ()" "\<forall>hist t. sv_register_close echoServer hist t () = Inr ()"
proof -
  show "servesRegistered echoServer"
    unfolding servesRegistered_def
    by (intro allI impI) (auto simp: echoServer_def lastFrames_sent[unfolded append_Cons append.simps])
qed (simp_all add: echoServer_def sampleServer_def reliable_def)

definition diskWorld :: client_world where
  "diskWorld = sampleClientWorld\<lparr>nodes := [((True, [''k'', ''rmp'', ''EvalKey.bin'']), File [1, 2, 3]),
     ((True, [''k'', ''mm'', ''EvalKey.bin'']), File [4])]\<rparr>"

lemma diskWorld_facts:
  "cl_conn (cl diskWorld)" "keysAt diskWorld (Some 0) = Some sampleKeys"
  "namedBundles sampleKeys (sampleBundle rmpKind 0) (sampleBundle mmKind 4)"
  "rawStored (sampleBundle rmpKind 0) diskWorld [1, 2, 3]" "rawStored (sampleBundle mmKind 4) diskWorld [4]"
  "k_rmp sampleKeys = Some (sampleBundle rmpKind 0)" "k_mm sampleKeys = Some (sampleBundle mmKind 4)"
  by (simp_all add: diskWorld_def sampleClientWorld_def keysAt_def sampleKeys_def namedBundles_def sampleBundle_def
      rmpKind_def mmKind_def rawStored_def nodeAt_def evalKeyJSONFile_def evalKeyBinFile_def)

lemma disk_registered: "\<exists>w'. RegisterKeys echoServer (Some 0) diskWorld = (Inr (), w')"
  using RegisterKeys_total[OF echoServer_facts(1,3-5) diskWorld_facts(1,2,6,7,4,5)] .

theorem registration_roundtrip_witness:
  "\<exists>w' frames. RegisterKeys echoServer (Some 0) diskWorld = (Inr (), w') \<and>
    sent w' = RpcRegisterOpen # map RpcRegisterSend frames @ [RpcRegisterClose] \<and>
    map_option (map snd) (receive None frames) = Some [[1, 2, 3], [4]]"
proof -
  obtain w' where run: "RegisterKeys echoServer (Some 0) diskWorld = (Inr (), w')" using disk_registered by blast
  have raw: "nodeAt (nodes diskWorld) (joinPath (kb_dir (sampleBundle rmpKind 0)) evalKeyBinFile) = Some (File [1, 2, 3])"
    "nodeAt (nodes diskWorld) (joinPath (kb_dir (sampleBundle mmKind 4)) evalKeyBinFile) = Some (File [4])"
    "nodeAt (nodes diskWorld) (joinPath (kb_dir (sampleBundle rmpKind 0)) evalKeyJSONFile) = None"
    "nodeAt (nodes diskWorld) (joinPath (kb_dir (sampleBundle mmKind 4)) evalKeyJSONFile) = None"
    using diskWorld_facts(4,5) by (simp_all add: rawStored_def)
  have "sent diskWorld = []" by (simp add: diskWorld_def sampleClientWorld_def)
  with registration_roundtrip[OF run diskWorld_facts(2,6,7) raw(3,4)] raw(1,2) run show ?thesis by fastforce
qed

theorem register_then_verify_witness:
  "\<exists>w1 w2. RegisterKeys echoServer (Some 0) diskWorld = (Inr (), w1) \<and> VerifyKeys echoServer (Some 0) w1 = (Inr (), w2)"
proof -
  obtain w1 where run: "RegisterKeys echoServer (Some 0) diskWorld = (Inr (), w1)" using disk_registered by blast
  have raw: "nodeAt (nodes diskWorld) (joinPath (kb_dir (sampleBundle rmpKind 0)) evalKeyJSONFile) = None"
    "nodeAt (nodes diskWorld) (joinPath (kb_dir (sampleBundle mmKind 4)) evalKeyJSONFile) = None"
    using diskWorld_facts(4,5) by (simp_all add: rawStored_def)
  have "0 \<le> k_dim sampleKeys" "k_dim sampleKeys < 2 ^ 32" by (simp_all add: sampleKeys_def)
  moreover have "RpcRegisterClose \<notin> set (sent diskWorld)" by (simp add: diskWorld_def sampleClientWorld_def)
  moreover obtain resp where "sv_info echoServer (sent w1) (tick w1) () = Inr resp" by (simp add: echoServer_def)
  ultimately show ?thesis
    using register_then_verify[OF run echoServer_facts(1,2) _ _ diskWorld_facts(2,3) _ _ raw] run by blast
qed

text \<open>A server that reports the RMP key only, and no fingerprint.\<close>

definition partialMeta :: KeyMeta where
  "partialMeta = \<lparr>km_kind = KEY_KIND_RMP_EVAL, km_kid = ''id'', km_preset = ''ip0'', km_dim = 2,
     km_eval_mode = ''rmp'', km_fingerprint = []\<rparr>"

definition partialInfo :: GetInfoResponse where
  "partialInfo = \<lparr>gi_version = ''1'', gi_commit = [], gi_build_date = [], gi_engine_status = ''ok'',
     gi_engine_probe_dim = 2, gi_ready = True, gi_registered_keys = [partialMeta], gi_stats = None\<rparr>"

definition partialServer :: client_env where
  "partialServer = sampleServer\<lparr>sv_info := (\<lambda>hist t q. Inr partialInfo)\<rparr>"

lemma partialServer_facts:
  "reliable partialServer" "sv_info partialServer hist t () = Inr partialInfo"
  "gi_registered_keys partialInfo = [partialMeta]" "km_kind partialMeta = KEY_KIND_RMP_EVAL"
  "heldLocally sampleKeys (sampleBundle rmpKind 0) [1, 2, 3] partialMeta" "km_fingerprint partialMeta = []"
  by (simp_all add: partialServer_def sampleServer_def reliable_def partialInfo_def partialMeta_def heldLocally_def
      sampleKeys_def sampleBundle_def rmpKind_def)

theorem verify_accepts_partial_witness: "\<exists>w'. VerifyKeys partialServer (Some 0) diskWorld = (Inr (), w')"
  by (rule verify_accepts_partial[OF partialServer_facts(1) diskWorld_facts(1-5) partialServer_facts(2-6)])

lemma partial_verified: "\<exists>w'. VerifyKeys partialServer (Some 0) diskWorld = (Inr (), w')"
  by (rule VerifyKeys_partial[OF partialServer_facts(1) diskWorld_facts(1-5) partialServer_facts(2-6)])

theorem verify_sound_witness:
  "\<exists>w'. VerifyKeys partialServer (Some 0) diskWorld = (Inr (), w') \<and>
    (\<exists>a. heldLocally sampleKeys (sampleBundle rmpKind 0) a partialMeta)"
proof -
  obtain w' where run: "VerifyKeys partialServer (Some 0) diskWorld = (Inr (), w')" using partial_verified by blast
  have raw: "nodeAt (nodes diskWorld) (joinPath (kb_dir (sampleBundle rmpKind 0)) evalKeyJSONFile) = None"
    "nodeAt (nodes diskWorld) (joinPath (kb_dir (sampleBundle mmKind 4)) evalKeyJSONFile) = None"
    using diskWorld_facts(4,5) by (simp_all add: rawStored_def)
  have "KEY_KIND_RMP_EVAL \<noteq> KEY_KIND_MM_EVAL" by (simp add: key_kind_enum_defs)
  with verify_sound[OF run diskWorld_facts(2,3) raw] run show ?thesis
    using partialServer_facts(2-4) by auto
qed

end
