(* ===== verification/Client_Frames.thy ===== *)
theory Client_Frames
  imports Search_Path Insert_Path Key_Registration
begin

text \<open>
  Frame properties of the client's operations. \<open>client_relation\<close> is the interface: a step
  relation that the primitive steps keep (a call to the server, a clock tick, filling the
  cache, binding a key set, using a key set, reading a key file). Every operation then keeps
  it; the relation is instantiated with what goes over the wire, the connection, the cache
  and the C objects.
\<close>

section \<open>The interface\<close>

context step_relation
begin

lemma keeps_andThen_when:
  "keeps R m \<Longrightarrow> returns m Q \<Longrightarrow> (\<And>x. Q x \<Longrightarrow> keeps R (f x)) \<Longrightarrow> keeps R (andThen m f)"
proof (rule keepsI)
  fix s
  assume m: "keeps R m" "returns m Q" "\<And>x. Q x \<Longrightarrow> keeps R (f x)"
  obtain r s' where s': "m s = (r, s')" by fastforce
  then have "R s s'" "\<forall>x. r = Inr x \<longrightarrow> R s' (snd (f x s'))"
    using m keepsD[OF m(1) s'] unfolding returns_def keeps_def by blast+
  then show "R s (snd (andThen m f s))" by (cases r) (auto simp: andThen_def s' intro: R_trans)
qed

end

locale client_relation = step_relation R
  for R :: "'w client_world_scheme \<Rightarrow> 'w client_world_scheme \<Rightarrow> bool" +
  fixes E :: "'e client_env_scheme" and P :: "rpc \<Rightarrow> bool" and Q :: "evalReader \<Rightarrow> bool"
  assumes on_wire: "P m \<Longrightarrow> m \<noteq> RpcGetCentroids \<or> \<not> cl_loaded (cl w) \<Longrightarrow> R w (w\<lparr>tick := Suc (tick w), sent := sent w @ [m]\<rparr>)"
    and on_tick: "R w (w\<lparr>tick := Suc (tick w)\<rparr>)"
    and on_fill: "\<not> cl_loaded (cl w) \<Longrightarrow> R w (w\<lparr>cl := (cl w)\<lparr>cl_centroids := Some cs, cl_loaded := True\<rparr>\<rparr>)"
    and on_bind: "R w (w\<lparr>cl := (cl w)\<lparr>cl_keys := k\<rparr>\<rparr>)"
    and on_encrypt: "keeps R (EncryptFlat E k vec)" "keeps R (EncryptClustered E k vec)"
    and on_decrypt: "keeps R (DecryptResult E k blob)" "keeps R (DecryptClustered E k blob)"
    and on_open: "keeps R (openEvalKeyReader E dir)"
    and opens: "returns (openEvalKeyReader E dir :: (err, 'w client_world_scheme, evalReader) io) Q"
    and on_cleanup: "Q r \<Longrightarrow> R w (readerCleanup E r w)"
begin

lemma keeps_call: "P (mk q) \<Longrightarrow> mk q \<noteq> RpcGetCentroids \<Longrightarrow> keeps R (invoke f mk q)"
  by (rule keepsI) (simp add: invoke_run on_wire)

lemma keeps_guarded: "keeps R m \<Longrightarrow> keeps R (whenOpen m)"
  unfolding whenOpen_def by (intro keeps_rules)

lemma keeps_keyed: "(\<And>k. keeps R (m k)) \<Longrightarrow> keeps R (withKeys vec m)"
  unfolding withKeys_def by (auto intro!: keeps_rules split: option.split)

lemma keeps_read: "keeps R (osRead E n off buf)"
proof (rule keepsI)
  fix w :: "'w client_world_scheme"
  have "snd (osRead E n off buf w) = w\<lparr>tick := Suc (tick w)\<rparr>"
    by (simp add: osRead_def syscall_def Let_def split: option.split node.split)
  then show "R w (snd (osRead E n off buf w))" by (simp add: on_tick)
qed

lemma keeps_simple:
  "P RpcGetInfo \<Longrightarrow> keeps R (Info E)" "P (RpcDelete \<lparr>dr_id = i\<rparr>) \<Longrightarrow> keeps R (Delete E i)"
  "P (RpcUpdateTags \<lparr>ut_id = i, ut_add = add, ut_remove = remove\<rparr>) \<Longrightarrow> keeps R (UpdateTags E i add remove)"
  "P (RpcRetagAll \<lparr>ra_from = from, ra_to = to\<rparr>) \<Longrightarrow> keeps R (RetagAll E from to)"
  "P (RpcRemoveTag \<lparr>rt_tag = tag\<rparr>) \<Longrightarrow> keeps R (RemoveTag E tag)"
  unfolding Info_def Delete_def UpdateTags_def RetagAll_def RemoveTag_def
  by (intro keeps_guarded keeps_rules keeps_call; simp)+

lemma keeps_fetch: "P RpcGetCentroids \<Longrightarrow> keeps R (centroidSetCached E)"
proof (rule keepsI)
  fix w
  assume P: "P RpcGetCentroids"
  show "R w (snd (centroidSetCached E w))"
  proof (cases "cl_loaded (cl w)")
    case True
    then show ?thesis by (simp add: centroidSetCached_loaded R_refl)
  next
    case False
    have "R w (w\<lparr>tick := Suc (tick w), sent := sent w @ [RpcGetCentroids]\<rparr>)" using on_wire[OF P] False by blast
    then show ?thesis
      using on_fill[of "w\<lparr>tick := Suc (tick w), sent := sent w @ [RpcGetCentroids]\<rparr>"] False
      by (auto simp: centroidSetCached_fetch Let_def intro: R_trans split: sum.split)
  qed
qed

lemma keeps_Centroids: "P RpcGetCentroids \<Longrightarrow> keeps R (Centroids E)"
  unfolding Centroids_def by (intro keeps_rules keeps_fetch)

lemma keeps_retry: "P (RpcInsert req) \<Longrightarrow> keeps R (insertWithRetry E req)"
proof -
  assume P: "P (RpcInsert req)"
  have waits: "keeps R (backoff E)" by (rule keepsI) (simp add: backoff_def on_tick)
  have "keeps R (insertAttempts E req tried left prev)" for tried left prev
  proof (induction left arbitrary: tried prev)
    case 0
    show ?case unfolding insertAttempts.simps by (intro keeps_rules)
  next
    case (Suc left)
    show ?case unfolding insertAttempts.simps by (intro keeps_rules keeps_call waits P Suc) simp_all
  qed
  then show ?thesis by (simp add: insertWithRetry_def)
qed

lemma keeps_Insert:
  assumes "P RpcGetCentroids" and "\<And>req. P (RpcInsert req)"
  shows "keeps R (Insert E vec metadata opts)"
proof -
  have "keeps R (newUUID E)" by (rule keepsI) (simp add: newUUID_def on_tick)
  then show ?thesis
    unfolding Insert_def Let_def
    by (intro keeps_keyed keeps_rules on_encrypt keeps_fetch keeps_retry assms)
qed

lemma keeps_InsertPreEncrypted: "(\<And>req. P (RpcInsert req)) \<Longrightarrow> keeps R (InsertPreEncrypted E it opts)"
  unfolding InsertPreEncrypted_def by (intro keeps_guarded keeps_rules keeps_retry)

lemma keeps_decryptCells:
  "(\<And>blob. keeps R (decrypt blob)) \<Longrightarrow> keeps R (decryptCells decrypt tier flat cands cells)"
  by (induction cells arbitrary: cands) (simp_all add: keeps_rules)

lemma keeps_collect: "keeps R (collectCands E keys resp)"
  unfolding collectCands_def by (intro keeps_rules keeps_decryptCells on_decrypt)

lemma keeps_resolve:
  assumes "\<And>q. P (RpcGetMetadata q)"
  shows "keeps R (resolveLoop E' scope topK batch cands out seen)"
proof (induction E' scope topK batch cands out seen rule: resolveLoop.induct)
  case (1 E' scope topK batch cands out seen)
  show ?case
    by (subst resolveLoop.simps, unfold resolvePositions_def)
      (auto intro!: keeps_rules keeps_call assms 1[OF _ sym refl] split: prod.split)
qed

lemma keeps_Search:
  assumes "\<And>q. P (RpcSearch q)" and "\<And>q. P (RpcGetMetadata q)"
  shows "keeps R (Search E vec topK opts)"
  unfolding Search_def searchAndResolve_def Let_def
  by (intro keeps_keyed keeps_rules keeps_call keeps_collect keeps_resolve assms) simp_all

lemma keeps_streamEvalKey:
  assumes "\<And>q. P (RpcRegisterSend q)"
  shows "keeps R (streamEvalKey E hdr dir)"
  unfolding streamEvalKey_def sendFrame_def
  by (rule keeps_andThen_when[OF on_open opens], intro keeps_rules on_cleanup keeps_call assms
      streamLoop_related[OF step_relation_axioms] keeps_read) simp_all

lemma keeps_RegisterKeys:
  assumes "P RpcRegisterOpen" and "\<And>q. P (RpcRegisterSend q)" and "P RpcRegisterClose"
  shows "keeps R (RegisterKeys E k)"
proof -
  have "keeps R (UseKeys k)" for k by (rule keepsI) (simp add: UseKeys_def setClient_def run_simps on_bind)
  then show ?thesis
    unfolding RegisterKeys_def
    by (auto intro!: keeps_guarded keeps_rules keeps_call keeps_streamEvalKey assms split: option.split)
qed

lemma keeps_VerifyKeys:
  assumes "P RpcGetInfo"
  shows "keeps R (VerifyKeys E k)"
proof -
  have fp: "keeps R (evalKeyFingerprint E dir)" for dir
    unfolding evalKeyFingerprint_def
    by (rule keeps_andThen_when[OF on_open opens], intro keeps_rules on_cleanup hashLoop_related[OF step_relation_axioms] keeps_read)
  have "keeps R (localKeys E ks bs m)" for ks bs m
    by (induction bs arbitrary: m) (simp_all add: keeps_rules fp)
  then show ?thesis
    unfolding VerifyKeys_def
    by (auto intro!: keeps_guarded keeps_rules keeps_simple assms split: option.split)
qed

end

end
