(* ===== verification/Client_Session.thy ===== *)
theory Client_Session
  imports Client_Frames
begin

text \<open>
  The components together: the calls of the package's interface, in any order and any number,
  on one client and the key sets it opens. \<open>session\<close> runs them one after the other; what a
  step relation says of every call it says of a session.
\<close>

section \<open>Sessions\<close>

datatype api_call =
    GenerateKeysCall "KeysOption list" | OpenKeysCall "KeysOption list" | KeysCloseCall keysRef
  | EncryptFlatCall keysRef "gofloat list" | EncryptClusteredCall keysRef "gofloat list"
  | DecryptResultCall keysRef bytes | DecryptClusteredCall keysRef bytes
  | UseKeysCall keysRef | RegisterKeysCall keysRef | VerifyKeysCall keysRef
  | InfoCall | CentroidsCall | InvalidateCall
  | InsertCall "gofloat list" string "InsertOption list" | InsertPreEncryptedCall PreEncryptedItem "InsertOption list"
  | SearchCall "gofloat list" int "SearchOption list"
  | DeleteCall string | UpdateTagsCall string "string list" "string list" | RetagAllCall string string
  | RemoveTagCall string | CloseCall

definition forget :: "('e, 's, 'a) io \<Rightarrow> ('e, 's, unit) io" where
  "forget m = andThen m (\<lambda>_. ret ())"

fun perform :: "'e client_env_scheme \<Rightarrow> api_call \<Rightarrow> (err, 'w client_world_scheme, unit) io" where
  "perform E (GenerateKeysCall opts) = GenerateKeys E opts"
| "perform E (OpenKeysCall opts) = forget (OpenKeys E opts)"
| "perform E (KeysCloseCall k) = KeysClose k"
| "perform E (EncryptFlatCall k vec) = forget (EncryptFlat E k vec)"
| "perform E (EncryptClusteredCall k vec) = forget (EncryptClustered E k vec)"
| "perform E (DecryptResultCall k blob) = forget (DecryptResult E k blob)"
| "perform E (DecryptClusteredCall k blob) = forget (DecryptClustered E k blob)"
| "perform E (UseKeysCall k) = UseKeys k"
| "perform E (RegisterKeysCall k) = RegisterKeys E k"
| "perform E (VerifyKeysCall k) = VerifyKeys E k"
| "perform E InfoCall = forget (Info E)"
| "perform E CentroidsCall = forget (Centroids E)"
| "perform E InvalidateCall = InvalidateCentroidCache"
| "perform E (InsertCall vec metadata opts) = forget (Insert E vec metadata opts)"
| "perform E (InsertPreEncryptedCall it opts) = InsertPreEncrypted E it opts"
| "perform E (SearchCall vec topK opts) = forget (Search E vec topK opts)"
| "perform E (DeleteCall i) = Delete E i"
| "perform E (UpdateTagsCall i add remove) = UpdateTags E i add remove"
| "perform E (RetagAllCall from to) = forget (RetagAll E from to)"
| "perform E (RemoveTagCall tag) = forget (RemoveTag E tag)"
| "perform E CloseCall = ClientClose E"

fun session :: "'e client_env_scheme \<Rightarrow> api_call list \<Rightarrow> 'w client_world_scheme \<Rightarrow>
    (err + unit) list \<times> 'w client_world_scheme" where
  "session E [] w = ([], w)"
| "session E (c # cs) w =
     (case perform E c w of (r, w1) \<Rightarrow> (case session E cs w1 of (rs, w2) \<Rightarrow> (r # rs, w2)))"

lemma session_snd:
  "snd (session E [] w) = w" "snd (session E (c # cs) w) = snd (session E cs (snd (perform E c w)))"
  by (auto split: prod.split)

lemma session_append: "snd (session E (cs @ ds) w) = snd (session E ds (snd (session E cs w)))"
  by (induction cs arbitrary: w) (simp_all add: session_snd del: session.simps)

lemma length_session: "length (fst (session E cs w)) = length cs"
  proof (induction cs arbitrary: w)
  case (Cons c cs)
  obtain r w1 where 1: "perform E c w = (r, w1)" by fastforce
  show ?case using Cons[of w1] by (simp add: 1 split: prod.split) (metis fst_conv)
qed simp

context step_relation
begin

lemma keeps_forget: "keeps R m \<Longrightarrow> keeps R (forget m)"
  unfolding forget_def by (intro keeps_rules)

end

lemma session_related:
  fixes R :: "'w client_world_scheme \<Rightarrow> 'w client_world_scheme \<Rightarrow> bool"
  assumes "step_relation R" and "\<And>c. c \<in> set cs \<Longrightarrow> keeps R (perform E c)"
  shows "R w (snd (session E cs w))"
  using assms(2)
proof (induction cs arbitrary: w)
  case Nil
  show ?case using assms(1) by (simp add: step_relation_def)
next
  case (Cons c cs)
  have "R w (snd (perform E c w))" using Cons.prems[of c] by (simp add: keeps_def)
  moreover have "R (snd (perform E c w)) (snd (session E cs (snd (perform E c w))))"
    using Cons.IH Cons.prems by simp
  ultimately show ?case using assms(1) unfolding session_snd step_relation_def by blast
qed

section \<open>What a call may put on the wire\<close>

fun mayCall :: "api_call \<Rightarrow> rpc \<Rightarrow> bool" where
  "mayCall (RegisterKeysCall k) m \<longleftrightarrow> m = RpcRegisterOpen \<or> (\<exists>q. m = RpcRegisterSend q) \<or> m = RpcRegisterClose"
| "mayCall (VerifyKeysCall k) m \<longleftrightarrow> m = RpcGetInfo"
| "mayCall InfoCall m \<longleftrightarrow> m = RpcGetInfo"
| "mayCall CentroidsCall m \<longleftrightarrow> m = RpcGetCentroids"
| "mayCall (InsertCall vec metadata opts) m \<longleftrightarrow> m = RpcGetCentroids \<or> (\<exists>q. m = RpcInsert q)"
| "mayCall (InsertPreEncryptedCall it opts) m \<longleftrightarrow> (\<exists>q. m = RpcInsert q)"
| "mayCall (SearchCall vec topK opts) m \<longleftrightarrow> (\<exists>q. m = RpcSearch q) \<or> (\<exists>q. m = RpcGetMetadata q)"
| "mayCall (DeleteCall i) m \<longleftrightarrow> m = RpcDelete \<lparr>dr_id = i\<rparr>"
| "mayCall (UpdateTagsCall i add remove) m \<longleftrightarrow> m = RpcUpdateTags \<lparr>ut_id = i, ut_add = add, ut_remove = remove\<rparr>"
| "mayCall (RetagAllCall from to) m \<longleftrightarrow> m = RpcRetagAll \<lparr>ra_from = from, ra_to = to\<rparr>"
| "mayCall (RemoveTagCall tag) m \<longleftrightarrow> m = RpcRemoveTag \<lparr>rt_tag = tag\<rparr>"
| "mayCall _ m \<longleftrightarrow> False"

text \<open>The calls that change nothing but through the primitive steps.\<close>

fun framed :: "api_call \<Rightarrow> bool" where
  "framed (GenerateKeysCall opts) = False"
| "framed (OpenKeysCall opts) = False"
| "framed (KeysCloseCall k) = False"
| "framed InvalidateCall = False"
| "framed CloseCall = False"
| "framed _ = True"

context client_relation
begin

lemma keeps_framed:
  assumes "framed c" and "\<And>m. mayCall c m \<Longrightarrow> P m"
  shows "keeps R (perform E c)"
proof -
  have bind: "keeps R (UseKeys k)" for k by (rule keepsI) (simp add: UseKeys_def setClient_def run_simps on_bind)
  show ?thesis
    using assms
    by (cases c; simp)
      (intro keeps_forget on_encrypt on_decrypt bind keeps_RegisterKeys keeps_VerifyKeys keeps_simple keeps_Centroids
        keeps_Insert keeps_InsertPreEncrypted keeps_Search; blast)+
qed

end

end
