(* ===== verification/Client_Options.thy ===== *)
theory Client_Options
  imports Client_Core
begin

text \<open>
  \<open>clientoptions.go\<close>, \<open>Dial\<close> and the bearer-token interceptors of \<open>client.go\<close>. gRPC itself
  is not part of the repository: \<open>Dial\<close> hands it a configuration, and how it chains
  interceptors is a parameter with the documented law as a hypothesis.
\<close>

section \<open>Interceptors\<close>

text \<open>
  A call as an interceptor sees it: the method and the outgoing metadata of the context, in
  order. An interceptor wraps the rest of the call.
\<close>

record call =
  ca_method :: string
  ca_metadata :: "(string \<times> string) list"

type_synonym 'r interceptor = "(call \<Rightarrow> 'r) \<Rightarrow> call \<Rightarrow> 'r"

definition appendToOutgoing :: "string \<Rightarrow> string \<Rightarrow> call \<Rightarrow> call" where
  "appendToOutgoing k v c = c\<lparr>ca_metadata := ca_metadata c @ [(k, v)]\<rparr>"

definition bearerTokenInterceptor :: "string \<Rightarrow> 'r interceptor" where
  "bearerTokenInterceptor token invoker c =
     invoker (appendToOutgoing ''authorization'' (''Bearer '' @ token) c)"

definition bearerTokenStreamInterceptor :: "string \<Rightarrow> 's interceptor" where
  "bearerTokenStreamInterceptor token streamer c =
     streamer (appendToOutgoing ''authorization'' (''Bearer '' @ token) c)"

section \<open>Options\<close>

text \<open>Durations are nanoseconds.\<close>

record ('r, 's) clientOptions =
  co_access_token :: string
  co_keepalive_time :: int
  co_keepalive_timeout :: int
  co_max_msg_size :: int
  co_insecure :: bool
  co_unary :: "'r interceptor list"
  co_stream :: "'s interceptor list"

definition defaultKeepaliveTime :: int where "defaultKeepaliveTime = 30 * 1000000000"
definition defaultKeepaliveTimeout :: int where "defaultKeepaliveTimeout = 10 * 1000000000"
definition defaultMaxMsgSize :: int where "defaultMaxMsgSize = 100 * 1024 * 1024"

definition defaultClientOptions :: "('r, 's) clientOptions" where
  "defaultClientOptions = \<lparr>co_access_token = [], co_keepalive_time = defaultKeepaliveTime,
     co_keepalive_timeout = defaultKeepaliveTimeout, co_max_msg_size = defaultMaxMsgSize, co_insecure = False,
     co_unary = [], co_stream = []\<rparr>"

type_synonym ('r, 's) ClientOption = "('r, 's) clientOptions \<Rightarrow> ('r, 's) clientOptions"

definition WithAccessToken :: "string \<Rightarrow> ('r, 's) ClientOption" where
  "WithAccessToken token o' = o'\<lparr>co_access_token := token\<rparr>"

definition WithKeepaliveTime :: "int \<Rightarrow> ('r, 's) ClientOption" where
  "WithKeepaliveTime d o' = o'\<lparr>co_keepalive_time := d\<rparr>"

definition WithKeepaliveTimeout :: "int \<Rightarrow> ('r, 's) ClientOption" where
  "WithKeepaliveTimeout d o' = o'\<lparr>co_keepalive_timeout := d\<rparr>"

definition WithMaxMsgSize :: "int \<Rightarrow> ('r, 's) ClientOption" where
  "WithMaxMsgSize n o' = o'\<lparr>co_max_msg_size := n\<rparr>"

definition WithInsecure :: "('r, 's) ClientOption" where
  "WithInsecure o' = o'\<lparr>co_insecure := True\<rparr>"

definition WithUnaryInterceptor :: "'r interceptor \<Rightarrow> ('r, 's) ClientOption" where
  "WithUnaryInterceptor i o' = o'\<lparr>co_unary := co_unary o' @ [i]\<rparr>"

definition WithStreamInterceptor :: "'s interceptor \<Rightarrow> ('r, 's) ClientOption" where
  "WithStreamInterceptor i o' = o'\<lparr>co_stream := co_stream o' @ [i]\<rparr>"

fun applyClientOptions :: "('r, 's) ClientOption list \<Rightarrow> ('r, 's) clientOptions \<Rightarrow> ('r, 's) clientOptions" where
  "applyClientOptions [] o' = o'"
| "applyClientOptions (opt # opts) o' = applyClientOptions opts (opt o')"

lemmas client_option_defs = WithAccessToken_def WithKeepaliveTime_def WithKeepaliveTimeout_def
  WithMaxMsgSize_def WithInsecure_def WithUnaryInterceptor_def WithStreamInterceptor_def

section \<open>Dial\<close>

text \<open>\<open>TLS pool\<close>: the given root pool, TLS 1.2 at least.\<close>

datatype 'p transport = Plaintext | TLS 'p

record ('p, 'r, 's) dialOptions =
  do_creds :: "'p transport"
  do_max_recv :: int
  do_max_send :: int
  do_keepalive_time :: int
  do_keepalive_timeout :: int
  do_chain_unary :: "'r interceptor list option"
  do_chain_stream :: "'s interceptor list option"

record ('p, 'r, 's) dial_env =
  system_pool :: "err + 'p"
  new_client :: "string \<Rightarrow> ('p, 'r, 's) dialOptions \<Rightarrow> err option"

definition freshClient :: Client where
  "freshClient = \<lparr>cl_conn = True, cl_keys = None, cl_centroids = None, cl_loaded = False\<rparr>"

definition chainOption :: "'i list \<Rightarrow> 'i list option" where
  "chainOption is = (if length is > 0 then Some is else None)"

text \<open>The result is the client together with the configuration its connection was made with.\<close>

definition Dial :: "('p, 'r, 's) dial_env \<Rightarrow> string \<Rightarrow> ('r, 's) ClientOption list \<Rightarrow>
    err + Client \<times> ('p, 'r, 's) dialOptions" where
  "Dial D addr opts =
     (if addr = [] then Inl (Sentinel ErrAddressRequired)
      else (let o' = applyClientOptions opts defaultClientOptions in
        case (if co_insecure o' then Inr Plaintext
              else (case system_pool D of
                  Inl e \<Rightarrow> Inl (wrapf ''runespace: load system cert pool'' e)
                | Inr pool \<Rightarrow> Inr (TLS pool))) of
          Inl e \<Rightarrow> Inl e
        | Inr creds \<Rightarrow>
            (let auth = (if co_access_token o' \<noteq> [] then [bearerTokenInterceptor (co_access_token o')] else []);
                 streamAuth = (if co_access_token o' \<noteq> [] then [bearerTokenStreamInterceptor (co_access_token o')] else []);
                 d = \<lparr>do_creds = creds, do_max_recv = co_max_msg_size o', do_max_send = co_max_msg_size o',
                   do_keepalive_time = co_keepalive_time o', do_keepalive_timeout = co_keepalive_timeout o',
                   do_chain_unary = chainOption (auth @ co_unary o'),
                   do_chain_stream = chainOption (streamAuth @ co_stream o')\<rparr>
             in case new_client D addr d of
                  Some e \<Rightarrow> Inl (wrapf (''runespace: dial '' @ addr) e)
                | None \<Rightarrow> Inr (freshClient, d))))"

section \<open>What the options do\<close>

text \<open>The options the package exports.\<close>

datatype ('r, 's) option_call =
    AccessToken string | KeepaliveTime int | KeepaliveTimeout int | MaxMsgSize int | Insecure
  | UnaryInterceptor "'r interceptor" | StreamInterceptor "'s interceptor"

fun optionOf :: "('r, 's) option_call \<Rightarrow> ('r, 's) ClientOption" where
  "optionOf (AccessToken t) = WithAccessToken t"
| "optionOf (KeepaliveTime d) = WithKeepaliveTime d"
| "optionOf (KeepaliveTimeout d) = WithKeepaliveTimeout d"
| "optionOf (MaxMsgSize n) = WithMaxMsgSize n"
| "optionOf Insecure = WithInsecure"
| "optionOf (UnaryInterceptor i) = WithUnaryInterceptor i"
| "optionOf (StreamInterceptor i) = WithStreamInterceptor i"

fun unaryOf :: "('r, 's) option_call list \<Rightarrow> 'r interceptor list" where
  "unaryOf [] = []"
| "unaryOf (UnaryInterceptor i # cs) = i # unaryOf cs"
| "unaryOf (_ # cs) = unaryOf cs"

fun streamOf :: "('r, 's) option_call list \<Rightarrow> 's interceptor list" where
  "streamOf [] = []"
| "streamOf (StreamInterceptor i # cs) = i # streamOf cs"
| "streamOf (_ # cs) = streamOf cs"

fun tokenOf :: "string \<Rightarrow> ('r, 's) option_call list \<Rightarrow> string" where
  "tokenOf t [] = t"
| "tokenOf t (AccessToken t' # cs) = tokenOf t' cs"
| "tokenOf t (_ # cs) = tokenOf t cs"

lemma options_collected:
  "co_unary (applyClientOptions (map optionOf cs) o') = co_unary o' @ unaryOf cs"
  "co_stream (applyClientOptions (map optionOf cs) o') = co_stream o' @ streamOf cs"
  "co_access_token (applyClientOptions (map optionOf cs) o') = tokenOf (co_access_token o') cs"
  "co_insecure (applyClientOptions (map optionOf cs) o') \<longleftrightarrow> co_insecure o' \<or> Insecure \<in> set cs"
proof (induction cs arbitrary: o')
  case (Cons c cs)
  { case 1 show ?case by (cases c) (simp_all add: Cons client_option_defs) }
  { case 2 show ?case by (cases c) (simp_all add: Cons client_option_defs) }
  { case 3 show ?case by (cases c) (simp_all add: Cons client_option_defs) }
  { case 4 show ?case by (cases c) (simp_all add: Cons client_option_defs) }
qed simp_all

lemma defaults [simp]:
  "co_unary defaultClientOptions = []" "co_stream defaultClientOptions = []"
  "co_access_token defaultClientOptions = []" "\<not> co_insecure defaultClientOptions"
  by (simp_all add: defaultClientOptions_def)

section \<open>What a dialled connection does\<close>

text \<open>The configuration, from the options in the order they were given.\<close>

definition dialled :: "'p transport \<Rightarrow> ('r, 's) option_call list \<Rightarrow> ('p, 'r, 's) dialOptions" where
  "dialled creds cs = (let o' = applyClientOptions (map optionOf cs) defaultClientOptions in
     \<lparr>do_creds = creds, do_max_recv = co_max_msg_size o', do_max_send = co_max_msg_size o',
       do_keepalive_time = co_keepalive_time o', do_keepalive_timeout = co_keepalive_timeout o',
       do_chain_unary = chainOption ((if tokenOf [] cs \<noteq> [] then [bearerTokenInterceptor (tokenOf [] cs)] else []) @ unaryOf cs),
       do_chain_stream = chainOption ((if tokenOf [] cs \<noteq> [] then [bearerTokenStreamInterceptor (tokenOf [] cs)] else []) @ streamOf cs)\<rparr>)"

definition transportOf :: "('p, 'r, 's) dial_env \<Rightarrow> ('r, 's) option_call list \<Rightarrow> err + 'p transport" where
  "transportOf D cs =
     (if Insecure \<in> set cs then Inr Plaintext
      else case system_pool D of Inl e \<Rightarrow> Inl (wrapf ''runespace: load system cert pool'' e) | Inr pool \<Rightarrow> Inr (TLS pool))"

lemma dialled_options:
  "co_insecure (applyClientOptions (map optionOf cs) defaultClientOptions) \<longleftrightarrow> Insecure \<in> set cs"
  "co_access_token (applyClientOptions (map optionOf cs) defaultClientOptions) = tokenOf [] cs"
  "co_unary (applyClientOptions (map optionOf cs) defaultClientOptions) = unaryOf cs"
  "co_stream (applyClientOptions (map optionOf cs) defaultClientOptions) = streamOf cs"
  by (simp_all add: options_collected)

lemma Dial_run:
  "Dial D addr (map optionOf cs) =
     (if addr = [] then Inl (Sentinel ErrAddressRequired)
      else case transportOf D cs of
        Inl e \<Rightarrow> Inl e
      | Inr creds \<Rightarrow> (case new_client D addr (dialled creds cs) of
          Some e \<Rightarrow> Inl (wrapf (''runespace: dial '' @ addr) e)
        | None \<Rightarrow> Inr (freshClient, dialled creds cs)))"
  unfolding Dial_def Let_def transportOf_def dialled_def dialled_options
  by (simp split: sum.split)

lemma Dial_InrD:
  assumes "Dial D addr (map optionOf cs) = Inr (c, d)"
  obtains creds where "addr \<noteq> []" "transportOf D cs = Inr creds" "c = freshClient" "d = dialled creds cs"
    "new_client D addr d = None"
  using assms that by (auto simp: Dial_run split: if_splits sum.splits option.splits)

text \<open>What \<open>Dial\<close> returns depends on the address, the certificate pool and the dialler in that
  order: an empty address is refused before anything else; without \<open>WithInsecure\<close> a
  failing system pool is an error, never a fall-back to plaintext; a refusal of the dialler is
  wrapped with the address. A connection it does return is plaintext exactly when
  \<open>WithInsecure\<close> was among the options, carries the TLS pool of the system otherwise, and
  belongs to a client that is open, has no keys bound and an empty centroid cache.\<close>

theorem dial_transport:
  "case Dial D addr (map optionOf cs) of
     Inl e \<Rightarrow> addr = [] \<and> e = Sentinel ErrAddressRequired
       \<or> addr \<noteq> [] \<and> Insecure \<notin> set cs \<and> (\<exists>e'. system_pool D = Inl e' \<and> e = wrapf ''runespace: load system cert pool'' e')
       \<or> addr \<noteq> [] \<and> (\<exists>d e'. new_client D addr d = Some e' \<and> e = wrapf (''runespace: dial '' @ addr) e')
   | Inr (c, d) \<Rightarrow> addr \<noteq> [] \<and> (do_creds d = Plaintext \<longleftrightarrow> Insecure \<in> set cs)
       \<and> (Insecure \<in> set cs \<or> (\<exists>pool. system_pool D = Inr pool \<and> do_creds d = TLS pool))
       \<and> connOK \<lparr>tick = 0, nodes = [], c_log = [], k_objs = [], cl = c, sent = []\<rparr>
       \<and> cl_keys c = None \<and> cl_centroids c = None \<and> cacheOK c"
  by (auto simp: Dial_run transportOf_def dialled_def Let_def connOK_def freshClient_def cacheOK_def
      split: sum.split option.split)

section \<open>The token on the wire\<close>

text \<open>
  \<open>grpc.WithChainUnaryInterceptor\<close> and its stream counterpart: the first interceptor is the
  outermost, the last wraps the call itself; without the option the call is made directly.
\<close>

definition chains :: "('r interceptor list \<Rightarrow> 'r interceptor) \<Rightarrow> bool" where
  "chains chain \<longleftrightarrow> (\<forall>go. chain [] go = go) \<and> (\<forall>i is go. chain (i # is) go = i (chain is go))"

definition through :: "('r interceptor list \<Rightarrow> 'r interceptor) \<Rightarrow> 'r interceptor list option \<Rightarrow> 'r interceptor" where
  "through chain is go = (case is of None \<Rightarrow> go | Some l \<Rightarrow> chain l go)"

text \<open>An interceptor that calls on with the metadata it got, and possibly more.\<close>

definition keepsMetadata :: "'r interceptor \<Rightarrow> bool" where
  "keepsMetadata i \<longleftrightarrow> (\<forall>go c. \<exists>c'. set (ca_metadata c) \<subseteq> set (ca_metadata c') \<and> i go c = go c')"

lemma through_chainOption:
  "chains chain \<Longrightarrow> through chain (chainOption is) go = chain is go"
  by (simp add: through_def chainOption_def chains_def)

lemma chain_keepsMetadata:
  assumes "chains chain" and "\<forall>i\<in>set is. keepsMetadata i"
  shows "\<exists>c'. set (ca_metadata c) \<subseteq> set (ca_metadata c') \<and> chain is go c = go c'"
  using assms(2)
proof (induction "is" arbitrary: c)
  case Nil
  then show ?case using assms(1) by (auto simp: chains_def)
next
  case (Cons i "is")
  have "keepsMetadata i" using Cons.prems by simp
  then obtain c1 where c1: "set (ca_metadata c) \<subseteq> set (ca_metadata c1)" "i (chain is go) c = chain is go c1"
    unfolding keepsMetadata_def by blast
  obtain c2 where "set (ca_metadata c1) \<subseteq> set (ca_metadata c2)" "chain is go c1 = go c2"
    using Cons.IH[of c1] Cons.prems by auto
  moreover have "chain (i # is) go = i (chain is go)" using assms(1) by (simp add: chains_def)
  ultimately show ?case using c1 by (intro exI[of _ c2]) auto
qed

definition authorized :: "string \<Rightarrow> call \<Rightarrow> call" where
  "authorized token c = (if token = [] then c else appendToOutgoing ''authorization'' (''Bearer '' @ token) c)"

lemma dialled_through:
  assumes "chains chainU" "chains chainS"
  shows "through chainU (do_chain_unary (dialled creds cs)) go c = chainU (unaryOf cs) go (authorized (tokenOf [] cs) c)"
    and "through chainS (do_chain_stream (dialled creds cs)) str c = chainS (streamOf cs) str (authorized (tokenOf [] cs) c)"
  using assms
  by (simp_all add: dialled_def Let_def through_chainOption authorized_def bearerTokenInterceptor_def
      bearerTokenStreamInterceptor_def chains_def)

lemma authorized_metadata:
  "token \<noteq> [] \<Longrightarrow> (''authorization'', ''Bearer '' @ token) \<in> set (ca_metadata (authorized token c))"
  by (simp add: authorized_def appendToOutgoing_def)

text \<open>C22. With the last \<open>WithAccessToken\<close> naming a non-empty token, every call of a dialled
  client, unary or streaming, goes through the caller's interceptors of its kind, in the order they
  were added, with the bearer token already on it; and if those interceptors only add metadata, the
  call that reaches the transport carries the token. (How gRPC chains interceptors is documented
  behaviour, stated by \<open>chains\<close>.)\<close>

theorem token_rides_every_call:
  assumes "Dial D addr (map optionOf cs) = Inr (c, d)"
    and "chains chainU" and "chains chainS" and "tokenOf [] cs \<noteq> []"
  shows "(\<forall>go q. through chainU (do_chain_unary d) go q =
             chainU (unaryOf cs) go (q\<lparr>ca_metadata := ca_metadata q @ [(''authorization'', ''Bearer '' @ tokenOf [] cs)]\<rparr>))
       \<and> (\<forall>str q. through chainS (do_chain_stream d) str q =
             chainS (streamOf cs) str (q\<lparr>ca_metadata := ca_metadata q @ [(''authorization'', ''Bearer '' @ tokenOf [] cs)]\<rparr>))
       \<and> ((\<forall>i\<in>set (unaryOf cs). keepsMetadata i) \<longrightarrow> (\<forall>go q. \<exists>q'.
             (''authorization'', ''Bearer '' @ tokenOf [] cs) \<in> set (ca_metadata q')
             \<and> through chainU (do_chain_unary d) go q = go q'))
       \<and> ((\<forall>i\<in>set (streamOf cs). keepsMetadata i) \<longrightarrow> (\<forall>str q. \<exists>q'.
             (''authorization'', ''Bearer '' @ tokenOf [] cs) \<in> set (ca_metadata q')
             \<and> through chainS (do_chain_stream d) str q = str q'))"
proof -
  obtain creds where d: "d = dialled creds cs" using assms(1) by (rule Dial_InrD)
  have auth: "authorized (tokenOf [] cs) q =
      q\<lparr>ca_metadata := ca_metadata q @ [(''authorization'', ''Bearer '' @ tokenOf [] cs)]\<rparr>" for q
    using assms(4) by (simp add: authorized_def appendToOutgoing_def)
  have carried: "\<exists>q'. (''authorization'', ''Bearer '' @ tokenOf [] cs) \<in> set (ca_metadata q')
      \<and> chain is go (authorized (tokenOf [] cs) q) = go q'"
    if "chains chain" "\<forall>i\<in>set is. keepsMetadata i" for chain :: "'x interceptor list \<Rightarrow> 'x interceptor" and "is" go q
    using chain_keepsMetadata[OF that, of "authorized (tokenOf [] cs) q" go] authorized_metadata[OF assms(4), of q]
    by (meson subsetD)
  show ?thesis
    unfolding d dialled_through[OF assms(2,3)] auth[symmetric]
    by (intro conjI allI impI refl carried[OF assms(2)] carried[OF assms(3)])
qed

text \<open>Two calls of a client with a token and one interceptor of each kind.\<close>

definition sampleDialEnv :: "(unit, call option, nat) dial_env" where
  "sampleDialEnv = \<lparr>system_pool = Inr (), new_client = (\<lambda>addr d. None)\<rparr>"

definition sampleOptions :: "(call option, nat) option_call list" where
  "sampleOptions = [AccessToken ''old'', UnaryInterceptor (\<lambda>go c. go (appendToOutgoing ''trace'' ''1'' c)),
     MaxMsgSize 7, AccessToken ''t'']"

definition foldChain :: "'r interceptor list \<Rightarrow> 'r interceptor" where
  "foldChain is go = foldr (\<lambda>i g. i g) is go"

lemma foldChain_chains: "chains foldChain"
  by (simp add: chains_def foldChain_def)

theorem token_rides_every_call_witness:
  "\<exists>d. Dial sampleDialEnv ''host'' (map optionOf sampleOptions) = Inr (freshClient, d)
     \<and> through foldChain (do_chain_unary d) Some \<lparr>ca_method = ''m'', ca_metadata = []\<rparr> =
         Some \<lparr>ca_method = ''m'', ca_metadata = [(''authorization'', ''Bearer t''), (''trace'', ''1'')]\<rparr>"
proof -
  have tok: "tokenOf [] sampleOptions = ''t''" by (simp add: sampleOptions_def)
  have d: "Dial sampleDialEnv ''host'' (map optionOf sampleOptions) = Inr (freshClient, dialled (TLS ()) sampleOptions)"
    unfolding Dial_run by (simp add: transportOf_def sampleDialEnv_def sampleOptions_def)
  have "through foldChain (do_chain_unary (dialled (TLS ()) sampleOptions)) Some \<lparr>ca_method = ''m'', ca_metadata = []\<rparr> =
      foldChain (unaryOf sampleOptions) Some \<lparr>ca_method = ''m'', ca_metadata = [(''authorization'', ''Bearer t'')]\<rparr>"
    using token_rides_every_call[OF d foldChain_chains foldChain_chains] tok by simp
  then show ?thesis
    using d by (intro exI[of _ "dialled (TLS ()) sampleOptions"])
      (simp add: foldChain_def sampleOptions_def appendToOutgoing_def)
qed

end
