(* ===== verification/Object_Accounting.thy ===== *)
theory Object_Accounting
  imports Client_Session Client_Options
begin

text \<open>
  Which C objects are alive after any sequence of calls: exactly those that the open key sets
  hold. This is the invariant \<open>accounted\<close> of every session.
\<close>

section \<open>C objects\<close>

definition owned :: "'w keys_world_scheme \<Rightarrow> handle set" where
  "owned w = \<Union> (keysHandles ` set (k_objs w))"

definition apart :: "Keys list \<Rightarrow> bool" where
  "apart ks \<longleftrightarrow> (\<forall>i < length ks. \<forall>j < length ks. i \<noteq> j \<longrightarrow> keysHandles (ks ! i) \<inter> keysHandles (ks ! j) = {})"

text \<open>Every live object belongs to exactly one key set, which can free it.\<close>

definition accounted :: "'w keys_world_scheme \<Rightarrow> bool" where
  "accounted w \<longleftrightarrow> holding (owned w) w \<and> apart (k_objs w) \<and> (\<forall>k \<in> set (k_objs w). ownsKeys (owned w) k)"

definition accounts :: "'w keys_world_scheme \<Rightarrow> 'w keys_world_scheme \<Rightarrow> bool" where
  "accounts w w' \<longleftrightarrow> (accounted w \<longrightarrow> accounted w')"

interpretation accounting: step_relation accounts
  by unfold_locales (simp_all add: accounts_def)

text \<open>Calls that leave the key sets alone and return every object they take.\<close>

definition handlesKept :: "'w keys_world_scheme \<Rightarrow> 'w keys_world_scheme \<Rightarrow> bool" where
  "handlesKept w w' \<longleftrightarrow> k_objs w' = k_objs w \<and> (\<forall>live. owned w \<subseteq> live \<longrightarrow> holding live w \<longrightarrow> holding live w')"

interpretation kept: step_relation handlesKept
  by unfold_locales (auto simp: handlesKept_def owned_def)

lemma kept_accounts: "handlesKept w w' \<Longrightarrow> accounts w w'"
  by (auto simp: handlesKept_def accounts_def accounted_def owned_def)

lemma keeps_kept_accounts: "keeps handlesKept m \<Longrightarrow> keeps accounts m"
  using kept_accounts by (auto simp: keeps_def)

lemma kept_balanced:
  fixes m :: "(err, 'w keys_world_scheme, 'a) io"
  assumes "balanced {} m" and "keeps sameRest m"
  shows "keeps handlesKept m"
proof (rule keepsI)
  fix w :: "'w keys_world_scheme"
  have "k_objs (snd (m w)) = k_objs w" using assms(2) rest_objs unfolding keeps_def by blast
  then show "handlesKept w (snd (m w))"
    using balanced_keeps[OF assms(1)] by (auto simp: handlesKept_def)
qed

lemma keysHandles_owned: "keysAt w k = Some ks \<Longrightarrow> keysHandles ks \<subseteq> owned w"
  by (auto simp: keysAt_def owned_def intro: nth_mem split: option.splits if_splits)

lemma kept_using:
  fixes m :: "(err, 'w keys_world_scheme, 'a) io"
  assumes "\<And>w. keysAt w k = None \<Longrightarrow> snd (m w) = w" and "keeps sameRest m"
    and "\<And>w live ks. holding live w \<Longrightarrow> keysAt w k = Some ks \<Longrightarrow> keysHandles ks \<subseteq> live \<Longrightarrow> holding live (snd (m w))"
  shows "keeps handlesKept m"
proof (rule keepsI)
  fix w :: "'w keys_world_scheme"
  show "handlesKept w (snd (m w))"
  proof (cases "keysAt w k")
    case None
    then show ?thesis using assms(1) by (simp add: kept.R_refl)
  next
    case (Some ks)
    moreover have "k_objs (snd (m w)) = k_objs w" using assms(2) rest_objs unfolding keeps_def by blast
    ultimately show ?thesis using assms(3)[OF _ Some] keysHandles_owned[OF Some] by (auto simp: handlesKept_def)
  qed
qed

lemma kept_use:
  "keeps handlesKept (EncryptFlat E k vec)" "keeps handlesKept (EncryptClustered E k vec)"
  "keeps handlesKept (DecryptResult E k blob)" "keeps handlesKept (DecryptClustered E k blob)"
  by (rule kept_using[of k]; (rule rest_keys_use use_keeps_holding; assumption)?;
      simp add: EncryptFlat_def EncryptClustered_def DecryptResult_def DecryptClustered_def run_simps)+

text \<open>Reading a key file.\<close>

lemma kept_os:
  "keeps handlesKept (osStat E p)" "keeps handlesKept (osRemove E p)" "keeps handlesKept (osMkdirAll E p)"
  "keeps handlesKept (osOpen E p)" "keeps handlesKept (osClose E)" "keeps handlesKept (osCreateTemp E)"
  "keeps handlesKept (osReadDir E p)"
  by (intro kept_balanced balanced_os keeps_rest_os)+

lemma kept_quiet:
  assumes "\<And>w. k_objs (snd (m w)) = k_objs w \<and> c_log (snd (m w)) = c_log w \<and> tick w \<le> tick (snd (m w))"
  shows "keeps handlesKept m"
  unfolding keeps_def handlesKept_def
proof (intro allI impI conjI)
  fix w live
  show "k_objs (snd (m w)) = k_objs w" using assms by blast
  assume "holding live w"
  then show "holding live (snd (m w))" using assms[of w] by (force simp: holding_def)
qed

lemma kept_reading:
  "keeps handlesKept (statOpen E n)"
  by (rule kept_quiet) (simp add: statOpen_def syscall_def Let_def split: option.split)

lemma kept_cleanup: "handlesKept w (readerCleanup E r w)"
proof -
  have closed: "handlesKept w (ignoring (osClose E) w)" by (intro kept.ignoring_related kept_os)
  have removed: "handlesKept (ignoring (osClose E) w) (ignoring (osRemove E p) (ignoring (osClose E) w))" for p
    by (intro kept.ignoring_related kept_os)
  show ?thesis
    using closed kept.R_trans[OF closed removed]
    by (cases "er_tmp r") (simp_all add: readerCleanup_def Let_def)
qed

lemma kept_reader: "keeps handlesKept (openEvalKeyReader E dir)"
proof -
  have "keeps handlesKept (UnwrapEvalKey E a b)" for a b
    by (intro kept_balanced rest_unwrap)
      (simp add: UnwrapEvalKey_def unwrapKey_def trade_scoped discipline)
  then show ?thesis
    unfolding openEvalKeyReader_def resolveKeySlot_def
    by (auto intro!: kept.keeps_rules kept_os kept_reading kept.ignoring_related split: option.split prod.split)
qed

section \<open>Every call\<close>

interpretation objects: client_relation handlesKept E "\<lambda>_. True" "\<lambda>_. True" for E
proof (unfold_locales, goal_cases)
  case (1 m w)
  show ?case by (auto simp: handlesKept_def holding_def)
next
  case (2 w)
  show ?case by (auto simp: handlesKept_def holding_def)
next
  case (3 w cs)
  show ?case by (auto simp: handlesKept_def holding_def)
next
  case (4 w k)
  show ?case by (auto simp: handlesKept_def holding_def)
qed (rule kept_use kept_reader kept_cleanup returns_any)+

lemma rest_generating:
  "keeps sameRest (c_save E op hs p)" "keeps sameRest (km_wrap_from_handle E hs keyID dir name)"
  unfolding c_save_def km_wrap_from_handle_def
  by (rule keepsI; simp add: andThen_def c_invoke_def Let_def sameRest_def split: option.split)+

lemma rest_Generate: "keeps sameRest (Generate E p)"
  unfolding Generate_def generateTrio_def isEmptyDir_def
  by (intro rest.keeps_rules rest_scoped keeps_rest_cgo keeps_rest_os rest_generating)

lemma kept_wrap: "keeps handlesKept (WrapEncKey E i a b)"
  unfolding WrapEncKey_def wrapKey_def
  by (intro kept_balanced trade_scoped frame_intros rest_scoped keeps_rest_cgo keeps_rest_convert)

lemma generate_related:
  fixes R :: "'w cgo_world_scheme \<Rightarrow> 'w cgo_world_scheme \<Rightarrow> bool"
  assumes R: "step_relation R" and os: "\<And>p. keeps R (osStat E p)" "\<And>p. keeps R (osRemove E p)" "\<And>p. keeps R (osMkdirAll E p)"
    and keys: "\<And>p. keeps R (Generate E p)" "\<And>i a b. keeps R (WrapEncKey E i a b)"
  shows "keeps R (GenerateKeys E opts)"
proof -
  note rules = step_relation.keeps_rules[OF R] and trans = step_relation.R_trans[OF R]
  have any: "keeps R (anySlot E dir ss)" for dir ss
    by (induction ss) (auto simp: slotPresent_def resolveKeySlot_def intro!: rules os)
  have generates: "keeps R (generateBundle E o' kind b)" for o' kind b
    unfolding generateBundle_unfold Let_def wrapSteps.simps by (intro rules os keys)
  have one: "R w (ignoring (osRemove E p) w)" for w p
    by (intro step_relation.ignoring_related[OF R] os)
  have all: "R w (removeAllOf E ps w)" for w ps
    by (induction ps arbitrary: w) (auto intro: step_relation.R_refl[OF R] trans[OF one])
  have "R w (rollback E a b w)" for w a b
    unfolding rollback_def removeKeyArtifacts_def by (rule trans[OF _ one], rule trans[OF _ all], rule trans[OF _ one], rule all)
  then show ?thesis
    unfolding GenerateKeys_def anySlotExists_def Let_def by (intro rules any generates)
qed

lemma kept_GenerateKeys: "keeps handlesKept (GenerateKeys E opts)"
  by (rule generate_related[OF kept.step_relation_axioms])
    (intro kept_os kept_wrap kept_balanced[OF balanced_Generate rest_Generate])+

lemma closed_handles:
  "closedBundle b \<Longrightarrow> optHandles bundleHandles b = {}" "closedBundle b \<Longrightarrow> pred_option bundleKinds b"
  by (cases b; simp add: closedBundle_def optHandles_def bundleHandles_def bundleKinds_def)+

lemma ownsKeys_within: "ownsKeys live k \<Longrightarrow> keysHandles k \<subseteq> live' \<Longrightarrow> ownsKeys live' k"
  by (simp add: ownsKeys_def)

lemma apart_snoc: "apart ks \<Longrightarrow> keysHandles k \<inter> \<Union> (keysHandles ` set ks) = {} \<Longrightarrow> apart (ks @ [k])"
  by (fastforce simp: apart_def nth_append less_Suc_eq)

lemma accounts_OpenKeys:
  fixes w :: "'w client_world_scheme"
  shows "accounts w (snd (OpenKeys E opts w))"
proof -
  obtain r w' where run: "OpenKeys E opts w = (r, w')" by fastforce
  have "accounted w'" if ok: "accounted w"
  proof -
    from ok have h: "holding (owned w) w" "apart (k_objs w)" "\<And>k. k \<in> set (k_objs w) \<Longrightarrow> ownsKeys (owned w) k"
      by (simp_all add: accounted_def)
    from run h(1) show ?thesis
    proof (cases rule: OpenKeys_cases)
      case failed
      then show ?thesis using h by (simp add: accounted_def owned_def)
    next
      case (opened k)
      have own: "owned w' = owned w \<union> keysHandles k" using opened(2) by (auto simp: owned_def)
      moreover have "apart (k_objs w')"
        using apart_snoc[OF h(2), of k] opened(2,4) by (auto simp: owned_def)
      moreover have "ownsKeys (owned w \<union> keysHandles k) k'" if "k' \<in> set (k_objs w)" for k'
        by (rule ownsKeys_within[OF h(3)[OF that]]) (use that in \<open>auto simp: owned_def\<close>)
      ultimately show ?thesis using opened(2,3,5) by (auto simp: accounted_def)
    qed
  qed
  then show ?thesis by (simp add: run accounts_def)
qed

lemma KeysClose_objs:
  assumes "i < length (k_objs w)"
  obtains ks where "k_objs (snd (KeysClose (Some i) w)) = (k_objs w)[i := ks]" and "closedBundle (k_rmp ks)"
    and "closedBundle (k_mm ks)"
proof -
  obtain rmp mm w2 where
    r: "KeysClose (Some i) w = (Inr (), w2\<lparr>k_objs := (k_objs w)[i := (k_objs w ! i)\<lparr>k_rmp := rmp, k_mm := mm\<rparr>]\<rparr>)"
    and "closedBundle rmp" "closedBundle mm"
    using KeysClose_run[OF assms] by metis
  then show thesis by (intro that[of "(k_objs w ! i)\<lparr>k_rmp := rmp, k_mm := mm\<rparr>"]) simp_all
qed

lemma closed_keysHandles: "closedBundle (k_rmp ks) \<Longrightarrow> closedBundle (k_mm ks) \<Longrightarrow> keysHandles ks = {}"
  by (simp add: keysHandles_def closed_handles)

lemma owned_update:
  assumes "apart ks" and "i < length ks" and "keysHandles k = {}"
  shows "\<Union> (keysHandles ` set (ks[i := k])) = \<Union> (keysHandles ` set ks) - keysHandles (ks ! i)" and "apart (ks[i := k])"
proof -
  have "\<Union> (keysHandles ` set xs) = (\<Union>j<length xs. keysHandles (xs ! j))" for xs
    by (force simp: set_conv_nth)
  then show "\<Union> (keysHandles ` set (ks[i := k])) = \<Union> (keysHandles ` set ks) - keysHandles (ks ! i)"
    using assms by (auto simp: apart_def nth_list_update split: if_splits) blast+
  show "apart (ks[i := k])" using assms by (auto simp: apart_def nth_list_update)
qed

lemma accounts_KeysClose:
  fixes w :: "'w client_world_scheme"
  shows "accounts w (snd (KeysClose k w))"
proof (cases "\<exists>i. k = Some i \<and> i < length (k_objs w)")
  case False
  then have "KeysClose k w = (Inr (), w)" by (cases k) (auto simp: KeysClose_def keysAt_def)
  then show ?thesis by (simp add: accounting.R_refl)
next
  case True
  then obtain i where i: "k = Some i" "i < length (k_objs w)" by blast
  let ?w = "snd (KeysClose k w)"
  obtain ks where ks: "k_objs ?w = (k_objs w)[i := ks]" "closedBundle (k_rmp ks)" "closedBundle (k_mm ks)"
    using KeysClose_objs[OF i(2)] i(1) by metis
  have none: "keysHandles ks = {}" using closed_keysHandles ks(2,3) by blast
  have "accounted ?w" if ok: "accounted w"
  proof -
    from ok have h: "holding (owned w) w" "apart (k_objs w)" "\<And>k. k \<in> set (k_objs w) \<Longrightarrow> ownsKeys (owned w) k"
      by (simp_all add: accounted_def)
    have own: "owned ?w = owned w - keysHandles (k_objs w ! i)"
      using owned_update(1)[OF h(2) i(2) none] by (simp add: owned_def ks(1))
    have "holding (owned ?w) ?w"
      unfolding own using holding_KeysClose[OF h(1) i(2) h(3)] i by simp
    moreover have "apart (k_objs ?w)" unfolding ks(1) by (rule owned_update(2)[OF h(2) i(2) none])
    moreover have "ownsKeys (owned ?w) k'" if "k' \<in> set (k_objs ?w)" for k'
    proof -
      have "keysHandles k' \<subseteq> owned ?w" using that by (auto simp: owned_def)
      moreover have "k' = ks \<or> k' \<in> set (k_objs w)" using that set_update_subset_insert unfolding ks(1) by fast
      ultimately show ?thesis
        using ownsKeys_within[OF h(3)] none ks(2,3)
        by (auto simp: ownsKeys_def closed_handles)
    qed
    ultimately show ?thesis by (simp add: accounted_def)
  qed
  then show ?thesis by (simp add: accounts_def)
qed

lemma accounts_perform: "keeps accounts (perform E c)"
proof (cases "framed c")
  case True
  then show ?thesis by (intro keeps_kept_accounts objects.keeps_framed) simp_all
next
  case False
  have "keeps handlesKept (ClientClose E)"
    by (rule kept_quiet) (simp add: ClientClose_def andThen_def setClient_def run_simps)
  moreover have "keeps handlesKept (setClient f)" for f
    by (rule kept_quiet) (simp add: setClient_def run_simps)
  ultimately have other: "keeps accounts (ClientClose E)" "keeps accounts InvalidateCentroidCache"
    unfolding InvalidateCentroidCache_def by (blast intro: keeps_kept_accounts)+
  show ?thesis
    using False by (cases c)
      (simp_all add: other accounting.keeps_forget keepsI accounts_OpenKeys accounts_KeysClose
        keeps_kept_accounts kept_GenerateKeys)
qed

lemma accounted_session:
  fixes w :: "'w client_world_scheme"
  shows "accounted w \<Longrightarrow> accounted (snd (session E cs w))"
  using session_related[OF accounting.step_relation_axioms accounts_perform, of w E cs] by (simp add: accounts_def)

lemma accounted_fresh: "c_log w = [] \<Longrightarrow> k_objs w = [] \<Longrightarrow> accounted w"
  by (simp add: accounted_def owned_def apart_def holding_def liveAfter_def)

definition closedKeys :: "Keys \<Rightarrow> bool" where
  "closedKeys ks \<longleftrightarrow> closedBundle (k_rmp ks) \<and> closedBundle (k_mm ks)"

lemma KeysClose_closes:
  "length (k_objs (snd (KeysClose (Some i) w))) = length (k_objs w)"
  "j < length (k_objs w) \<Longrightarrow> j = i \<or> closedKeys (k_objs w ! j) \<Longrightarrow> closedKeys (k_objs (snd (KeysClose (Some i) w)) ! j)"
proof -
  consider (nil) "KeysClose (Some i) w = (Inr (), w)" "\<not> i < length (k_objs w)" | (some) "i < length (k_objs w)"
    by (cases "i < length (k_objs w)") (simp_all add: KeysClose_def keysAt_def)
  then have "length (k_objs (snd (KeysClose (Some i) w))) = length (k_objs w) \<and>
    (j < length (k_objs w) \<longrightarrow> j = i \<or> closedKeys (k_objs w ! j) \<longrightarrow> closedKeys (k_objs (snd (KeysClose (Some i) w)) ! j))"
  proof cases
    case some
    obtain ks where "k_objs (snd (KeysClose (Some i) w)) = (k_objs w)[i := ks]" "closedBundle (k_rmp ks)" "closedBundle (k_mm ks)"
      using KeysClose_objs[OF some] by metis
    with some show ?thesis by (auto simp: closedKeys_def nth_list_update)
  qed auto
  then show "length (k_objs (snd (KeysClose (Some i) w))) = length (k_objs w)"
    and "j < length (k_objs w) \<Longrightarrow> j = i \<or> closedKeys (k_objs w ! j) \<Longrightarrow> closedKeys (k_objs (snd (KeysClose (Some i) w)) ! j)"
    by blast+
qed

definition closings :: "nat list \<Rightarrow> api_call list" where
  "closings is = map (\<lambda>i. KeysCloseCall (Some i)) is"

lemma closing_session:
  fixes w :: "'w client_world_scheme"
  shows "length (k_objs (snd (session E (closings is) w))) = length (k_objs w) \<and>
    (j < length (k_objs w) \<longrightarrow> j \<in> set is \<or> closedKeys (k_objs w ! j) \<longrightarrow>
      closedKeys (k_objs (snd (session E (closings is) w)) ! j))"
  proof (induction "is" arbitrary: w)
    case (Cons i "is")
    show ?case using Cons.IH[of "snd (KeysClose (Some i) w)"] KeysClose_closes(1)[of i w] KeysClose_closes(2)[of j w i]
      by (auto simp: session_snd closings_def simp del: session.simps)
  qed (simp add: closings_def)

section \<open>Properties\<close>

text \<open>
  C1. No sequence of calls leaks, double-frees or uses after free a C object. Starting with no
  key set and no object, after any calls of the package in any order, with any arguments, whatever
  the library, the file system and the server answer, the log of C calls replays without a use or a
  destruction of a dead object, and the objects alive are exactly those held by the key sets that
  were opened and not closed, no object being held by two of them.
\<close>

theorem session_accounts_for_objects:
  fixes w :: "'w client_world_scheme"
  assumes "c_log w = []" and "k_objs w = []"
  shows "liveAfter (c_log (snd (session E cs w))) = Some (\<Union> (keysHandles ` set (k_objs (snd (session E cs w))))) \<and>
    apart (k_objs (snd (session E cs w)))"
  using accounted_session[OF accounted_fresh[OF assms], of E cs]
  by (simp add: accounted_def holding_def owned_def)

text \<open>A machine with a stored key set.\<close>

definition storedClientWorld :: client_world where
  "storedClientWorld = \<lparr>tick = 0, nodes = nodes storedWorld, c_log = [], k_objs = [], cl = freshClient, sent = []\<rparr>"

lemma stored_start: "c_log storedClientWorld = []" "k_objs storedClientWorld = []"
  by (simp_all add: storedClientWorld_def)

lemma sampleServer_usable: "usable sampleServer"
  by (simp add: usable_def calm_def reliable_def) (simp add: sampleServer_def)

lemma stored_session:
  "\<exists>k. k_objs (snd (session sampleServer [OpenKeysCall encOpts] storedClientWorld)) = [k]"
proof -
  obtain w' where r: "OpenKeys sampleServer encOpts storedClientWorld = (Inr 0, w')"
    using stored_opens[OF sampleServer_usable, of storedClientWorld] by (auto simp: storedClientWorld_def)
  have "holding {} storedClientWorld" by (simp add: holding_def liveAfter_def stored_start)
  from r this obtain k where "k_objs w' = [k]" by (cases rule: OpenKeys_cases) (simp_all add: stored_start)
  then show ?thesis by (simp add: r forget_def andThen_Inr ret_run)
qed

theorem session_accounts_for_objects_witness:
  "\<exists>k. k_objs (snd (session sampleServer [OpenKeysCall encOpts] storedClientWorld)) = [k] \<and>
    liveAfter (c_log (snd (session sampleServer [OpenKeysCall encOpts] storedClientWorld))) = Some (keysHandles k)"
  using session_accounts_for_objects[OF stored_start, of sampleServer "[OpenKeysCall encOpts]"] stored_session
  by auto

text \<open>
  C2. Closing every key set, in any order and any number of times, after any sequence of calls
  leaves no C object alive.
\<close>

theorem closing_everything_frees_everything:
  fixes w :: "'w client_world_scheme"
  assumes "c_log w = []" and "k_objs w = []"
    and "{..<length (k_objs (snd (session E cs w)))} \<subseteq> set is"
  shows "liveAfter (c_log (snd (session E (cs @ closings is) w))) = Some {}"
proof -
  let ?w = "snd (session E cs w)" and ?w' = "snd (session E (cs @ closings is) w)"
  have "closedKeys k" if "k \<in> set (k_objs ?w')" for k
  proof -
    from that obtain j where "j < length (k_objs ?w')" "k = k_objs ?w' ! j" by (auto simp: in_set_conv_nth)
    then show ?thesis
      using closing_session[of E "is" ?w j] assms(3) by (auto simp: session_append)
  qed
  then have "owned ?w' = {}" by (auto simp: owned_def closedKeys_def dest: closed_keysHandles)
  moreover have "accounted ?w'" by (intro accounted_session accounted_fresh assms)
  ultimately show ?thesis by (simp add: accounted_def holding_def)
qed

theorem closing_everything_frees_everything_witness:
  "liveAfter (c_log (snd (session sampleServer [OpenKeysCall encOpts, KeysCloseCall (Some 0)] storedClientWorld))) = Some {}"
proof -
  obtain k where "k_objs (snd (session sampleServer [OpenKeysCall encOpts] storedClientWorld)) = [k]"
    using stored_session by blast
  then have "{..<length (k_objs (snd (session sampleServer [OpenKeysCall encOpts] storedClientWorld)))} \<subseteq> set [0]"
    by (simp only:) auto
  from closing_everything_frees_everything[OF stored_start this] show ?thesis by (simp only: closings_def list.map append.simps)
qed

end
