(* ===== verification/Key_Set_Types.thy ===== *)
theory Key_Set_Types
  imports Object_Accounting "HOL-Library.Sublist"
begin

text \<open>
  What every key set looks like, at any time: the two halves it was opened with, of the kinds and
  in the directories the package fixes, usable for the same operations. \<open>wellFormed\<close> is the type
  invariant of \<open>Keys\<close>; every call of a session keeps it, and keeps what identifies a key set.
\<close>

section \<open>The shape of a bundle\<close>

definition flatKinds :: "keyKind set" where
  "flatKinds = {rmpKind, rmpKind\<lparr>kk_mode := ''flat''\<rparr>}"

text \<open>A bundle without a context is closed.\<close>

definition shaped :: "keyKind set \<Rightarrow> gopath \<Rightarrow> keyBundle \<Rightarrow> bool" where
  "shaped kinds parent b \<longleftrightarrow> kb_kind b \<in> kinds \<and> kb_dir b = joinPath parent (kk_subdir (kb_kind b)) \<and>
     bundleKinds b \<and> (kb_ckks b = None \<longrightarrow> kb_enc b = None \<and> kb_dec b = None)"

text \<open>Two bundles that can do the same.\<close>

definition matching :: "keyBundle \<Rightarrow> keyBundle \<Rightarrow> bool" where
  "matching b b' \<longleftrightarrow> (kb_ckks b = None \<longleftrightarrow> kb_ckks b' = None) \<and> (kb_enc b = None \<longleftrightarrow> kb_enc b' = None) \<and>
     (kb_dec b = None \<longleftrightarrow> kb_dec b' = None)"

definition wellFormed :: "Keys \<Rightarrow> bool" where
  "wellFormed k \<longleftrightarrow> k_id k \<noteq> [] \<and> 0 < k_dim k \<and>
     (\<exists>parent rmp mm. k_rmp k = Some rmp \<and> k_mm k = Some mm \<and> shaped flatKinds parent rmp \<and>
       shaped {mmKind} parent mm \<and> matching rmp mm)"

lemma wellFormedI:
  "k_rmp k = Some rmp \<Longrightarrow> k_mm k = Some mm \<Longrightarrow> k_id k \<noteq> [] \<Longrightarrow> 0 < k_dim k \<Longrightarrow> shaped flatKinds parent rmp \<Longrightarrow>
    shaped {mmKind} parent mm \<Longrightarrow> matching rmp mm \<Longrightarrow> wellFormed k"
  unfolding wellFormed_def by blast

lemma flatBundleKind_kinds: "flatBundleKind m \<in> flatKinds"
  by (simp add: flatBundleKind_def flatKinds_def)

section \<open>Opening\<close>

text \<open>The parts that were asked for, and no others, are open.\<close>

definition openedWith :: "keysOptions \<Rightarrow> keyKind \<Rightarrow> keyBundle \<Rightarrow> bool" where
  "openedWith opts kind b \<longleftrightarrow> (case resolveKeyParts (Parts opts) of (wantEnc, _, wantSec) \<Rightarrow>
     kb_kind b = kind \<and> kb_dir b = joinPath (cleanPath (Path opts)) (kk_subdir kind) \<and> kb_ckks b \<noteq> None \<and>
     (kb_enc b \<noteq> None \<longleftrightarrow> wantEnc) \<and> (kb_dec b \<noteq> None \<longleftrightarrow> wantSec))"

lemma returns_openedWith: "returns (openKeyBundle E opts kind) (openedWith opts kind)"
proof -
  obtain a b c where p: "resolveKeyParts (Parts opts) = (a, b, c)" by (cases "resolveKeyParts (Parts opts)")
  have e: "returns (if a then onFailure g (mapErr f (andThen (NewEncryptor E ck st) (\<lambda>e. ret (Some e)))) else ret None)
      (\<lambda>x. x \<noteq> None \<longleftrightarrow> a)" for f g ck st
    by (auto intro!: returns_rules returns_andThen[OF returns_any])
  show ?thesis
    unfolding openKeyBundle_def p Let_def prod.case
    by (rule returns_andThen[OF returns_any], rule returns_deferring, rule returns_andThen[OF returns_any],
        rule returns_andThen[OF returns_any], rule returns_andThen[OF returns_any], rule returns_andThen[OF e])
      (auto simp: openedWith_def p intro!: returns_rules returns_andThen[OF returns_any])
qed

lemma openedWith_shaped:
  "openedWith opts kind b \<Longrightarrow> bundleKinds b \<Longrightarrow> kind \<in> kinds \<Longrightarrow> shaped kinds (cleanPath (Path opts)) b"
  by (auto simp: openedWith_def shaped_def split: prod.splits)

lemma openedWith_matching: "openedWith opts kind b \<Longrightarrow> openedWith opts kind' b' \<Longrightarrow> matching b b'"
  by (auto simp: openedWith_def matching_def split: prod.splits)

lemma OpenKeys_wellFormed:
  assumes "OpenKeys E opts w = (r, w')"
  obtains (failed) e where "r = Inl e" and "k_objs w' = k_objs w"
  | (opened) k where "r = Inr (length (k_objs w))" and "k_objs w' = k_objs w @ [k]" and "wellFormed k"
proof -
  let ?o = "buildKeysOptions opts"
  have keep: "k_objs w2 = k_objs w1" if "openKeyBundle E ?o kind w1 = (r', w2)" for kind w1 w2 r'
    by (rule rest_objs[OF keepsD[OF rest_openKeyBundle that]])
  have made: "bundleKinds b \<and> openedWith ?o kind b" if "openKeyBundle E ?o kind w1 = (Inr b, w2)" for kind w1 w2 b
    using that returns_openKeyBundle returns_openedWith unfolding returns_def by blast
  from assms show thesis
    unfolding OpenKeys_def Let_def
  proof (cases rule: andThen_cases)
    case (first e)
    then show thesis using failed by (simp add: run_simps)
  next
    case (second u w0)
    then have w0: "w0 = w" and valid: "validate ?o = Inr ()" by (simp_all add: run_simps)
    from second(2) show thesis unfolding w0
    proof (cases rule: andThen_cases)
      case (first e)
      then show thesis using failed keep[OF first(1)] by simp
    next
      case (second rmp w1)
      note 1 = second(1)
      from second(2) show thesis
      proof (cases rule: andThen_cases)
        case (first e)
        then obtain w2 where m: "openKeyBundle E ?o mmKind w1 = (Inl e, w2)" and w': "w' = snd (bundleClose rmp w2)"
          by (auto simp: onFailure_def split: prod.splits sum.splits)
        then have "k_objs w' = k_objs w" using keep[OF 1] keep[OF m] rest_objs[OF rest_bundleClose] by metis
        then show thesis using failed first(2) by blast
      next
        case (second mm w2)
        then have m: "openKeyBundle E ?o mmKind w1 = (Inr mm, w2)"
          by (auto simp: onFailure_def split: prod.splits sum.splits)
        let ?k = "\<lparr>k_id = KeyID ?o, k_dim = Dim ?o, k_rmp = Some rmp, k_mm = Some mm\<rparr>"
        have "shaped flatKinds (cleanPath (Path ?o)) rmp" "shaped {mmKind} (cleanPath (Path ?o)) mm"
          using made[OF 1] made[OF m] openedWith_shaped flatBundleKind_kinds by blast+
        moreover have "matching rmp mm" using made[OF 1] made[OF m] openedWith_matching by blast
        ultimately have "wellFormed ?k" using valid validate_ok[of ?o] by (intro wellFormedI[of ?k rmp mm]) simp_all
        moreover have "r = Inr (length (k_objs w))" "k_objs w' = k_objs w @ [?k]"
          using second(2) keep[OF 1] keep[OF m] by (auto simp: newKeys_def)
        ultimately show thesis using opened by blast
      qed
    qed
  qed
qed

section \<open>Closing\<close>

definition closedForm :: "keyBundle \<Rightarrow> keyBundle" where
  "closedForm b = b\<lparr>kb_enc := None, kb_dec := None, kb_ckks := None\<rparr>"

lemma closeOpt_form: "fst (closeOpt b w) = map_option closedForm b"
  by (cases b) (simp_all add: closeOpt_def closedForm_def bundleClose_def Let_def)

lemma KeysClose_form:
  fixes w :: "'w keys_world_scheme"
  assumes "i < length (k_objs w)"
  shows "k_objs (snd (KeysClose (Some i) w)) =
    (k_objs w)[i := (k_objs w ! i)\<lparr>k_rmp := map_option closedForm (k_rmp (k_objs w ! i)),
      k_mm := map_option closedForm (k_mm (k_objs w ! i))\<rparr>]"
proof -
  let ?k = "k_objs w ! i"
  obtain rmp w1 where 1: "closeOpt (k_rmp ?k) w = (rmp, w1)" by fastforce
  obtain mm w2 where 2: "closeOpt (k_mm ?k) w1 = (mm, w2)" by fastforce
  have "k_objs w2 = k_objs w"
    using rest_objs[OF rest_closeOpt, of "k_rmp ?k" w] rest_objs[OF rest_closeOpt, of "k_mm ?k" w1] 1 2 by simp
  moreover have "rmp = map_option closedForm (k_rmp ?k)" "mm = map_option closedForm (k_mm ?k)"
    using closeOpt_form[of "k_rmp ?k" w] closeOpt_form[of "k_mm ?k" w1] 1 2 by simp_all
  ultimately show ?thesis using assms 1 2 by (simp add: KeysClose_def keysAt_def)
qed

lemma closedForm_shaped: "shaped kinds parent b \<Longrightarrow> shaped kinds parent (closedForm b)"
  by (simp add: shaped_def closedForm_def bundleKinds_def)

lemma closedForm_matching: "matching (closedForm b) (closedForm b')"
  by (simp add: matching_def closedForm_def)

section \<open>Every call\<close>

lemma nth_prefix: "prefix xs ys \<Longrightarrow> i < length xs \<Longrightarrow> ys ! i = xs ! i"
  by (auto simp: prefix_def nth_append)

text \<open>What identifies a key set: its id and dimension, and each half's kind and directory.\<close>

definition identity :: "Keys \<Rightarrow> string \<times> int \<times> (keyKind \<times> gopath) option \<times> (keyKind \<times> gopath) option" where
  "identity k = (k_id k, k_dim k, map_option (\<lambda>b. (kb_kind b, kb_dir b)) (k_rmp k), map_option (\<lambda>b. (kb_kind b, kb_dir b)) (k_mm k))"

definition typed :: "'w keys_world_scheme \<Rightarrow> 'w keys_world_scheme \<Rightarrow> bool" where
  "typed w w' \<longleftrightarrow> ((\<forall>k \<in> set (k_objs w). wellFormed k) \<longrightarrow> (\<forall>k \<in> set (k_objs w'). wellFormed k)) \<and>
     prefix (map identity (k_objs w)) (map identity (k_objs w'))"

lemma typed_same: "k_objs w' = k_objs w \<Longrightarrow> typed w w'"
  by (simp add: typed_def)

interpretation typing: step_relation typed
proof (unfold_locales, goal_cases)
  case (1 s)
  show ?case by (rule typed_same[OF refl])
next
  case (2 s t u)
  then show ?case using prefix_order.trans[of "map identity (k_objs s)"] unfolding typed_def by fast
qed

lemma typed_OpenKeys:
  fixes w :: "'w client_world_scheme"
  shows "typed w (snd (OpenKeys E opts w))"
proof -
  obtain r w' where run: "OpenKeys E opts w = (r, w')" by fastforce
  then have "typed w w'"
  proof (cases rule: OpenKeys_wellFormed)
    case (failed e)
    then show ?thesis by (simp add: typed_same)
  next
    case (opened k)
    then show ?thesis by (auto simp: typed_def)
  qed
  then show ?thesis by (simp add: run)
qed

lemma typed_KeysClose:
  fixes w :: "'w client_world_scheme"
  shows "typed w (snd (KeysClose k w))"
proof (cases "\<exists>i. k = Some i \<and> i < length (k_objs w)")
  case False
  then have "KeysClose k w = (Inr (), w)" by (cases k) (auto simp: KeysClose_def keysAt_def)
  then show ?thesis by (simp add: typing.R_refl)
next
  case True
  then obtain i where i: "k = Some i" "i < length (k_objs w)" by blast
  define c where "c = (k_objs w ! i)\<lparr>k_rmp := map_option closedForm (k_rmp (k_objs w ! i)),
      k_mm := map_option closedForm (k_mm (k_objs w ! i))\<rparr>"
  have objs: "k_objs (snd (KeysClose k w)) = (k_objs w)[i := c]" using KeysClose_form[OF i(2)] by (simp add: i c_def)
  have same: "identity c = identity (k_objs w ! i)"
    by (simp add: c_def identity_def option.map_comp comp_def closedForm_def)
  have "map identity ((k_objs w)[i := c]) = map identity (k_objs w)"
    by (simp add: map_update same flip: nth_map[OF i(2)])
  moreover have "wellFormed c" if wf: "wellFormed (k_objs w ! i)"
  proof -
    from wf obtain parent rmp mm where "k_rmp (k_objs w ! i) = Some rmp" "k_mm (k_objs w ! i) = Some mm"
      "shaped flatKinds parent rmp" "shaped {mmKind} parent mm" "k_id (k_objs w ! i) \<noteq> []" "0 < k_dim (k_objs w ! i)"
      unfolding wellFormed_def by blast
    then show ?thesis
      by (intro wellFormedI[of c "closedForm rmp" "closedForm mm" parent])
        (simp_all add: c_def closedForm_shaped closedForm_matching)
  qed
  moreover have "\<forall>k \<in> set ((k_objs w)[i := c]). k = c \<or> k \<in> set (k_objs w)"
    using set_update_subset_insert by fast
  moreover have "k_objs w ! i \<in> set (k_objs w)" using i(2) by simp
  ultimately show ?thesis unfolding typed_def objs
    by (intro conjI impI ballI) (metis, simp)
qed

lemma kept_typed:
  fixes m :: "(err, 'w client_world_scheme, 'a) io"
  shows "keeps handlesKept m \<Longrightarrow> keeps typed m"
  using typed_same by (auto simp: keeps_def handlesKept_def)

lemma typed_perform: "keeps typed (perform E c)"
proof (cases "framed c")
  case True
  then show ?thesis by (intro kept_typed objects.keeps_framed) simp_all
next
  case False
  have other: "keeps typed (ClientClose E)" "keeps typed InvalidateCentroidCache"
    by (rule keepsI; rule typed_same; simp add: ClientClose_def InvalidateCentroidCache_def andThen_def setClient_def run_simps)+
  show ?thesis
    using False by (cases c)
      (simp_all add: other typing.keeps_forget keepsI typed_OpenKeys typed_KeysClose kept_typed kept_GenerateKeys)
qed

section \<open>Property\<close>

text \<open>
  C10. Key sets are well formed, always. Whatever is called in whatever order, every key set a
  program can hold has a non-empty id and a positive dimension and both its bundles: the flat one
  of kind rmp or flat, the clustered one of kind mm, in the two directories of one path, holding C
  objects of the right kinds only, and both usable for the same operations, so that a set that
  encrypts flat items encrypts clustered ones and one half is never closed alone. A pointer to a
  key set stays valid, and nothing changes the set's id, dimension, kinds and directories.
\<close>

theorem session_keys_well_formed:
  fixes w :: "'w client_world_scheme"
  assumes "\<forall>k \<in> set (k_objs w). wellFormed k"
  shows "(\<forall>k \<in> set (k_objs (snd (session E cs w))). wellFormed k) \<and>
    (\<forall>i < length (k_objs w). i < length (k_objs (snd (session E cs w))) \<and>
      identity (k_objs (snd (session E cs w)) ! i) = identity (k_objs w ! i))"
proof -
  have t: "typed w (snd (session E cs w))" by (rule session_related[OF typing.step_relation_axioms typed_perform])
  then have p: "prefix (map identity (k_objs w)) (map identity (k_objs (snd (session E cs w))))"
    and "\<forall>k \<in> set (k_objs (snd (session E cs w))). wellFormed k"
    using assms unfolding typed_def by blast+
  moreover have "length (k_objs w) \<le> length (k_objs (snd (session E cs w)))" using prefix_length_le[OF p] by simp
  moreover from this have "identity (k_objs (snd (session E cs w)) ! i) = identity (k_objs w ! i)" if "i < length (k_objs w)" for i
    using that nth_prefix[OF p, of i] by simp
  ultimately show ?thesis by (simp add: order_less_le_trans)
qed

theorem session_keys_well_formed_witness:
  "\<exists>k. k_objs (snd (session sampleServer [OpenKeysCall encOpts] storedClientWorld)) = [k] \<and> wellFormed k"
  using session_keys_well_formed[of storedClientWorld sampleServer "[OpenKeysCall encOpts]"] stored_session stored_start(2)
  by auto

end
