(* ===== verification/Session_Properties.thy ===== *)
theory Session_Properties
  imports Object_Accounting
begin

text \<open>
  What a client does over a whole session: which requests a call may send, what a closed client
  still does, and how the cached centroid set behaves.
\<close>

section \<open>Relations that every call keeps\<close>

lemma rest_reader: "keeps sameRest (openEvalKeyReader E dir)"
  unfolding openEvalKeyReader_def resolveKeySlot_def
  by (auto intro!: rest.keeps_rules keeps_rest_os rest_unwrap rest.ignoring_related split: option.split prod.split)

lemma rest_cleanup: "sameRest w (readerCleanup E r w)"
proof -
  have closed: "sameRest w (ignoring (osClose E) w)" by (intro rest.ignoring_related keeps_rest_os)
  have "sameRest (ignoring (osClose E) w) (ignoring (osRemove E p) (ignoring (osClose E) w))" for p
    by (intro rest.ignoring_related keeps_rest_os)
  from closed rest.R_trans[OF closed this] show ?thesis
    by (cases "er_tmp r") (simp_all add: readerCleanup_def Let_def)
qed

text \<open>A relation on the client and the wire is kept by what touches neither.\<close>

definition aloof :: "'w client_world_scheme \<Rightarrow> 'w client_world_scheme \<Rightarrow> bool" where
  "aloof w w' \<longleftrightarrow> cl w' = cl w \<and> sent w' = sent w"

interpretation apart_client: step_relation aloof
  by unfold_locales (simp_all add: aloof_def)

lemma rest_aloof: "sameRest w w' \<Longrightarrow> aloof w w'"
  by (simp add: aloof_def sameRest_client)

lemma keeps_rest_aloof:
  fixes m :: "(err, 'w client_world_scheme, 'a) io"
  shows "keeps sameRest m \<Longrightarrow> keeps aloof m"
  using rest_aloof by (auto simp: keeps_def)

lemma client_relation_from:
  fixes R :: "'w client_world_scheme \<Rightarrow> 'w client_world_scheme \<Rightarrow> bool"
  assumes R: "step_relation R" and aloof: "\<And>w w'. aloof w w' \<Longrightarrow> R w w'"
    and "\<And>m w. P m \<Longrightarrow> m \<noteq> RpcGetCentroids \<or> \<not> cl_loaded (cl w) \<Longrightarrow> R w (w\<lparr>tick := Suc (tick w), sent := sent w @ [m]\<rparr>)"
    and "\<And>w cs. \<not> cl_loaded (cl w) \<Longrightarrow> R w (w\<lparr>cl := (cl w)\<lparr>cl_centroids := Some cs, cl_loaded := True\<rparr>\<rparr>)"
    and "\<And>w k. R w (w\<lparr>cl := (cl w)\<lparr>cl_keys := k\<rparr>\<rparr>)"
  shows "client_relation R E P (\<lambda>_. True)"
proof (intro client_relation.intro client_relation_axioms.intro)
  show "step_relation R" by (rule R)
  have quiet: "keeps R m" if "keeps sameRest m" for m :: "(err, 'w client_world_scheme, 'b) io"
    using keeps_rest_aloof[OF that] aloof by (auto simp: keeps_def)
  show "R w (w\<lparr>tick := Suc (tick w)\<rparr>)" for w by (rule aloof) (simp add: aloof_def)
  show "keeps R (EncryptFlat E k vec)" "keeps R (EncryptClustered E k vec)" for k vec
    by (rule quiet, rule rest_keys_use)+
  show "keeps R (DecryptResult E k blob)" "keeps R (DecryptClustered E k blob)" for k blob
    by (intro quiet rest_keys_use)+
  show "keeps R (openEvalKeyReader E dir)" for dir by (intro quiet rest_reader)
  show "returns (openEvalKeyReader E dir :: (err, 'w client_world_scheme, evalReader) io) (\<lambda>_. True)" for dir by (rule returns_any)
  show "R w (readerCleanup E r w)" for w r by (intro aloof rest_aloof rest_cleanup)
qed (fact assms)+

section \<open>The relations\<close>

definition connKept :: "'w client_world_scheme \<Rightarrow> 'w client_world_scheme \<Rightarrow> bool" where
  "connKept w w' \<longleftrightarrow> cl_conn (cl w') = cl_conn (cl w)"

interpretation connection: step_relation connKept
  by unfold_locales (simp_all add: connKept_def)

text \<open>A cached set stays, and no further one is fetched.\<close>

definition setKept :: "'w client_world_scheme \<Rightarrow> 'w client_world_scheme \<Rightarrow> bool" where
  "setKept w w' \<longleftrightarrow> (cl_loaded (cl w) \<longrightarrow> cl_loaded (cl w') \<and> cl_centroids (cl w') = cl_centroids (cl w) \<and>
     sentBy (\<lambda>m. m \<noteq> RpcGetCentroids) w w')"

interpretation stable: step_relation setKept
  by unfold_locales (auto simp: setKept_def intro: sending.R_refl sending.R_trans)

definition cacheSound :: "'w client_world_scheme \<Rightarrow> 'w client_world_scheme \<Rightarrow> bool" where
  "cacheSound w w' \<longleftrightarrow> (cacheOK (cl w) \<longrightarrow> cacheOK (cl w'))"

interpretation sound: step_relation cacheSound
  by unfold_locales (simp_all add: cacheSound_def)

interpretation wire: client_relation "sentBy P" E P "\<lambda>_. True" for E P
  by (rule client_relation_from[OF sending.step_relation_axioms]) (simp_all add: sentBy_def aloof_def)

interpretation connections: client_relation connKept E "\<lambda>_. True" "\<lambda>_. True" for E
  by (rule client_relation_from[OF connection.step_relation_axioms]) (simp_all add: connKept_def aloof_def)

interpretation sets: client_relation setKept E "\<lambda>_. True" "\<lambda>_. True" for E
  by (rule client_relation_from[OF stable.step_relation_axioms]) (auto simp: setKept_def aloof_def sentBy_def)

interpretation caches: client_relation cacheSound E "\<lambda>_. True" "\<lambda>_. True" for E
  by (rule client_relation_from[OF sound.step_relation_axioms]) (auto simp: cacheSound_def aloof_def cacheOK_def)

text \<open>The calls on key sets do not reach the client.\<close>

lemma aloof_keys:
  "keeps aloof (GenerateKeys E opts)" "keeps aloof (forget (OpenKeys E opts))"
  "keeps (aloof :: 'w client_world_scheme \<Rightarrow> 'w client_world_scheme \<Rightarrow> bool) (KeysClose k)"
proof -
  have "keeps sameRest (WrapEncKey E i a b)" for i a b
    unfolding WrapEncKey_def wrapKey_def by (intro rest_scoped keeps_rest_cgo keeps_rest_convert)
  then have "keeps sameRest (GenerateKeys E opts)"
    by (rule generate_related[OF rest.step_relation_axioms keeps_rest_os(1) keeps_rest_os(2) keeps_rest_os(3) rest_Generate])
  then show "keeps aloof (GenerateKeys E opts)" by (rule keeps_rest_aloof)
  have "keeps aloof (newKeys ks)" for ks by (rule keepsI) (simp add: newKeys_def aloof_def)
  moreover have "keeps aloof (openKeyBundle E o' kind)" for o' kind by (rule keeps_rest_aloof, rule rest_openKeyBundle)
  ultimately show "keeps aloof (forget (OpenKeys E opts))"
    unfolding OpenKeys_def Let_def
    by (intro apart_client.keeps_forget apart_client.keeps_rules rest_aloof rest_bundleClose)
  have closed: "aloof w (snd (closeOpt b w))" for b and w :: "'w client_world_scheme"
    by (rule rest_aloof, rule rest_closeOpt)
  show "keeps (aloof :: 'w client_world_scheme \<Rightarrow> 'w client_world_scheme \<Rightarrow> bool) (KeysClose k)"
  proof (rule keepsI)
    fix w :: "'w client_world_scheme"
    show "aloof w (snd (KeysClose k w))"
    proof (cases "keysAt w k")
      case None
      then show ?thesis by (simp add: KeysClose_def apart_client.R_refl split: option.split)
    next
      case (Some ks)
      obtain rmp w1 where 1: "closeOpt (k_rmp ks) w = (rmp, w1)" by fastforce
      obtain mm w2 where 2: "closeOpt (k_mm ks) w1 = (mm, w2)" by fastforce
      have "aloof w w2" using apart_client.R_trans closed[of w "k_rmp ks"] closed[of w1 "k_mm ks"] by (simp add: 1 2)
      then show ?thesis using Some 1 2 by (auto simp: KeysClose_def aloof_def keysAt_def split: option.splits)
    qed
  qed
qed

section \<open>Calls\<close>

lemma ClientClose_run:
  "snd (ClientClose E w) = w\<lparr>cl := (cl w)\<lparr>cl_conn := False\<rparr>, tick := tick w + of_bool (cl_conn (cl w))\<rparr>"
  by (simp add: ClientClose_def andThen_def setClient_def run_simps)

lemma Invalidate_run:
  "InvalidateCentroidCache w = (Inr (), w\<lparr>cl := (cl w)\<lparr>cl_centroids := None, cl_loaded := False\<rparr>\<rparr>)"
  by (simp add: InvalidateCentroidCache_def setClient_def run_simps)

lemma unframed_cases:
  fixes R :: "'w client_world_scheme \<Rightarrow> 'w client_world_scheme \<Rightarrow> bool"
  assumes "\<not> framed c" and "\<And>w w'. aloof w w' \<Longrightarrow> R w w'"
    and "c = InvalidateCall \<Longrightarrow> (\<And>w. R w (w\<lparr>cl := (cl w)\<lparr>cl_centroids := None, cl_loaded := False\<rparr>\<rparr>))"
    and "c = CloseCall \<Longrightarrow> (\<And>w n. R w (w\<lparr>cl := (cl w)\<lparr>cl_conn := False\<rparr>, tick := n\<rparr>))"
  shows "keeps R (perform E c)"
proof -
  have lift: "keeps R m" if "keeps aloof m" for m :: "(err, 'w client_world_scheme, unit) io"
    using that assms(2) by (auto simp: keeps_def)
  have "keeps R InvalidateCentroidCache" if "c = InvalidateCall"
    using assms(3)[OF that] by (simp add: keeps_def Invalidate_run)
  moreover have "keeps R (ClientClose E)" if "c = CloseCall"
    using assms(4)[OF that] by (simp add: keeps_def ClientClose_run)
  ultimately show ?thesis using assms(1) by (cases c) (simp_all add: lift aloof_keys)
qed

lemma call_related:
  fixes R :: "'w client_world_scheme \<Rightarrow> 'w client_world_scheme \<Rightarrow> bool"
  assumes "client_relation R E (\<lambda>_. True) Q" and "\<And>w w'. aloof w w' \<Longrightarrow> R w w'"
    and "c = InvalidateCall \<Longrightarrow> (\<And>w. R w (w\<lparr>cl := (cl w)\<lparr>cl_centroids := None, cl_loaded := False\<rparr>\<rparr>))"
    and "c = CloseCall \<Longrightarrow> (\<And>w n. R w (w\<lparr>cl := (cl w)\<lparr>cl_conn := False\<rparr>, tick := n\<rparr>))"
  shows "keeps R (perform E c)"
proof (cases "framed c")
  case True
  then show ?thesis by (rule client_relation.keeps_framed[OF assms(1)]) simp
next
  case False
  then show ?thesis using assms(2-4) by (rule unframed_cases)
qed

lemma sent_by_call: "keeps (sentBy (mayCall c)) (perform E c)"
proof (cases "framed c")
  case True
  then show ?thesis by (rule wire.keeps_framed)
next
  case False
  then show ?thesis by (rule unframed_cases) (auto simp: aloof_def sentBy_def)
qed

lemma connection_call: "c \<noteq> CloseCall \<Longrightarrow> keeps connKept (perform E c)"
  by (rule call_related[OF connections.client_relation_axioms]) (simp_all add: aloof_def connKept_def)

lemma setKept_call: "c \<noteq> InvalidateCall \<Longrightarrow> keeps setKept (perform E c)"
  by (rule call_related[OF sets.client_relation_axioms]) (simp_all add: aloof_def setKept_def sentBy_def)

lemma cacheSound_call: "keeps cacheSound (perform E c)"
  by (rule call_related[OF caches.client_relation_axioms]) (simp_all add: aloof_def cacheSound_def cacheOK_def)

text \<open>The calls that need the connection.\<close>

fun guarded :: "api_call \<Rightarrow> bool" where
  "guarded (RegisterKeysCall k) = True"
| "guarded (VerifyKeysCall k) = True"
| "guarded InfoCall = True"
| "guarded (InsertCall vec metadata opts) = True"
| "guarded (InsertPreEncryptedCall it opts) = True"
| "guarded (SearchCall vec topK opts) = True"
| "guarded (DeleteCall i) = True"
| "guarded (UpdateTagsCall i add remove) = True"
| "guarded (RetagAllCall from to) = True"
| "guarded (RemoveTagCall tag) = True"
| "guarded _ = False"

lemma guarded_closed:
  fixes w :: "'w client_world_scheme"
  assumes "guarded c" and "\<not> cl_conn (cl w)"
  shows "perform E c w = (Inl (Sentinel ErrClientClosed), w)"
proof -
  have w: "whenOpen m w = (Inl (Sentinel ErrClientClosed), w)" for m :: "(err, 'w client_world_scheme, 'b) io"
    using assms(2) by (simp add: whenOpen_def connOK_def andThen_def run_simps)
  have k: "withKeys vec f w = (Inl (Sentinel ErrClientClosed), w)"
    for vec and f :: "keysRef \<Rightarrow> (err, 'w client_world_scheme, 'b) io"
    using assms(2) by (simp add: withKeys_def andThen_def run_simps)
  show ?thesis
    using assms(1)
    by (cases c) (simp_all add: forget_def andThen_Inl w k RegisterKeys_def VerifyKeys_def Info_def Insert_def
        InsertPreEncrypted_def Search_def Delete_def UpdateTags_def RetagAll_def RemoveTag_def)
qed

text \<open>A closed client stays closed and sends only what \<open>P\<close> allows.\<close>

definition quiet :: "(rpc \<Rightarrow> bool) \<Rightarrow> 'w client_world_scheme \<Rightarrow> 'w client_world_scheme \<Rightarrow> bool" where
  "quiet P w w' \<longleftrightarrow> (\<not> cl_conn (cl w) \<longrightarrow> \<not> cl_conn (cl w') \<and> sentBy P w w')"

interpretation quietly: step_relation "quiet P" for P
  by unfold_locales (auto simp: quiet_def intro: sending.R_refl sending.R_trans)

lemma unguarded_calls: "\<not> guarded c \<Longrightarrow> mayCall c m \<Longrightarrow> c = CentroidsCall \<and> m = RpcGetCentroids"
  by (cases c) auto

lemma sentBy_mono: "sentBy P w w' \<Longrightarrow> (\<And>m. P m \<Longrightarrow> Q m) \<Longrightarrow> sentBy Q w w'"
  unfolding sentBy_def by (metis list.pred_mono_strong)

lemma quiet_call:
  assumes "c = CentroidsCall \<Longrightarrow> P RpcGetCentroids"
  shows "keeps (quiet P) (perform E c)"
proof (rule keepsI)
  fix w :: "'w client_world_scheme"
  let ?w = "snd (perform E c w)"
  show "quiet P w ?w"
  proof (cases "cl_conn (cl w) \<or> guarded c")
    case True
    then show ?thesis using guarded_closed[of c w E] by (auto simp: quiet_def sending.R_refl)
  next
    case False
    have "sentBy (mayCall c) w ?w" using sent_by_call unfolding keeps_def by blast
    then have "sentBy P w ?w" using unguarded_calls False assms by (blast intro: sentBy_mono)
    moreover have "\<not> cl_conn (cl ?w)"
      using False connection_call[of c E] by (cases "c = CloseCall") (auto simp: keeps_def connKept_def ClientClose_run)
    ultimately show ?thesis by (simp add: quiet_def)
  qed
qed

lemma closed_results:
  assumes "\<not> cl_conn (cl w)" and "i < length cs" and "guarded (cs ! i)"
  shows "fst (session E cs w) ! i = Inl (Sentinel ErrClientClosed)"
  using assms
proof (induction cs arbitrary: w i)
  case (Cons c cs)
  obtain r w1 where 1: "perform E c w = (r, w1)" by fastforce
  have "\<not> cl_conn (cl w1)"
    using keepsD[OF quiet_call[where P = "\<lambda>_. True"] 1] Cons.prems(1) by (simp add: quiet_def)
  then show ?case
    using Cons.IH[of w1 "i - 1"] guarded_closed[of c w E] Cons.prems 1 by (cases i) (auto split: prod.split)
qed simp

section \<open>Properties\<close>

text \<open>
  A call puts on the wire only what it is for: \<open>Search\<close> sends \<open>Search\<close> and \<open>GetMetadata\<close>
  requests, \<open>Insert\<close> a \<open>GetCentroids\<close> and insert requests, \<open>RegisterKeys\<close> the key stream,
  \<open>VerifyKeys\<close> and \<open>Info\<close> a \<open>GetInfo\<close>, the deletes and tag operations the one request with
  their arguments; making, opening, using and closing key sets, \<open>UseKeys\<close>,
  \<open>InvalidateCentroidCache\<close> and \<open>Close\<close> send nothing.
\<close>

theorem calls_send_only_their_requests: "sentBy (mayCall c) w (snd (perform E c w))"
  using sent_by_call unfolding keeps_def by blast

text \<open>
  C23. After \<open>Close\<close> a client stays closed, whatever is called: every operation that needs the
  connection returns \<open>ErrClientClosed\<close>, and nothing is sent to the server, with one exception:
  \<open>Centroids\<close> does not look at the connection and still issues its \<open>GetCentroids\<close>.
\<close>

theorem closed_client_stays_closed:
  fixes w :: "'w client_world_scheme"
  assumes "\<not> cl_conn (cl w)" and "session E cs w = (rs, w')"
  shows "\<not> cl_conn (cl w') \<and> sentBy (\<lambda>m. m = RpcGetCentroids) w w' \<and>
    (CentroidsCall \<notin> set cs \<longrightarrow> sent w' = sent w) \<and>
    (\<forall>i < length cs. guarded (cs ! i) \<longrightarrow> rs ! i = Inl (Sentinel ErrClientClosed))"
proof -
  have "quiet (\<lambda>m. m = RpcGetCentroids \<and> CentroidsCall \<in> set cs) w w'"
    using session_related[OF quietly.step_relation_axioms quiet_call, of cs _ w E] assms(2) by fastforce
  then have "\<not> cl_conn (cl w') \<and> sentBy (\<lambda>m. m = RpcGetCentroids \<and> CentroidsCall \<in> set cs) w w'"
    using assms(1) by (simp add: quiet_def)
  then show ?thesis
    using closed_results[OF assms(1), of _ cs E] assms(2) by (auto simp: sentBy_def list_all_iff)
qed

theorem closed_client_stays_closed_witness:
  "fst (session sampleServer [CloseCall, DeleteCall ''a'', CloseCall] sampleClientWorld) ! 1 = Inl (Sentinel ErrClientClosed)"
proof -
  let ?w = "snd (ClientClose sampleServer sampleClientWorld)"
  have w: "\<not> cl_conn (cl ?w)" by (simp add: ClientClose_run)
  obtain rs w' where s: "session sampleServer [DeleteCall ''a'', CloseCall] ?w = (rs, w')" by fastforce
  from closed_client_stays_closed[OF w s] have "rs ! 0 = Inl (Sentinel ErrClientClosed)"
    by (metis guarded.simps(7) length_Cons nth_Cons_0 zero_less_Suc)
  moreover have "fst (session sampleServer (CloseCall # [DeleteCall ''a'', CloseCall]) sampleClientWorld) =
      fst (perform sampleServer CloseCall sampleClientWorld) # rs"
    using s by (simp split: prod.splits) (metis snd_conv fst_conv)
  ultimately show ?thesis by simp
qed

text \<open>
  C24. The centroid set of a client is fetched once. As long as \<open>InvalidateCentroidCache\<close> is not
  called, a cached set survives every sequence of calls, inserts and failures included, and
  no \<open>GetCentroids\<close> is sent again, so that \<open>Centroids\<close> and every insert route by the same set.
\<close>

theorem cached_set_is_stable:
  fixes w :: "'w client_world_scheme"
  assumes "cl_loaded (cl w)" and "cl_centroids (cl w) = Some cs" and "InvalidateCall \<notin> set calls"
  shows "cl_loaded (cl (snd (session E calls w))) \<and> cl_centroids (cl (snd (session E calls w))) = Some cs \<and>
    sentBy (\<lambda>m. m \<noteq> RpcGetCentroids) w (snd (session E calls w)) \<and>
    Centroids E (snd (session E calls w)) = (Inr (snapshot cs), snd (session E calls w))"
proof -
  have "setKept w (snd (session E calls w))"
    using session_related[OF stable.step_relation_axioms setKept_call, of calls w E] assms(3) by blast
  then show ?thesis
    using assms(1,2)
    by (simp add: setKept_def Centroids_def mapErr_def andThen_def centroidSetCached_loaded run_simps)
qed

theorem cached_set_is_stable_witness:
  "\<exists>w. Centroids sampleServer sampleClientWorld = (Inr (snapshot sampleSet), w) \<and>
     Centroids sampleServer (snd (session sampleServer [DeleteCall ''a'', CentroidsCall, CloseCall] w)) =
       (Inr (snapshot sampleSet), snd (session sampleServer [DeleteCall ''a'', CentroidsCall, CloseCall] w)) \<and>
     RpcGetCentroids \<notin> set (drop (length (sent w)) (sent (snd (session sampleServer [DeleteCall ''a'', CentroidsCall, CloseCall] w))))"
proof -
  let ?w = "snd (Centroids sampleServer sampleClientWorld)" and ?c = "[DeleteCall ''a'', CentroidsCall, CloseCall]"
  have first: "\<not> cl_loaded (cl sampleClientWorld)" by (simp add: sampleClientWorld_def)
  have fetch: "Centroids sampleServer sampleClientWorld = (Inr (snapshot sampleSet), ?w)"
    "cl_loaded (cl ?w)" "cl_centroids (cl ?w) = Some sampleSet"
    by (simp_all add: Centroids_def mapErr_def andThen_def centroidSetCached_fetch[OF first] sampleServer_answer run_simps Let_def)
  have "InvalidateCall \<notin> set ?c" by simp
  note stable = cached_set_is_stable[OF fetch(2,3) this, of sampleServer]
  from stable obtain new where "sent (snd (session sampleServer ?c ?w)) = sent ?w @ new" "list_all (\<lambda>m. m \<noteq> RpcGetCentroids) new"
    unfolding sentBy_def by blast
  then have "RpcGetCentroids \<notin> set (drop (length (sent ?w)) (sent (snd (session sampleServer ?c ?w))))"
    by (auto simp: list_all_iff)
  with stable fetch(1) show ?thesis by blast
qed

text \<open>
  The pointer to the centroid set is never nil where it is dereferenced: starting from a
  freshly dialled client, after any sequence of calls, \<open>centroidSetCached\<close> returns an error
  or a set, so \<open>Centroids\<close> cannot panic.
\<close>

theorem centroid_pointer_is_never_nil:
  fixes w :: "'w client_world_scheme"
  assumes "cl w = freshClient"
  shows "fst (centroidSetCached E (snd (session E calls w))) \<noteq> Inr None"
proof -
  have "cacheOK (cl (snd (session E calls w)))"
    using session_related[OF sound.step_relation_axioms cacheSound_call, of w E calls] assms
    by (simp add: cacheSound_def cacheOK_def freshClient_def)
  then show ?thesis
    by (cases "cl_loaded (cl (snd (session E calls w)))")
      (auto simp: cacheOK_def centroidSetCached_loaded centroidSetCached_fetch Let_def split: sum.split)
qed

theorem centroid_pointer_is_never_nil_witness:
  "fst (centroidSetCached sampleServer (snd (session sampleServer [InvalidateCall, CentroidsCall] storedClientWorld))) \<noteq> Inr None"
proof -
  have "cl storedClientWorld = freshClient" by (simp add: storedClientWorld_def)
  then show ?thesis by (rule centroid_pointer_is_never_nil)
qed

text \<open>
  C27. Recovery from a version mismatch. After \<open>InvalidateCentroidCache\<close> the next successful
  \<open>Insert\<close> has first fetched the centroid set again, and what it sends carries the cluster
  and the version of the set the server answered now, whatever was cached before.
\<close>

theorem insert_after_invalidation_refetches:
  fixes w :: "'w client_world_scheme"
  assumes "Insert E vec metadata (map WithFilterTags tags) (snd (InvalidateCentroidCache w)) = (Inr i, w')"
  shows "\<exists>t cs n req mm. centroidsAnswer E (sent w) t = Inr cs \<and> cl_centroids (cl w') = Some cs \<and>
    0 < n \<and> n \<le> 3 \<and> sent w' = sent w @ RpcGetCentroids # replicate n (RpcInsert req) \<and>
    ir_id req = i \<and> ir_mm_item req = Some mm \<and> mm_set_version mm = cs_version cs \<and>
    mm_cluster_id mm = assign cs (l2normalize vec)"
proof -
  let ?w = "snd (InvalidateCentroidCache w)" and ?opts = "map WithFilterTags tags"
  have w: "\<not> cl_loaded (cl ?w)" "sent ?w = sent w" by (simp_all add: Invalidate_run)
  have "insertRefusal ?w vec metadata = None"
    using assms Insert_refused[of ?w vec metadata _ E ?opts] by (cases "insertRefusal ?w vec metadata") auto
  from assms this show ?thesis
  proof (cases rule: Insert_outcome)
    case (sending i' rmp mm cs n)
    let ?req = "preEncryptedRequest (routedItem i' rmp mm cs (l2normalize vec) metadata)"
    have "\<exists>tags'. applyInsertOptions ?opts ?req = ?req\<lparr>ir_filter_tags := tags'\<rparr>"
      by (rule applyTags_fields) auto
    then obtain tags' where "applyInsertOptions ?opts ?req = ?req\<lparr>ir_filter_tags := tags'\<rparr>" by blast
    moreover obtain t where "centroidsAnswer E (sent w) t = Inr cs" using sending(8) w by auto
    ultimately show ?thesis
      using sending w
      by (intro exI[of _ t] exI[of _ cs] exI[of _ n] exI[of _ "?req\<lparr>ir_filter_tags := tags'\<rparr>"]
          exI[of _ "\<lparr>mm_item = mm, mm_cluster_id = assign cs (l2normalize vec), mm_set_version = cs_version cs\<rparr>"])
        (simp add: fetched_def preEncryptedRequest_def routedItem_def)
  qed simp_all
qed

text \<open>The sample client with an older set in its cache.\<close>

definition staleWorld :: client_world where
  "staleWorld = sampleClientWorld\<lparr>cl := (cl sampleClientWorld)\<lparr>
     cl_centroids := Some (sampleSet\<lparr>cs_version := ''old''\<rparr>), cl_loaded := True\<rparr>\<rparr>"

theorem insert_after_invalidation_refetches_witness:
  "\<exists>w' n req mm. Insert sampleServer [Num 1, Num 0] ''{}'' (map WithFilterTags [[''t'']])
      (snd (InvalidateCentroidCache staleWorld)) = (Inr ''uuid'', w') \<and> 0 < n \<and>
    sent w' = RpcGetCentroids # replicate n (RpcInsert req) \<and>
    ir_mm_item req = Some mm \<and> mm_set_version mm = cs_version sampleSet"
proof -
  have "snd (InvalidateCentroidCache staleWorld) = sampleClientWorld"
    by (simp add: Invalidate_run staleWorld_def sampleClientWorld_def)
  then obtain w' where run: "Insert sampleServer [Num 1, Num 0] ''{}'' (map WithFilterTags [[''t'']])
      (snd (InvalidateCentroidCache staleWorld)) = (Inr ''uuid'', w')"
    using sample_insert by auto
  have "sent staleWorld = []" by (simp add: staleWorld_def sampleClientWorld_def)
  with insert_after_invalidation_refetches[OF run] run show ?thesis
    unfolding sampleServer_answer by auto
qed

end
