(* ===== verification/Disk_Frames.thy ===== *)
theory Disk_Frames
  imports Client_Session
begin

text \<open>
  What a session leaves alone on disk: the calls of the package write below the temporary
  directory only, \<open>GenerateKeys\<close> excepted, and that one on its key paths only.
\<close>

section \<open>The temporary directory\<close>

definition tempPaths :: "gopath set" where
  "tempPaths = {p. isInside tempRoot p}"

lemma tempPaths_join [simp]: "joinPath tempRoot n \<in> tempPaths"
  by (simp add: tempPaths_def)

lemma isInside_trans: "isInside a b \<Longrightarrow> isInside b c \<Longrightarrow> isInside a c"
  by (cases a; cases b; cases c) (auto simp: take_eq_Nil, (metis min.absorb1 less_imp_le take_take)?)

lemma keeps_staging:
  "tempPaths \<subseteq> A \<Longrightarrow> keeps (touchesOnly A) (osMkdirTemp E)"
  "tempPaths \<subseteq> A \<Longrightarrow> keeps (touchesOnly A) (osCreateTemp E)"
  by (auto simp: osMkdirTemp_def osCreateTemp_def Let_def touchesOnly_nodes
      intro!: keeps_syscall touchesOnly_put subsetD[OF _ tempPaths_join])

lemma returns_staging: "returns (osMkdirTemp E) (\<lambda>p. p \<in> tempPaths)" "returns (osCreateTemp E) (\<lambda>p. p \<in> tempPaths)"
  using tempPaths_join
  by (auto simp: returns_def osMkdirTemp_def osCreateTemp_def syscall_def Let_def simp del: split_paired_All
      split: option.splits if_splits)

lemma inStage_temp: "stage \<in> tempPaths \<Longrightarrow> inStage stage \<subseteq> tempPaths"
  by (auto simp: inStage_def tempPaths_def intro: isInside_trans)

lemma keeps_removeAll: "inStage p \<subseteq> A \<Longrightarrow> keeps (touchesOnly A) (osRemoveAll E p)"
  unfolding osRemoveAll_def
  by (rule keeps_syscall)
    (auto simp: touchesOnly_def fstore.same_outside_def nodeAt_removeAll inStage_def)

section \<open>Opening and reading\<close>

lemma keeps_openKeyBundle: "tempPaths \<subseteq> A \<Longrightarrow> keeps (touchesOnly A) (openKeyBundle E opts kind)"
proof -
  assume A: "tempPaths \<subseteq> A"
  obtain a b c where p: "resolveKeyParts (Parts opts) = (a, b, c)" by (cases "resolveKeyParts (Parts opts)")
  have join: "joinPath st n \<in> A" if "st \<in> tempPaths" for st n
    using inStage_temp[OF that] A isInside_joinPath[of st n] unfolding inStage_def by blast
  have all: "inStage st \<subseteq> A" if "st \<in> tempPaths" for st using inStage_temp[OF that] A by blast
  show ?thesis
    unfolding openKeyBundle_def p Let_def prod.case
    by (rule touching.keeps_andThen_when[OF touching.keeps_mapErr[OF keeps_staging(1)[OF A]] returns_mapErr[OF returns_staging(1)]])
      (intro touching.keeps_rules touching.ignoring_related keeps_removeAll keeps_materialise frame_intros keeps_constructors
        touches_closers join all; assumption)
qed

lemma touches_client: "touchesOnly A w (w\<lparr>k_objs := ks\<rparr>)"
  by (simp add: touchesOnly_nodes)

lemma keeps_OpenKeys: "tempPaths \<subseteq> A \<Longrightarrow> keeps (touchesOnly A) (OpenKeys E opts)"
  unfolding OpenKeys_def Let_def newKeys_def
  by (intro touching.keeps_rules keeps_openKeyBundle touches_closers)
    (auto intro!: keepsI touchesOnly_nodes)

definition stagedIn :: "gopath set \<Rightarrow> evalReader \<Rightarrow> bool" where
  "stagedIn A r \<longleftrightarrow> set_option (er_tmp r) \<subseteq> A"

lemma keeps_statOpen: "keeps (touchesOnly A) (statOpen E f)"
  unfolding statOpen_def by (rule keeps_syscall) (simp add: touching.R_refl)

lemma keeps_reader: "tempPaths \<subseteq> A \<Longrightarrow> keeps (touchesOnly A) (openEvalKeyReader E dir)"
proof -
  assume A: "tempPaths \<subseteq> A"
  have staged: "keeps (touchesOnly A) (andThen (mapErr f (osCreateTemp E)) (\<lambda>tmp.
      andThen (attempt (osClose E)) (\<lambda>(_ :: err + unit).
      onFailure (ignoring (osRemove E tmp))
        (andThen (mapErr g (UnwrapEvalKey E src tmp)) (\<lambda>_.
         andThen (osOpen E tmp) (\<lambda>h.
         andThen (onFailure (ignoring (osClose E)) (statOpen E h)) (\<lambda>n.
         ret \<lparr>er_node = h, er_size = n, er_tmp = Some tmp\<rparr>)))))))" for f g src
    by (rule touching.keeps_andThen_when[OF touching.keeps_mapErr[OF keeps_staging(2)[OF A]] returns_mapErr[OF returns_staging(2)]])
      (intro touching.keeps_rules touching.ignoring_related frame_intros keeps_statOpen subsetD[OF A]; assumption)
  show ?thesis
    unfolding openEvalKeyReader_def
    by (auto intro!: touching.keeps_rules touching.ignoring_related frame_intros keeps_statOpen staged
        split: option.split prod.split)
qed

lemma returns_reader: "returns (openEvalKeyReader E dir) (stagedIn tempPaths)"
proof -
  have plain: "returns (andThen m (\<lambda>f. andThen (k f) (\<lambda>n. ret \<lparr>er_node = f, er_size = n, er_tmp = None\<rparr>))) (stagedIn tempPaths)"
    for m and k :: "node \<Rightarrow> (err, 'a cgo_world_scheme, int) io"
    by (intro returns_andThen[OF returns_any] returns_pure) (simp add: stagedIn_def)
  have staged: "returns (andThen (mapErr f (osCreateTemp E)) (\<lambda>tmp.
      andThen m1 (\<lambda>_. onFailure (c tmp) (andThen (m2 tmp) (\<lambda>_. andThen (m3 tmp) (\<lambda>h. andThen (m4 h) (\<lambda>n.
         ret \<lparr>er_node = h, er_size = n, er_tmp = Some tmp\<rparr>))))))) (stagedIn tempPaths)"
    for f c and m1 :: "(err, 'a cgo_world_scheme, err + unit) io" and m2 :: "gopath \<Rightarrow> (err, 'a cgo_world_scheme, unit) io" and m3 m4
    by (rule returns_andThen[OF returns_mapErr[OF returns_staging(2)]], rule returns_andThen[OF returns_any],
        rule returns_onFailure, (rule returns_andThen[OF returns_any])+, rule returns_pure) (simp add: stagedIn_def)
  show ?thesis
    unfolding openEvalKeyReader_def
    by (rule returns_andThen[OF returns_any])
      (auto intro: returns_pure plain staged split: option.split prod.split)
qed

lemma touches_cleanup: "stagedIn A r \<Longrightarrow> touchesOnly A w (readerCleanup E r w)"
proof -
  assume s: "stagedIn A r"
  have c: "touchesOnly A v (ignoring (osClose E) v)" for v by (intro touching.ignoring_related frame_intros)
  show ?thesis
  proof (cases "er_tmp r")
    case None
    then show ?thesis using c by (simp add: readerCleanup_def Let_def)
  next
    case (Some p)
    then have "touchesOnly A (ignoring (osClose E) w) (ignoring (osRemove E p) (ignoring (osClose E) w))"
      using s by (intro touching.ignoring_related frame_intros) (simp add: stagedIn_def)
    then show ?thesis using Some touching.R_trans[OF c] by (simp add: readerCleanup_def Let_def)
  qed
qed

section \<open>Every call\<close>

lemma touches_use:
  "keeps (touchesOnly A) (EncryptSingle E e vec ty)" "keeps (touchesOnly A) (EncryptRow E e vec ty level)"
  "keeps (touchesOnly A) (DecryptSearchResult E d blob)"
  unfolding EncryptSingle_def EncryptRow_def DecryptSearchResult_def
  by (auto intro!: touching.keeps_rules frame_intros simp: Let_def split: option.split)

lemma touches_keys_use:
  "keeps (touchesOnly A) (EncryptFlat E k vec)" "keeps (touchesOnly A) (EncryptClustered E k vec)"
  "keeps (touchesOnly A) (DecryptResult E k blob)" "keeps (touchesOnly A) (DecryptClustered E k blob)"
  unfolding EncryptFlat_def EncryptClustered_def DecryptResult_def DecryptClustered_def
  by (auto intro!: keepsI simp: run_simps touching.R_refl touches_use[unfolded keeps_def, rule_format] split: option.split)

interpretation disk: client_relation "touchesOnly tempPaths" E "\<lambda>_. True" "stagedIn tempPaths" for E
  by unfold_locales
    (rule touches_keys_use keeps_reader[OF order_refl] returns_reader touches_cleanup touchesOnly_nodes | simp | assumption)+

text \<open>Where a call may write.\<close>

fun mayWrite :: "api_call \<Rightarrow> gopath set" where
  "mayWrite (GenerateKeysCall opts) = keyPaths (buildKeysOptions opts)"
| "mayWrite _ = tempPaths"

lemma keeps_touches_mono: "keeps (touchesOnly A) m \<Longrightarrow> A \<subseteq> B \<Longrightarrow> keeps (touchesOnly B) m"
  unfolding keeps_def using touchesOnly_mono by blast

lemma touches_KeysClose: "keeps (touchesOnly A) (KeysClose k)"
proof (rule keepsI)
  fix w :: "'a keys_world_scheme"
  have closed: "touchesOnly A v (snd (closeOpt b v))" for b and v :: "'a keys_world_scheme"
    using touches_closers(2)[of A v "the b"] touching.R_refl[of A v]
    by (cases b) (auto simp: closeOpt_def split: prod.split)
  show "touchesOnly A w (snd (KeysClose k w))"
  proof (cases "keysAt w k")
    case None
    then show ?thesis by (simp add: KeysClose_def touching.R_refl split: option.split)
  next
    case (Some ks)
    obtain rmp w1 where 1: "closeOpt (k_rmp ks) w = (rmp, w1)" by fastforce
    obtain mm w2 where 2: "closeOpt (k_mm ks) w1 = (mm, w2)" by fastforce
    have "touchesOnly A w w2"
      using touching.R_trans[OF closed[of w "k_rmp ks"]] closed[of w1 "k_mm ks"] by (simp add: 1 2)
    then show ?thesis using Some 1 2 by (auto simp: KeysClose_def keysAt_def touchesOnly_def split: option.splits)
  qed
qed

lemma touches_perform: "keeps (touchesOnly (mayWrite c)) (perform E c)"
proof (cases "framed c")
  case True
  then have "mayWrite c = tempPaths" by (cases c) simp_all
  with True show ?thesis by (simp add: disk.keeps_framed)
next
  case False
  have "keeps (touchesOnly A) (ClientClose E)" "keeps (touchesOnly A) InvalidateCentroidCache" for A
    by (rule keepsI; rule touchesOnly_nodes;
        simp add: ClientClose_def InvalidateCentroidCache_def andThen_def setClient_def run_simps)+
  then show ?thesis
    using False by (cases c) (simp_all add: keeps_GenerateKeys touching.keeps_forget keeps_OpenKeys touches_KeysClose)
qed

section \<open>Property\<close>

text \<open>
  C15. What a session writes to disk. Whatever is called in whatever order, and whatever the library,
  the file system and the server do, files and directories are created, changed and removed below the
  temporary directory and, for each call of \<open>GenerateKeys\<close>, at its key paths: the two tier
  directories, those leading to them, and in each the six key files and the secret key's temporary
  file. In particular only \<open>GenerateKeys\<close> can change a key set that is on disk.
\<close>

theorem session_writes_only_key_paths:
  "touchesOnly (tempPaths \<union> (\<Union>c \<in> set cs. mayWrite c)) w (snd (session E cs w))"
proof (rule session_related[OF touching.step_relation_axioms])
  show "keeps (touchesOnly (tempPaths \<union> (\<Union>c \<in> set cs. mayWrite c))) (perform E c)" if "c \<in> set cs" for c
    by (rule keeps_touches_mono[OF touches_perform]) (use that in blast)
qed

end
