(* ===== verification/Example_Programs.thy ===== *)
theory Example_Programs
  imports Session_Properties Disk_Frames
begin

text \<open>
  The two programs under \<open>examples/\<close>, \<open>quickstart\<close> and \<open>filtertags\<close>: how the parts of the
  package are meant to be put together. A program ends normally or in \<open>log.Fatalf\<close>, which exits
  the process at once, so that its deferred calls do not run. What it prints is left out.
\<close>

section \<open>The host\<close>

text \<open>\<open>norm_float64 seed k\<close> is the \<open>k\<close>-th \<open>NormFloat64\<close> of the generator with that seed.\<close>

record host =
  getenv :: "string \<Rightarrow> string"
  norm_float64 :: "int \<Rightarrow> nat \<Rightarrow> gofloat"

definition envOr :: "host \<Rightarrow> string \<Rightarrow> string \<Rightarrow> string" where
  "envOr H key def = (if getenv H key \<noteq> [] then getenv H key else def)"

text \<open>\<open>strconv.Atoi\<close>: a sign and decimal digits, in the range of \<open>int\<close>.\<close>

definition isDigit :: "char \<Rightarrow> bool" where
  "isDigit c \<longleftrightarrow> (48 :: nat) \<le> of_char c \<and> of_char c \<le> (57 :: nat)"

definition digitsValue :: "string \<Rightarrow> int" where
  "digitsValue cs = foldl (\<lambda>n c. 10 * n + (of_char c - 48)) 0 cs"

definition atoi :: "string \<Rightarrow> int option" where
  "atoi s =
     (let neg = (s \<noteq> [] \<and> hd s = CHR ''-'');
          body = (if s \<noteq> [] \<and> (hd s = CHR ''-'' \<or> hd s = CHR ''+'') then tl s else s);
          n = (if neg then - digitsValue body else digitsValue body)
      in if body \<noteq> [] \<and> list_all isDigit body \<and> is_int64 n then Some n else None)"

definition envInt :: "host \<Rightarrow> string \<Rightarrow> int \<Rightarrow> int" where
  "envInt H key def =
     (if getenv H key \<noteq> []
      then (case atoi (getenv H key) of Some n \<Rightarrow> if n > 0 then n else def | None \<Rightarrow> def)
      else def)"

text \<open>
  The vector drawn from position \<open>start\<close> of the generator on, as both programs have it. The sum
  of squares rounds twice per element, as on targets that do not fuse the multiplication.
\<close>

fun normLoop :: "gofloat list \<Rightarrow> gofloat \<Rightarrow> gofloat" where
  "normLoop [] acc = acc"
| "normLoop (x # xs) acc = normLoop xs (fadd f64 acc (fmul f64 x x))"

definition genVec :: "host \<Rightarrow> int \<Rightarrow> nat \<Rightarrow> int \<Rightarrow> gofloat list" where
  "genVec H seed start n =
     (let xs = map (\<lambda>i. norm_float64 H seed (start + i)) [0..<nat n];
          root = fsqrt (normLoop xs (Num 0));
          norm = (if isZero root then Num 1 else root)
      in map (\<lambda>x. toF32 (fdiv f64 (toF32 x) norm)) xs)"

section \<open>Ending a program\<close>

type_synonym fatal = "string \<times> err"

definition orFatal :: "string \<Rightarrow> (err, 'w, 'a) io \<Rightarrow> (fatal, 'w, 'a) io" where
  "orFatal what m = mapErr (\<lambda>e. (what, e)) m"

text \<open>\<open>defer\<close> in \<open>main\<close>: it runs on return only.\<close>

definition onReturn :: "('w \<Rightarrow> 'w) \<Rightarrow> (fatal, 'w, 'a) io \<Rightarrow> (fatal, 'w, 'a) io" where
  "onReturn c m w = (case m w of (Inl e, w') \<Rightarrow> (Inl e, w') | (Inr x, w') \<Rightarrow> (Inr x, c w'))"

section \<open>The programs\<close>

definition exampleAddr :: "host \<Rightarrow> string" where
  "exampleAddr H = envOr H ''RUNESPACE_ADDR'' ''127.0.0.1:51024''"

definition exampleDim :: "host \<Rightarrow> int" where
  "exampleDim H = envInt H ''RUNESPACE_DIM'' 128"

definition exampleKeys :: "host \<Rightarrow> KeysOption list" where
  "exampleKeys H =
     [WithKeyPath (envOr H ''RUNESPACE_KEYS'' ''./rs-keys''), WithKeyID ''example'', WithKeyDim (exampleDim H)]"

definition exampleDial :: "host \<Rightarrow> ('r, 's) ClientOption list" where
  "exampleDial H = WithInsecure #
     (if getenv H ''RUNESPACE_TOKEN'' \<noteq> [] then [WithAccessToken (getenv H ''RUNESPACE_TOKEN'')] else [])"

text \<open>Opening the key set, and dialling, each with its deferred close.\<close>

definition withOpenKeys :: "'e cgo_env_scheme \<Rightarrow> KeysOption list \<Rightarrow> (nat \<Rightarrow> (fatal, 'w keys_world_scheme, unit) io) \<Rightarrow>
    (fatal, 'w keys_world_scheme, unit) io" where
  "withOpenKeys E opts body =
     andThen (orFatal ''OpenKeys'' (OpenKeys E opts)) (\<lambda>k. onReturn (ignoring (KeysClose (Some k))) (body k))"

definition dialClient :: "('p, 'r, 's) dial_env \<Rightarrow> string \<Rightarrow> ('r, 's) ClientOption list \<Rightarrow>
    (err, 'w client_world_scheme, unit) io" where
  "dialClient D addr opts w =
     (case Dial D addr opts of Inl e \<Rightarrow> (Inl e, w) | Inr (c, _) \<Rightarrow> (Inr (), w\<lparr>cl := c\<rparr>))"

definition withClient :: "'e client_env_scheme \<Rightarrow> ('p, 'r, 's) dial_env \<Rightarrow> host \<Rightarrow>
    (fatal, 'w client_world_scheme, unit) io \<Rightarrow> (fatal, 'w client_world_scheme, unit) io" where
  "withClient E D H body =
     andThen (orFatal ''Dial'' (dialClient D (exampleAddr H) (exampleDial H))) (\<lambda>_.
     onReturn (ignoring (ClientClose E)) body)"

definition helloMetadata :: string where
  "helloMetadata = ''{'' @ [CHR 0x22] @ ''title'' @ [CHR 0x22] @ '':'' @ [CHR 0x22] @ ''hello'' @ [CHR 0x22] @ ''}''"

text \<open>The calls of the two programs between \<open>Dial\<close> and the end.\<close>

definition quickstartBody :: "'e client_env_scheme \<Rightarrow> host \<Rightarrow> nat \<Rightarrow> (fatal, 'w client_world_scheme, unit) io" where
  "quickstartBody E H k =
     (andThen (orFatal ''Info'' (Info E)) (\<lambda>_.
      andThen (orFatal ''RegisterKeys'' (RegisterKeys E (Some k))) (\<lambda>_.
      andThen (orFatal ''UseKeys'' (UseKeys (Some k))) (\<lambda>_.
      let v = genVec H 1 0 (exampleDim H) in
      andThen (orFatal ''Insert'' (Insert E v helloMetadata [])) (\<lambda>_.
      andThen (orFatal ''Search'' (Search E v 5 [])) (\<lambda>_. ret ()))))))"

definition filtertagsBody :: "'e client_env_scheme \<Rightarrow> host \<Rightarrow> nat \<Rightarrow> (fatal, 'w client_world_scheme, unit) io" where
  "filtertagsBody E H k =
     (let n = exampleDim H; d = nat n; vec = (\<lambda>start. genVec H 2 start n) in
      andThen (orFatal ''RegisterKeys'' (RegisterKeys E (Some k))) (\<lambda>_.
      andThen (orFatal ''UseKeys'' (UseKeys (Some k))) (\<lambda>_.
      andThen (orFatal ''insert a'' (Insert E (vec 0) ''{}'' [WithFilterTags [''team1'']])) (\<lambda>a.
      andThen (orFatal ''insert b'' (Insert E (vec d) ''{}'' [WithFilterTags [''team1'']])) (\<lambda>b.
      andThen (orFatal ''insert c'' (Insert E (vec (2 * d)) ''{}'' [WithFilterTags [''team2'']])) (\<lambda>_.
      andThen (orFatal ''scoped search'' (Search E (vec (2 * d)) 10 [WithScope [''team1'']])) (\<lambda>_.
      andThen (orFatal ''UpdateTags'' (UpdateTags E a [''team2''] [''team1''])) (\<lambda>_.
      andThen (orFatal ''RetagAll'' (RetagAll E ''team1'' ''team3'')) (\<lambda>_.
      andThen (orFatal ''RemoveTag'' (RemoveTag E ''team2'')) (\<lambda>_. ret ()))))))))))"

text \<open>\<open>quickstart\<close> generates a key set only when there is none.\<close>

definition keysReady :: "'e cgo_env_scheme \<Rightarrow> host \<Rightarrow> (fatal, 'w cgo_world_scheme, unit) io" where
  "keysReady E H =
     andThen (attempt (KeysExist E (exampleKeys H))) (\<lambda>exists.
     if exists \<noteq> Inr True then orFatal ''GenerateKeys'' (GenerateKeys E (exampleKeys H)) else ret ())"

text \<open>The frame the two share: make sure of the key set, open it, dial.\<close>

definition program :: "(fatal, 'w client_world_scheme, unit) io \<Rightarrow> 'e client_env_scheme \<Rightarrow> ('p, 'r, 's) dial_env \<Rightarrow> host \<Rightarrow>
    (nat \<Rightarrow> (fatal, 'w client_world_scheme, unit) io) \<Rightarrow> (fatal, 'w client_world_scheme, unit) io" where
  "program ready E D H body =
     andThen ready (\<lambda>_. withOpenKeys E (exampleKeys H) (\<lambda>k. withClient E D H (body k)))"

definition quickstart :: "'e client_env_scheme \<Rightarrow> ('p, 'r, 's) dial_env \<Rightarrow> host \<Rightarrow>
    (fatal, 'w client_world_scheme, unit) io" where
  "quickstart E D H = program (keysReady E H) E D H (quickstartBody E H)"

definition filtertags :: "'e client_env_scheme \<Rightarrow> ('p, 'r, 's) dial_env \<Rightarrow> host \<Rightarrow>
    (fatal, 'w client_world_scheme, unit) io" where
  "filtertags E D H =
     program (orFatal ''GenerateKeys'' (GenerateKeys E (exampleKeys H))) E D H (filtertagsBody E H)"

section \<open>Ending and relations\<close>

context step_relation
begin

lemma keeps_orFatal: "keeps R m \<Longrightarrow> keeps R (orFatal what m)"
  unfolding orFatal_def by (rule keeps_mapErr)

lemma keeps_onReturn: "keeps R m \<Longrightarrow> (\<And>s. R s (c s)) \<Longrightarrow> keeps R (onReturn c m)"
  unfolding keeps_def onReturn_def by (auto split: prod.split sum.split) (metis R_trans snd_conv)+

lemmas program_rules = keeps_rules keeps_orFatal

end

section \<open>The bodies are framed\<close>

context client_relation
begin

lemma keeps_bodies:
  assumes "\<And>m. P m"
  shows "keeps R (quickstartBody E H k)" and "keeps R (filtertagsBody E H k)"
proof -
  have bind: "keeps R (UseKeys k)" for k by (rule keepsI) (simp add: UseKeys_def setClient_def run_simps on_bind)
  show "keeps R (quickstartBody E H k)" "keeps R (filtertagsBody E H k)"
    unfolding quickstartBody_def filtertagsBody_def Let_def
    by (intro program_rules bind keeps_RegisterKeys keeps_Insert keeps_Search keeps_simple assms)+
qed

end

lemma keeps_client_parts:
  "keeps handlesKept (dialClient D addr opts)" "keeps handlesKept (ClientClose E)"
  "keeps (touchesOnly A) (dialClient D addr opts)" "keeps (touchesOnly A) (ClientClose E)"
  by (rule kept_quiet keepsI, (rule touchesOnly_nodes)?;
      simp add: dialClient_def ClientClose_def andThen_def setClient_def run_simps split: sum.split)+

section \<open>C objects of a program\<close>

lemma kept_withClient: "keeps handlesKept m \<Longrightarrow> keeps handlesKept (withClient E D H m)"
  unfolding withClient_def
  by (intro kept.program_rules kept.keeps_onReturn kept.ignoring_related keeps_client_parts)

lemma withClient_closed: "withClient E D H m w = (Inr x, w') \<Longrightarrow> \<not> cl_conn (cl w')"
  unfolding withClient_def
  by (elim andThen_InrE) (auto simp: onReturn_def ignoring_def ClientClose_run split: prod.splits sum.splits)

lemma program_objects:
  fixes w :: "'w client_world_scheme"
  assumes ready: "keeps handlesKept ready" and body: "\<And>k. keeps handlesKept (body k)"
    and start: "c_log w = []" "k_objs w = []" and run: "program ready E D H body w = (r, w')"
  shows "accounted w' \<and> length (k_objs w') \<le> 1 \<and>
    (r = Inr () \<longrightarrow> \<not> cl_conn (cl w') \<and> (\<forall>k \<in> set (k_objs w'). closedKeys k))"
proof -
  have kept: "accounted v' \<and> k_objs v' = k_objs v" if "handlesKept v v'" "accounted v" for v v' :: "'w client_world_scheme"
    using kept_accounts[OF that(1)] that by (simp add: accounts_def handlesKept_def)
  have ok: "accounted w" by (rule accounted_fresh[OF start])
  from run show ?thesis
    unfolding program_def
  proof (cases rule: andThen_cases)
    case (first e)
    then show ?thesis using kept[OF keepsD[OF ready first(1)] ok] start by simp
  next
    case (second u w1)
    note 1 = kept[OF keepsD[OF ready second(1)] ok]
    from second(2) show ?thesis
      unfolding withOpenKeys_def
    proof (cases rule: andThen_cases)
      case (first e)
      then obtain e' where o: "OpenKeys E (exampleKeys H) w1 = (Inl e', w')"
        by (auto simp: orFatal_def mapErr_def split: prod.splits sum.splits)
      have "accounted w'" using accounts_OpenKeys[of w1 E "exampleKeys H"] 1 by (simp add: o accounts_def)
      moreover have "holding (owned w1) w1" using 1 by (simp add: accounted_def)
      from o this have "k_objs w' = k_objs w1" by (cases rule: OpenKeys_cases) simp_all
      ultimately show ?thesis using first(2) 1 start by simp
    next
      case (second k w2)
      then have o: "OpenKeys E (exampleKeys H) w1 = (Inr k, w2)" unfolding orFatal_def by (blast dest: mapErr_InrE)
      have 2: "accounted w2" using accounts_OpenKeys[of w1 E "exampleKeys H"] 1 by (simp add: o accounts_def)
      have "holding (owned w1) w1" using 1 by (simp add: accounted_def)
      from o this have k: "k = 0" "length (k_objs w2) = 1" using 1 start by (cases rule: OpenKeys_cases; simp)+
      obtain r3 w3 where b: "withClient E D H (body k) w2 = (r3, w3)" by fastforce
      note 3 = kept[OF keepsD[OF kept_withClient[OF body] b] 2]
      show ?thesis
      proof (cases r3)
        case (Inl e)
        then show ?thesis using second(2) b 3 k by (auto simp: onReturn_def)
      next
        case (Inr x)
        then have w': "w' = snd (KeysClose (Some 0) w3)" using second(2) b k by (auto simp: onReturn_def ignoring_def)
        have "\<not> cl_conn (cl w3)" using withClient_closed b Inr by blast
        moreover have "cl w' = cl w3" using aloof_keys(3)[of "Some 0"] unfolding w' by (auto simp: keeps_def aloof_def)
        moreover have "accounted w'" using accounts_KeysClose[of w3 "Some 0"] 3 unfolding w' by (simp add: accounts_def)
        moreover have "length (k_objs w') = 1" using KeysClose_closes(1)[of 0 w3] 3 k unfolding w' by simp
        moreover have "closedKeys (k_objs w' ! 0)" using KeysClose_closes(2)[of 0 w3 0] 3 k unfolding w' by simp
        ultimately show ?thesis by (metis One_nat_def in_set_conv_nth less_Suc0 order_refl)
      qed
    qed
  qed
qed

lemma keysReady_related:
  fixes R :: "'w cgo_world_scheme \<Rightarrow> 'w cgo_world_scheme \<Rightarrow> bool"
  assumes R: "step_relation R" and stat: "\<And>p. keeps R (osStat E p)"
    and gen: "keeps R (GenerateKeys E (exampleKeys H))"
  shows "keeps R (keysReady E H)"
proof -
  note rules = step_relation.keeps_rules[OF R] step_relation.keeps_orFatal[OF R]
  have slots: "keeps R (allSlots E dir ss)" for dir ss
    by (induction ss) (auto simp: slotPresent_def resolveKeySlot_def intro!: rules stat)
  have "keeps R (KeysExist E opts)" for opts
    unfolding KeysExist_def Let_def
    by (cases "resolveKeyParts (Parts (buildKeysOptions opts))") (simp only: prod.case, intro rules slots)
  then show ?thesis unfolding keysReady_def by (intro rules gen)
qed

lemma kept_keysReady: "keeps handlesKept (keysReady E H)"
  by (rule keysReady_related[OF kept.step_relation_axioms kept_os(1) kept_GenerateKeys])

lemma program_cases:
  fixes w :: "'w client_world_scheme"
  assumes "m = quickstart E D H \<or> m = filtertags E D H" and "c_log w = []" and "k_objs w = []" and "m w = (r, w')"
  shows "accounted w' \<and> length (k_objs w') \<le> 1 \<and>
    (r = Inr () \<longrightarrow> \<not> cl_conn (cl w') \<and> (\<forall>k \<in> set (k_objs w'). closedKeys k))"
  using assms(1)
proof
  assume "m = quickstart E D H"
  then show ?thesis
    using program_objects[OF kept_keysReady objects.keeps_bodies(1) assms(2,3)] assms(4)
    by (simp add: quickstart_def)
next
  assume "m = filtertags E D H"
  then show ?thesis
    using program_objects[OF kept.keeps_orFatal[OF kept_GenerateKeys] objects.keeps_bodies(2) assms(2,3)] assms(4)
    by (simp add: filtertags_def)
qed

section \<open>The key set on disk\<close>

lemma exampleDim_pos: "0 < exampleDim H"
  by (simp add: exampleDim_def envInt_def split: option.split)

lemma exampleKeys_build:
  "buildKeysOptions (exampleKeys H) = \<lparr>Path = envOr H ''RUNESPACE_KEYS'' ''./rs-keys'', KeyID = ''example'',
     Dim = exampleDim H, Parts = [], FlatMode = []\<rparr>"
  by (simp add: exampleKeys_def buildKeysOptions_def zeroKeysOptions_def keys_option_defs)

lemma exampleKeys_valid: "validate (buildKeysOptions (exampleKeys H)) = Inr ()"
  by (simp add: validate_ok exampleKeys_build exampleDim_pos envOr_def normalized_def rune_eval)

lemma KeysExist_true:
  assumes "reliable E" and "KeysExist E opts w = (Inr True, w')" and "Parts (buildKeysOptions opts) = []"
  shows "anySlotIn (nodes w) (rmpDirOf (buildKeysOptions opts))"
proof -
  let ?d = "rmpDirOf (buildKeysOptions opts)"
  have "allSlots E ?d [(True, encSlot), (True, evalSlot), (True, secSlot)] w = (Inr True, w')"
    using assms(2,3) by (auto simp: KeysExist_def Let_def resolveKeyParts_def run_simps split: if_splits)
  then have "\<exists>w1. slotPresent E ?d encSlot w = (Inr True, w1)"
    by (auto elim!: andThen_InrE simp: run_simps split: if_splits)
  then show ?thesis
    using slotPresent_reliable[OF assms(1), of ?d encSlot w] by (fastforce simp: anySlotIn_def)
qed

lemma generatedIn_slot: "generatedIn st dir \<Longrightarrow> anySlotIn st dir"
  by (auto simp: generatedIn_def anySlotIn_def slotIn_def slot_defs isFile_def)

lemma anySlotIn_touches:
  assumes "touchesOnly tempPaths w w'" and "slotPaths dir \<inter> tempPaths = {}"
  shows "anySlotIn (nodes w') dir \<longleftrightarrow> anySlotIn (nodes w) dir"
  unfolding anySlotIn_paths using touchesOnly_nodeAt[OF assms(1)] assms(2) by (metis disjoint_iff)

lemma keysReady_slot:
  assumes "reliable E" and "keysReady E H w = (Inr (), w')"
  shows "anySlotIn (nodes w') (rmpDirOf (buildKeysOptions (exampleKeys H)))"
proof -
  let ?d = "rmpDirOf (buildKeysOptions (exampleKeys H))"
  obtain r w1 where e: "KeysExist E (exampleKeys H) w = (r, w1)" by fastforce
  show ?thesis
  proof (cases "r = Inr True")
    case True
    then have "w' = w1" using assms(2) e by (simp add: keysReady_def andThen_def attempt_def run_simps)
    moreover have "keeps advanced (allSlots E dir ss)" for dir ss
      by (induction ss) (auto intro!: adv.keeps_rules adv_slot)
    then have adv: "keeps advanced (KeysExist E (exampleKeys H))"
      unfolding KeysExist_def Let_def
      by (cases "resolveKeyParts (Parts (buildKeysOptions (exampleKeys H)))") (simp only: prod.case, intro adv.keeps_rules)
    have "nodes w1 = nodes w" using advanced_nodes adv e unfolding keeps_def by (metis snd_conv)
    moreover have "Parts (buildKeysOptions (exampleKeys H)) = []" by (simp add: exampleKeys_build)
    then have "anySlotIn (nodes w) ?d" by (rule KeysExist_true[OF assms(1) e[unfolded True]])
    ultimately show ?thesis by simp
  next
    case False
    then have "GenerateKeys E (exampleKeys H) w1 = (Inr (), w')"
      using assms(2) e
      by (auto simp: keysReady_def andThen_def attempt_def orFatal_def mapErr_def split: prod.splits sum.splits)
    then show ?thesis using GenerateKeys_leaves generatedIn_slot by blast
  qed
qed

lemma touches_program:
  assumes "\<And>k. keeps (touchesOnly tempPaths) (body k)"
  shows "keeps (touchesOnly tempPaths) (withOpenKeys E opts (\<lambda>k. withClient E D H (body k)))"
  unfolding withOpenKeys_def withClient_def
  by (intro touching.program_rules touching.keeps_onReturn touching.ignoring_related touches_KeysClose
      keeps_OpenKeys[OF order_refl] keeps_client_parts assms)

lemma program_slot:
  assumes "ready w = (Inr (), w1)" and "anySlotIn (nodes w1) dir" and "slotPaths dir \<inter> tempPaths = {}"
    and "\<And>k. keeps (touchesOnly tempPaths) (body k)"
  shows "anySlotIn (nodes (snd (program ready E D H body w))) dir"
proof -
  have "touchesOnly tempPaths w1 (snd (program ready E D H body w))"
    using touches_program[of body E "exampleKeys H" D H] assms(4)
    unfolding program_def keeps_def by (simp add: andThen_Inr[of ready w "()" w1] assms(1))
  from anySlotIn_touches[OF this assms(3)] assms(2) show ?thesis by simp
qed

section \<open>Properties\<close>

text \<open>
  C40. The example programs put the package together soundly. Started in a fresh process, whatever the
  library, the file system and the server do, \<open>quickstart\<close> and \<open>filtertags\<close> never use or destroy a
  dead C object; when one returns normally its client is closed and no C object is left, and
  when it ends in \<open>log.Fatalf\<close>, which skips the deferred closes, what is left is exactly what its
  one key set holds.
\<close>

theorem programs_clean_up:
  fixes w :: "'w client_world_scheme"
  assumes "c_log w = []" and "k_objs w = []" and "m = quickstart E D H \<or> m = filtertags E D H"
  shows "liveAfter (c_log (snd (m w))) = Some (\<Union> (keysHandles ` set (k_objs (snd (m w))))) \<and>
    length (k_objs (snd (m w))) \<le> 1 \<and>
    (fst (m w) = Inr () \<longrightarrow> liveAfter (c_log (snd (m w))) = Some {} \<and> \<not> cl_conn (cl (snd (m w))))"
proof -
  obtain r w' where run: "m w = (r, w')" by fastforce
  note facts = program_cases[OF assms(3,1,2) run]
  then have live: "liveAfter (c_log w') = Some (owned w')" by (simp add: accounted_def holding_def)
  have "owned w' = {}" if "r = Inr ()"
    using facts that by (auto simp: owned_def closedKeys_def dest: closed_keysHandles)
  with facts live show ?thesis by (auto simp: run owned_def)
qed

text \<open>
  \<open>filtertags\<close> runs on a fresh path only. It generates its key set unconditionally where
  \<open>quickstart\<close> checks first, under the same environment variables and the same default path:
  once \<open>quickstart\<close> has its keys ready, whatever becomes of the rest of that run, every later run
  of \<open>filtertags\<close> ends at \<open>GenerateKeys\<close> with \<open>ErrKeysAlreadyExist\<close>, having opened nothing, sent
  nothing and changed no file.
\<close>

theorem filtertags_after_quickstart_fails:
  assumes "reliable E" and "keysReady E H w = (Inr (), w1)"
    and "slotPaths (rmpDirOf (buildKeysOptions (exampleKeys H))) \<inter> tempPaths = {}"
    and "nodes w2 = nodes (snd (quickstart E D H w))"
  shows "\<exists>t. filtertags E D' H w2 = (Inl (''GenerateKeys'', Sentinel ErrKeysAlreadyExist), w2\<lparr>tick := t\<rparr>)"
proof -
  let ?o = "buildKeysOptions (exampleKeys H)"
  have "anySlotIn (nodes w2) (rmpDirOf ?o)"
    unfolding assms(4) quickstart_def
    using assms(2) keysReady_slot[OF assms(1,2)] assms(3)
    by (rule program_slot) (simp add: disk.keeps_bodies)
  then obtain w3 where w3: "advanced w2 w3"
    "GenerateKeys E (exampleKeys H) w2 = (Inl (Sentinel ErrKeysAlreadyExist), w3)"
    using GenerateKeys_guard[OF assms(1) exampleKeys_valid, where w = w2 and H1 = H] by auto
  then have "filtertags E D' H w2 = (Inl (''GenerateKeys'', Sentinel ErrKeysAlreadyExist), w3)"
    by (simp add: filtertags_def program_def orFatal_def mapErr_def andThen_def)
  then show ?thesis using w3(1) by (auto simp: advanced_def)
qed

text \<open>A host with the keys under \<open>/k\<close>, and a machine with nothing on it.\<close>

definition sampleHost :: host where
  "sampleHost = \<lparr>getenv = (\<lambda>key. if key = ''RUNESPACE_KEYS'' then ''/k'' else []), norm_float64 = (\<lambda>seed k. Num 1)\<rparr>"

definition blankWorld :: client_world where
  "blankWorld = \<lparr>tick = 0, nodes = [], c_log = [], k_objs = [], cl = freshClient, sent = []\<rparr>"

theorem programs_clean_up_witness:
  "liveAfter (c_log (snd (quickstart sampleServer sampleDialEnv sampleHost blankWorld))) =
    Some (\<Union> (keysHandles ` set (k_objs (snd (quickstart sampleServer sampleDialEnv sampleHost blankWorld)))))"
proof -
  have "c_log blankWorld = []" "k_objs blankWorld = []" by (simp_all add: blankWorld_def)
  from programs_clean_up[OF this disjI1[OF refl], of sampleServer sampleDialEnv sampleHost] show ?thesis by blast
qed

lemma sample_keys_dir:
  "rmpDirOf (buildKeysOptions (exampleKeys sampleHost)) = (True, [''k'', ''rmp''])"
  "mmDirOf (buildKeysOptions (exampleKeys sampleHost)) = (True, [''k'', ''mm''])"
  by (simp_all add: exampleKeys_build rmpDirOf_def mmDirOf_def envOr_def sampleHost_def sample_paths rmpKind_def mmKind_def)

lemma sample_ready: "\<exists>w1. keysReady sampleServer sampleHost blankWorld = (Inr (), w1)"
proof -
  obtain r w1 where e: "KeysExist sampleServer (exampleKeys sampleHost) blankWorld = (r, w1)" by fastforce
  have "vacant d []" for d by (simp add: vacant_def entriesIn_def isFile_def nodeAt_def)
  moreover have "keeps (touchesOnly {}) (KeysExist sampleServer opts)" for opts
  proof -
    have slots: "keeps (touchesOnly {}) (allSlots sampleServer dir ss)" for dir ss
      by (induction ss) (auto intro!: touching.keeps_rules frame_intros)
    show ?thesis
      unfolding KeysExist_def Let_def
      by (cases "resolveKeyParts (Parts (buildKeysOptions opts))") (simp only: prod.case, intro touching.keeps_rules slots)
  qed
  from touchesOnly_nodeAt[OF keepsD[OF this e]] have n: "nodeAt (nodes w1) p = None" for p
    by (simp add: blankWorld_def nodeAt_def)
  then have "vacant d (nodes w1)" for d by (simp add: vacant_def isFile_def entriesIn_empty_iff)
  then have "fst (GenerateKeys sampleServer (exampleKeys sampleHost) w1) = Inr ()"
    using sampleServer_usable by (intro GenerateKeys_succeeds exampleKeys_valid) (simp_all add: usable_def)
  then show ?thesis
    by (auto simp: keysReady_def andThen_def attempt_def e orFatal_def mapErr_def run_simps split: prod.split)
qed

theorem filtertags_after_quickstart_fails_witness:
  "fst (filtertags sampleServer sampleDialEnv sampleHost (snd (quickstart sampleServer sampleDialEnv sampleHost blankWorld))) =
    Inl (''GenerateKeys'', Sentinel ErrKeysAlreadyExist)"
proof -
  have r: "reliable sampleServer" using sampleServer_usable by (simp add: usable_def calm_def)
  have d: "slotPaths (rmpDirOf (buildKeysOptions (exampleKeys sampleHost))) \<inter> tempPaths = {}"
    by (auto simp: sample_keys_dir slotPaths_def tempPaths_def tempRoot_def)
  obtain w1 where k: "keysReady sampleServer sampleHost blankWorld = (Inr (), w1)" using sample_ready by blast
  show ?thesis using filtertags_after_quickstart_fails[OF r k d refl, of sampleDialEnv sampleDialEnv] by auto
qed

end
