(* ===== verification/Bundle_Lock.thy ===== *)
theory Bundle_Lock
  imports Handle_Discipline
begin

text \<open>
  The two locks of an open key bundle: \<open>cryptoMu\<close> of \<open>keys.go\<close>, which encrypt, decrypt and
  close hold for their whole run, and the \<open>RWMutex\<close> of \<open>cgoEncryptor\<close> and \<open>cgoDecryptor\<close>, which a
  call holds shared and \<open>Close\<close> exclusively. Any number of goroutines encrypt, decrypt and
  close one bundle, and finalizers may close its encryptor and decryptor at any moment,
  without \<open>cryptoMu\<close>. The finalizer of the context has no lock to take and no rule here: it cannot run
  while a goroutine is between \<open>cryptoMu.Lock\<close> and the deferred \<open>Unlock\<close>, since the bundle it will unlock
  points to the context; \<open>Object_Lifetimes\<close> shows this. Each rule of \<open>lockStep\<close> is one atomic step of one goroutine. As in Go, a
  writer that waits keeps new readers out.
\<close>

section \<open>State\<close>

text \<open>The encryptor side and the decryptor side of a bundle.\<close>

datatype side = EncSide | DecSide

text \<open>
  Where a goroutine is. \<open>viaBundle\<close> tells the close of the bundle from that of a finalizer.
\<close>

datatype point =
    Rest
  | WantUse side | WantClose                         \<comment> \<open>before \<open>cryptoMu.Lock\<close>\<close>
  | Check side                                       \<comment> \<open>holds \<open>cryptoMu\<close>, before the nil check\<close>
  | WantRead side | Reading side                     \<comment> \<open>before and after \<open>mu.RLock\<close>\<close>
  | Calling side                                     \<comment> \<open>in the C library\<close>
  | DropRead side | DropMu                           \<comment> \<open>the deferred unlocks\<close>
  | ClosePart side | CloseContext                    \<comment> \<open>\<open>keyBundle.close\<close>\<close>
  | WantWrite side bool | Writing side bool | Half side bool | DropWrite side bool \<comment> \<open>\<open>Close\<close> of a side\<close>
  | Clear side                                       \<comment> \<open>before the field is set to nil\<close>

record locks =
  crypto_mu :: "nat option"
  readers :: "side \<Rightarrow> nat set"
  writer :: "side \<Rightarrow> nat option"
  field :: "side \<Rightarrow> bool"
  ctx_field :: bool
  first_ptr :: "side \<Rightarrow> bool"
  second_ptr :: "side \<Rightarrow> bool"
  ctx_ptr :: bool
  events :: "c_event list"
  pc :: "nat \<Rightarrow> point"

fun firstOf :: "side \<Rightarrow> handle" where
  "firstOf EncSide = Handle HEncryptor 0"
| "firstOf DecSide = Handle HDecryptor 2"

fun secondOf :: "side \<Rightarrow> handle" where
  "secondOf EncSide = Handle HKeyPack 1"
| "secondOf DecSide = Handle HSecKey 3"

definition ctxHandle :: handle where
  "ctxHandle = Handle HContext 4"

text \<open>A bundle as \<open>openKeyBundle\<close> leaves it, and nobody using it.\<close>

definition opened :: locks where
  "opened = \<lparr>crypto_mu = None, readers = (\<lambda>_. {}), writer = (\<lambda>_. None), field = (\<lambda>_. True), ctx_field = True,
     first_ptr = (\<lambda>_. True), second_ptr = (\<lambda>_. True), ctx_ptr = True, events = [], pc = (\<lambda>_. Rest)\<rparr>"

definition goto :: "nat \<Rightarrow> point \<Rightarrow> locks \<Rightarrow> locks" where
  "goto t p s = s\<lparr>pc := (pc s)(t := p)\<rparr>"

definition logged :: "c_event list \<Rightarrow> locks \<Rightarrow> locks" where
  "logged es s = s\<lparr>events := events s @ es\<rparr>"

text \<open>Where \<open>close\<close> goes after a side.\<close>

fun afterPart :: "side \<Rightarrow> point" where
  "afterPart EncSide = ClosePart DecSide"
| "afterPart DecSide = CloseContext"

section \<open>Steps\<close>

inductive lockStep :: "nat \<Rightarrow> locks \<Rightarrow> locks \<Rightarrow> bool" for t where
  StartUse: "pc s t = Rest \<Longrightarrow> lockStep t s (goto t (WantUse sd) s)"
| StartClose: "pc s t = Rest \<Longrightarrow> lockStep t s (goto t WantClose s)"
| StartFinalize: "pc s t = Rest \<Longrightarrow> lockStep t s (goto t (WantWrite sd False) s)"
| LockUse: "pc s t = WantUse sd \<Longrightarrow> crypto_mu s = None \<Longrightarrow>
    lockStep t s (goto t (Check sd) (s\<lparr>crypto_mu := Some t\<rparr>))"
| LockClose: "pc s t = WantClose \<Longrightarrow> crypto_mu s = None \<Longrightarrow>
    lockStep t s (goto t (ClosePart EncSide) (s\<lparr>crypto_mu := Some t\<rparr>))"
| Refuse: "pc s t = Check sd \<Longrightarrow> \<not> field s sd \<Longrightarrow> lockStep t s (goto t DropMu s)"
| Enter: "pc s t = Check sd \<Longrightarrow> field s sd \<Longrightarrow> lockStep t s (goto t (WantRead sd) s)"
| RLock: "pc s t = WantRead sd \<Longrightarrow> writer s sd = None \<Longrightarrow> \<forall>u b. pc s u \<noteq> WantWrite sd b \<Longrightarrow>
    lockStep t s (goto t (Reading sd) (s\<lparr>readers := (readers s)(sd := insert t (readers s sd))\<rparr>))"
| FoundClosed: "pc s t = Reading sd \<Longrightarrow> \<not> (first_ptr s sd \<and> second_ptr s sd) \<Longrightarrow>
    lockStep t s (goto t (DropRead sd) s)"
| CallC: "pc s t = Reading sd \<Longrightarrow> first_ptr s sd \<Longrightarrow> second_ptr s sd \<Longrightarrow>
    lockStep t s (goto t (Calling sd) (logged [Called ''begin'' [firstOf sd, secondOf sd, ctxHandle] [] []] s))"
| ReturnC: "pc s t = Calling sd \<Longrightarrow>
    lockStep t s (goto t (DropRead sd) (logged [Called ''end'' [firstOf sd, secondOf sd, ctxHandle] [] []] s))"
| RUnlock: "pc s t = DropRead sd \<Longrightarrow>
    lockStep t s (goto t DropMu (s\<lparr>readers := (readers s)(sd := readers s sd - {t})\<rparr>))"
| UnlockMu: "pc s t = DropMu \<Longrightarrow> lockStep t s (goto t Rest (s\<lparr>crypto_mu := None\<rparr>))"
| SkipPart: "pc s t = ClosePart sd \<Longrightarrow> \<not> field s sd \<Longrightarrow> lockStep t s (goto t (afterPart sd) s)"
| EnterPart: "pc s t = ClosePart sd \<Longrightarrow> field s sd \<Longrightarrow> lockStep t s (goto t (WantWrite sd True) s)"
| WLock: "pc s t = WantWrite sd b \<Longrightarrow> writer s sd = None \<Longrightarrow> readers s sd = {} \<Longrightarrow>
    lockStep t s (goto t (Writing sd b) (s\<lparr>writer := (writer s)(sd := Some t)\<rparr>))"
| FreeFirst: "pc s t = Writing sd b \<Longrightarrow>
    lockStep t s (goto t (Half sd b)
      (logged (if first_ptr s sd then [Destroyed (firstOf sd)] else []) (s\<lparr>first_ptr := (first_ptr s)(sd := False)\<rparr>)))"
| FreeSecond: "pc s t = Half sd b \<Longrightarrow>
    lockStep t s (goto t (DropWrite sd b)
      (logged (if second_ptr s sd then [Destroyed (secondOf sd)] else []) (s\<lparr>second_ptr := (second_ptr s)(sd := False)\<rparr>)))"
| WUnlock: "pc s t = DropWrite sd b \<Longrightarrow>
    lockStep t s (goto t (if b then Clear sd else Rest) (s\<lparr>writer := (writer s)(sd := None)\<rparr>))"
| ClearField: "pc s t = Clear sd \<Longrightarrow> lockStep t s (goto t (afterPart sd) (s\<lparr>field := (field s)(sd := False)\<rparr>))"
| FreeContext: "pc s t = CloseContext \<Longrightarrow>
    lockStep t s (goto t DropMu
      (logged (if ctx_field s \<and> ctx_ptr s then [Destroyed ctxHandle] else [])
        (s\<lparr>ctx_ptr := ctx_ptr s \<and> \<not> ctx_field s, ctx_field := False\<rparr>)))"

inductive lockRun :: "locks \<Rightarrow> bool" where
  start: "lockRun opened"
| more: "lockRun s \<Longrightarrow> lockStep t s s' \<Longrightarrow> lockRun s'"

lemma goto_simps [simp]:
  "pc (goto t p s) = (pc s)(t := p)" "crypto_mu (goto t p s) = crypto_mu s" "readers (goto t p s) = readers s"
  "writer (goto t p s) = writer s" "field (goto t p s) = field s" "ctx_field (goto t p s) = ctx_field s"
  "first_ptr (goto t p s) = first_ptr s" "second_ptr (goto t p s) = second_ptr s" "ctx_ptr (goto t p s) = ctx_ptr s"
  "events (goto t p s) = events s"
  by (simp_all add: goto_def)

lemma logged_simps [simp]:
  "pc (logged es s) = pc s" "crypto_mu (logged es s) = crypto_mu s" "readers (logged es s) = readers s"
  "writer (logged es s) = writer s" "field (logged es s) = field s" "ctx_field (logged es s) = ctx_field s"
  "first_ptr (logged es s) = first_ptr s" "second_ptr (logged es s) = second_ptr s" "ctx_ptr (logged es s) = ctx_ptr s"
  "events (logged es s) = events s @ es"
  by (simp_all add: logged_def)

section \<open>Who holds what\<close>

fun holdsMu :: "point \<Rightarrow> bool" where
  "holdsMu (WantWrite sd b) = b"
| "holdsMu (Writing sd b) = b"
| "holdsMu (Half sd b) = b"
| "holdsMu (DropWrite sd b) = b"
| "holdsMu Rest = False"
| "holdsMu (WantUse sd) = False"
| "holdsMu WantClose = False"
| "holdsMu _ = True"

fun holdsRead :: "point \<Rightarrow> side \<Rightarrow> bool" where
  "holdsRead (Reading sd) sd' \<longleftrightarrow> sd' = sd"
| "holdsRead (Calling sd) sd' \<longleftrightarrow> sd' = sd"
| "holdsRead (DropRead sd) sd' \<longleftrightarrow> sd' = sd"
| "holdsRead _ sd' \<longleftrightarrow> False"

fun holdsWrite :: "point \<Rightarrow> side \<Rightarrow> bool" where
  "holdsWrite (Writing sd b) sd' \<longleftrightarrow> sd' = sd"
| "holdsWrite (Half sd b) sd' \<longleftrightarrow> sd' = sd"
| "holdsWrite (DropWrite sd b) sd' \<longleftrightarrow> sd' = sd"
| "holdsWrite _ sd' \<longleftrightarrow> False"

definition ownersOK :: "locks \<Rightarrow> bool" where
  "ownersOK s \<longleftrightarrow> (\<forall>t. crypto_mu s = Some t \<longleftrightarrow> holdsMu (pc s t)) \<and>
     (\<forall>t sd. t \<in> readers s sd \<longleftrightarrow> holdsRead (pc s t) sd) \<and>
     (\<forall>t sd. writer s sd = Some t \<longleftrightarrow> holdsWrite (pc s t) sd) \<and>
     (\<forall>sd. writer s sd = None \<or> readers s sd = {})"

lemma afterPart_holds [simp]:
  "holdsMu (afterPart sd)" "\<not> holdsRead (afterPart sd) sd'" "\<not> holdsWrite (afterPart sd) sd'"
  by (cases sd; simp)+

text \<open>One goroutine at a time holds each lock, and readers exclude the writer.\<close>

lemma owners_exclusive:
  assumes "ownersOK s"
  shows "holdsMu (pc s t) \<Longrightarrow> holdsMu (pc s u) \<Longrightarrow> u = t"
    and "holdsWrite (pc s t) sd \<Longrightarrow> holdsWrite (pc s u) sd \<Longrightarrow> u = t"
    and "holdsRead (pc s t) sd \<Longrightarrow> \<not> holdsWrite (pc s u) sd"
  using assms unfolding ownersOK_def by (metis option.inject, metis option.inject, metis empty_iff option.distinct(1))

lemma ownersOK_step:
  assumes step: "lockStep t s s'" and ok: "ownersOK s"
  shows "ownersOK s'"
proof -
  have own: "holdsMu (pc s u) \<Longrightarrow> crypto_mu s = Some u" "holdsWrite (pc s u) sd \<Longrightarrow> writer s sd = Some u" for u sd
    using ok by (simp_all add: ownersOK_def)
  have last: "u = t" if "pc s t = DropWrite sd b" "holdsWrite (pc s u) sd" for u sd b
    using owners_exclusive(2)[OF ok _ that(2), of t] that(1) by simp
  from step ok show ?thesis
    by cases (simp_all add: ownersOK_def, auto split: if_splits dest: own last owners_exclusive(3)[OF ok])
qed

lemma ownersOK_run: "lockRun s \<Longrightarrow> ownersOK s"
proof (induction rule: lockRun.induct)
  case start
  show ?case by (simp add: ownersOK_def opened_def)
qed (rule ownersOK_step)

section \<open>What is alive\<close>

definition aliveOf :: "locks \<Rightarrow> handle set" where
  "aliveOf s = firstOf ` {sd. first_ptr s sd} \<union> secondOf ` {sd. second_ptr s sd} \<union> (if ctx_ptr s then {ctxHandle} else {})"

text \<open>Past the nil check, and past each part of \<open>close\<close>.\<close>

fun inside :: "point \<Rightarrow> side \<Rightarrow> bool" where
  "inside (WantRead sd) sd' \<longleftrightarrow> sd' = sd"
| "inside (Reading sd) sd' \<longleftrightarrow> sd' = sd"
| "inside (Calling sd) sd' \<longleftrightarrow> sd' = sd"
| "inside _ sd' \<longleftrightarrow> False"

fun past :: "point \<Rightarrow> side \<Rightarrow> bool" where
  "past (ClosePart DecSide) sd \<longleftrightarrow> sd = EncSide"
| "past (WantWrite DecSide b) sd \<longleftrightarrow> b \<and> sd = EncSide"
| "past (Writing DecSide b) sd \<longleftrightarrow> b \<and> sd = EncSide"
| "past (Half DecSide b) sd \<longleftrightarrow> b \<and> sd = EncSide"
| "past (DropWrite DecSide b) sd \<longleftrightarrow> b \<and> sd = EncSide"
| "past (Clear DecSide) sd \<longleftrightarrow> sd = EncSide"
| "past CloseContext sd \<longleftrightarrow> True"
| "past _ sd \<longleftrightarrow> False"

definition aliveOK :: "locks \<Rightarrow> bool" where
  "aliveOK s \<longleftrightarrow> replayFrom (aliveOf opened) (events s) = Some (aliveOf s) \<and>
     (\<forall>t sd. pc s t = Calling sd \<longrightarrow> first_ptr s sd \<and> second_ptr s sd) \<and>
     (\<forall>t sd. inside (pc s t) sd \<longrightarrow> field s sd) \<and>
     (\<forall>t sd. past (pc s t) sd \<longrightarrow> \<not> field s sd) \<and>
     (\<not> ctx_ptr s \<longrightarrow> (\<forall>sd. \<not> field s sd))"

lemma handle_names [simp]:
  "firstOf sd = firstOf sd' \<longleftrightarrow> sd = sd'" "secondOf sd = secondOf sd' \<longleftrightarrow> sd = sd'" "firstOf sd \<noteq> secondOf sd'"
  "secondOf sd' \<noteq> firstOf sd" "ctxHandle \<noteq> firstOf sd" "ctxHandle \<noteq> secondOf sd" "firstOf sd \<noteq> ctxHandle" "secondOf sd \<noteq> ctxHandle"
  by (cases sd; cases sd'; simp add: ctxHandle_def)+

lemma aliveOf_members [simp]:
  "firstOf sd \<in> aliveOf s \<longleftrightarrow> first_ptr s sd" "secondOf sd \<in> aliveOf s \<longleftrightarrow> second_ptr s sd"
  "ctxHandle \<in> aliveOf s \<longleftrightarrow> ctx_ptr s"
  by (auto simp: aliveOf_def)

lemma aliveOf_steps [simp]:
  "aliveOf (goto t p s) = aliveOf s" "aliveOf (logged es s) = aliveOf s"
  "aliveOf (s\<lparr>first_ptr := (first_ptr s)(sd := False)\<rparr>) = aliveOf s - {firstOf sd}"
  "aliveOf (s\<lparr>second_ptr := (second_ptr s)(sd := False)\<rparr>) = aliveOf s - {secondOf sd}"
  "aliveOf (s\<lparr>ctx_ptr := c, ctx_field := f\<rparr>) = (if c then insert ctxHandle (aliveOf s) else aliveOf s - {ctxHandle})"
  "aliveOf (s\<lparr>crypto_mu := m\<rparr>) = aliveOf s" "aliveOf (s\<lparr>readers := r\<rparr>) = aliveOf s"
  "aliveOf (s\<lparr>writer := v\<rparr>) = aliveOf s" "aliveOf (s\<lparr>field := g\<rparr>) = aliveOf s"
  by (auto simp: aliveOf_def)

lemma inside_holdsMu: "inside p sd \<Longrightarrow> holdsMu p"
  by (cases p) auto

lemma past_after [simp]: "past (afterPart sd) sd' \<longleftrightarrow> sd = DecSide \<or> sd' = EncSide"
  by (cases sd; cases sd'; simp)

lemma not_inside_after [simp]: "\<not> inside (afterPart sd) sd'" "afterPart sd \<noteq> Calling sd'"
  by (cases sd; simp)+

lemma past_closing [simp]:
  "past (ClosePart sd) sd' \<longleftrightarrow> sd = DecSide \<and> sd' = EncSide" "past (Clear sd) sd' \<longleftrightarrow> sd = DecSide \<and> sd' = EncSide"
  "past (WantWrite sd b) sd' \<longleftrightarrow> b \<and> sd = DecSide \<and> sd' = EncSide"
  "past (Writing sd b) sd' \<longleftrightarrow> b \<and> sd = DecSide \<and> sd' = EncSide"
  "past (Half sd b) sd' \<longleftrightarrow> b \<and> sd = DecSide \<and> sd' = EncSide"
  "past (DropWrite sd b) sd' \<longleftrightarrow> b \<and> sd = DecSide \<and> sd' = EncSide"
  by (cases sd; simp)+

lemma aliveOK_step:
  assumes step: "lockStep t s s'" and own: "ownersOK s" and ok: "aliveOK s"
  shows "aliveOK s'"
proof -
  have writing: "pc s t \<noteq> Writing sd b \<and> pc s t \<noteq> Half sd b" if "pc s u = Calling sd" for u sd b
    using owners_exclusive(3)[OF own, of u sd t] that by auto
  have clear: "pc s t \<noteq> Clear sd" if "inside (pc s u) sd" for u sd
    using owners_exclusive(1)[OF own, of u t] inside_holdsMu[OF that] that by auto
  have here: "\<forall>sd. inside (pc s t) sd \<longrightarrow> field s sd \<and> ctx_ptr s" "\<forall>sd. past (pc s t) sd \<longrightarrow> \<not> field s sd"
    using ok unfolding aliveOK_def by blast+
  from step ok here show ?thesis
    by cases (simp_all add: aliveOK_def, auto split: if_splits dest: writing clear simp: replayFrom_append, (metis (full_types) side.exhaust)+)
qed

lemma aliveOK_run: "lockRun s \<Longrightarrow> aliveOK s"
proof (induction rule: lockRun.induct)
  case start
  show ?case by (simp add: aliveOK_def opened_def)
next
  case (more s t s')
  show ?case by (rule aliveOK_step[OF more.hyps(2) ownersOK_run[OF more.hyps(1)] more.IH])
qed

section \<open>Progress\<close>

text \<open>The points a goroutine leaves without waiting.\<close>

fun waits :: "point \<Rightarrow> bool" where
  "waits (WantUse sd) = True"
| "waits WantClose = True"
| "waits (WantRead sd) = True"
| "waits (WantWrite sd b) = True"
| "waits _ = False"

lemma runs_on: "\<not> waits (pc s t) \<Longrightarrow> \<exists>s'. lockStep t s s'"
  by (cases "pc s t"; simp; blast intro: lockStep.intros)

text \<open>The goroutine that another one waits for can move, or waits for one that can.\<close>

lemma lock_owner_moves:
  assumes "ownersOK s" and "writer s sd \<noteq> None \<or> readers s sd \<noteq> {}"
  shows "\<exists>u s'. lockStep u s s' \<and> pc s u \<noteq> Rest"
proof -
  have "\<exists>u. holdsRead (pc s u) sd \<or> holdsWrite (pc s u) sd"
    using assms unfolding ownersOK_def by (metis ex_in_conv not_None_eq)
  then obtain u where u: "holdsRead (pc s u) sd \<or> holdsWrite (pc s u) sd" by blast
  then have "\<not> waits (pc s u)" "pc s u \<noteq> Rest" by (cases "pc s u"; auto)+
  then show ?thesis using runs_on[of s u] by blast
qed

lemma holder_moves:
  assumes ok: "ownersOK s" and wait: "pc s t = WantWrite sd b \<or> pc s t = WantRead sd"
  shows "\<exists>u s'. lockStep u s s' \<and> pc s u \<noteq> Rest"
proof (cases "writer s sd = None \<and> readers s sd = {}")
  case free: True
  show ?thesis
  proof (cases "\<exists>u b. pc s u = WantWrite sd b")
    case True
    then obtain u b' where "pc s u = WantWrite sd b'" by blast
    with free show ?thesis by (intro exI[of _ u]) (auto intro: lockStep.WLock)
  next
    case False
    then have "pc s t = WantRead sd" using wait by blast
    with free False show ?thesis by (intro exI[of _ t]) (auto intro: lockStep.RLock)
  qed
qed (use lock_owner_moves[OF ok] in blast)

lemma someone_moves:
  assumes ok: "ownersOK s" and "pc s t \<noteq> Rest"
  shows "\<exists>u s'. lockStep u s s' \<and> pc s u \<noteq> Rest"
proof -
  have mover: ?thesis if "pc s u \<noteq> Rest" "pc s u \<noteq> WantClose" "\<And>sd. pc s u \<noteq> WantUse sd" for u
  proof (cases "waits (pc s u)")
    case True
    then show ?thesis using that(2,3) holder_moves[OF ok] by (cases rule: waits.elims(2)) blast+
  qed (use that(1) runs_on[of s u] in blast)
  show ?thesis
  proof (cases "(\<exists>sd. pc s t = WantUse sd) \<or> pc s t = WantClose")
    case False
    then show ?thesis using mover assms(2) by blast
  next
    case wants: True
    show ?thesis
    proof (cases "crypto_mu s")
      case None
      then have "\<exists>s'. lockStep t s s'" using wants by (blast intro: lockStep.LockUse lockStep.LockClose)
      then show ?thesis using assms(2) by blast
    next
      case (Some u)
      then have "holdsMu (pc s u)" using ok unfolding ownersOK_def by blast
      then show ?thesis by (intro mover[of u]) auto
    qed
  qed
qed

section \<open>Properties\<close>

text \<open>
  C3. Concurrent use of a bundle is safe. In every reachable state, however any number of goroutines
  that encrypt, decrypt and close the bundle and of finalizers interleave: at most one of them is
  in the C library, so the calls on one context are serialized; the objects it uses and their
  context are alive; and the log of calls and destructions replays, so that no object is used
  after it was freed or freed twice, and those alive are those whose pointers are not nil.
\<close>

theorem concurrent_use_is_safe:
  assumes "lockRun s"
  shows "(\<forall>t u sd sd'. pc s t = Calling sd \<longrightarrow> pc s u = Calling sd' \<longrightarrow> u = t) \<and>
    (\<forall>t sd. pc s t = Calling sd \<longrightarrow> {firstOf sd, secondOf sd, ctxHandle} \<subseteq> aliveOf s) \<and>
    replayFrom (aliveOf opened) (events s) = Some (aliveOf s)"
proof (intro conjI allI impI)
  note ok = ownersOK_run[OF assms] and alive = aliveOK_run[OF assms]
  show "u = t" if "pc s t = Calling sd" "pc s u = Calling sd'" for t u sd sd'
    using owners_exclusive(1)[OF ok, of t u] that by simp
  show "{firstOf sd, secondOf sd, ctxHandle} \<subseteq> aliveOf s" if "pc s t = Calling sd" for t sd
  proof -
    have "field s sd" using that alive unfolding aliveOK_def by (metis inside.simps(3))
    then have "ctx_ptr s" using alive unfolding aliveOK_def by blast
    then show ?thesis using that alive by (simp add: aliveOK_def)
  qed
  show "replayFrom (aliveOf opened) (events s) = Some (aliveOf s)" using alive by (simp add: aliveOK_def)
qed

text \<open>Goroutine 0 encrypts, goroutine 1 wants to close the bundle, and a finalizer waits.\<close>

lemma busy_run:
  "\<exists>s. lockRun s \<and> pc s 0 = Calling EncSide \<and> pc s 1 = WantClose \<and> pc s 2 = WantWrite EncSide False"
proof -
  define s1 where "s1 = goto 1 WantClose (goto 0 (WantUse EncSide) opened)"
  define s2 where "s2 = goto 0 (Check EncSide) (s1\<lparr>crypto_mu := Some 0\<rparr>)"
  define s3 where "s3 = goto 0 (WantRead EncSide) s2"
  define s4 where "s4 = goto 0 (Reading EncSide) (s3\<lparr>readers := (readers s3)(EncSide := insert 0 (readers s3 EncSide))\<rparr>)"
  define s5 where "s5 = goto 0 (Calling EncSide) (logged [Called ''begin'' [firstOf EncSide, secondOf EncSide, ctxHandle] [] []] s4)"
  define s6 where "s6 = goto 2 (WantWrite EncSide False) s5"
  note defs = s1_def s2_def s3_def s4_def s5_def s6_def opened_def
  have 0: "lockRun (goto 0 (WantUse EncSide) opened)"
    by (rule lockRun.more[OF lockRun.start lockStep.StartUse]) (simp add: opened_def)
  have 1: "lockRun s1"
    unfolding s1_def by (rule lockRun.more[OF 0 lockStep.StartClose]) (simp add: opened_def)
  have 2: "lockRun s2" unfolding s2_def by (rule lockRun.more[OF 1 lockStep.LockUse]) (simp_all add: defs)
  have 3: "lockRun s3" unfolding s3_def by (rule lockRun.more[OF 2 lockStep.Enter]) (simp_all add: defs)
  have 4: "lockRun s4" unfolding s4_def by (rule lockRun.more[OF 3 lockStep.RLock]) (simp_all add: defs)
  have 5: "lockRun s5" unfolding s5_def by (rule lockRun.more[OF 4 lockStep.CallC]) (simp_all add: defs)
  have "lockRun s6" unfolding s6_def by (rule lockRun.more[OF 5 lockStep.StartFinalize]) (simp_all add: defs)
  moreover have "pc s6 0 = Calling EncSide" "pc s6 1 = WantClose" "pc s6 2 = WantWrite EncSide False"
    by (simp_all add: defs)
  ultimately show ?thesis by blast
qed

theorem concurrent_use_is_safe_witness:
  "\<exists>s. pc s 0 = Calling EncSide \<and> pc s 1 = WantClose \<and> {firstOf EncSide, secondOf EncSide} \<subseteq> aliveOf s \<and>
    replayFrom (aliveOf opened) (events s) = Some (aliveOf s)"
proof -
  obtain s where s: "lockRun s" "pc s 0 = Calling EncSide" "pc s 1 = WantClose" using busy_run by blast
  from concurrent_use_is_safe[OF s(1)] s(2,3) show ?thesis by (intro exI[of _ s]) blast
qed

text \<open>
  C4. The two locks cannot deadlock: in every reachable state in which some goroutine is in the
  middle of an operation, a goroutine in the middle of an operation can take its next step
  (a call into the C library being a step that can end).
\<close>

theorem locks_never_deadlock:
  assumes "lockRun s" and "pc s t \<noteq> Rest"
  shows "\<exists>u s'. lockStep u s s' \<and> pc s u \<noteq> Rest"
  by (rule someone_moves[OF ownersOK_run[OF assms(1)] assms(2)])

theorem locks_never_deadlock_witness:
  "\<exists>s. pc s 1 = WantClose \<and> pc s 2 = WantWrite EncSide False \<and> (\<exists>u s'. lockStep u s s' \<and> pc s u \<noteq> Rest)"
proof -
  obtain s where s: "lockRun s" "pc s 1 = WantClose" "pc s 2 = WantWrite EncSide False" using busy_run by blast
  moreover have "pc s 1 \<noteq> Rest" unfolding s(2) by simp
  ultimately show ?thesis using locks_never_deadlock[OF s(1)] by blast
qed

end
