(* ===== verification/Bundle_Close.thy ===== *)
theory Bundle_Close
  imports Bundle_Lock Key_Bundles
begin

text \<open>
  The locks refine the sequential model: a goroutine that closes a bundle by itself does what
  \<open>bundleClose\<close> of \<open>Key_Bundles\<close> does, the same destructions in the same order with the same
  bundle left.
\<close>

definition bundleOf :: "keyKind \<Rightarrow> gopath \<Rightarrow> locks \<Rightarrow> keyBundle" where
  "bundleOf kind dir s = \<lparr>kb_kind = kind, kb_dir = dir,
     kb_ckks = (if ctx_field s then Some \<lparr>ctx_c = if ctx_ptr s then Some ctxHandle else None\<rparr> else None),
     kb_enc = (if field s EncSide then Some
         \<lparr>enc_h = if first_ptr s EncSide then Some (firstOf EncSide) else None,
          pack_h = if second_ptr s EncSide then Some (secondOf EncSide) else None\<rparr> else None),
     kb_dec = (if field s DecSide then Some
         \<lparr>dec_h = if first_ptr s DecSide then Some (firstOf DecSide) else None,
          sk_h = if second_ptr s DecSide then Some (secondOf DecSide) else None\<rparr> else None)\<rparr>"

definition partEvents :: "locks \<Rightarrow> side \<Rightarrow> c_event list" where
  "partEvents s sd = (if field s sd
     then (if first_ptr s sd then [Destroyed (firstOf sd)] else []) @ (if second_ptr s sd then [Destroyed (secondOf sd)] else [])
     else [])"

lemma step_rtrancl: "lockStep t s s1 \<Longrightarrow> (lockStep t)\<^sup>*\<^sup>* s1 s' \<Longrightarrow> (lockStep t)\<^sup>*\<^sup>* s s'"
  by (rule converse_rtranclp_into_rtranclp)

lemma solo_part:
  assumes "pc s t = ClosePart sd" and "writer s sd = None" and "readers s sd = {}"
  obtains s' where "(lockStep t)\<^sup>*\<^sup>* s s'" and "pc s' t = afterPart sd" and "events s' = events s @ partEvents s sd"
    and "field s' = (field s)(sd := False)" and "first_ptr s' = (first_ptr s)(sd := first_ptr s sd \<and> \<not> field s sd)"
    and "second_ptr s' = (second_ptr s)(sd := second_ptr s sd \<and> \<not> field s sd)" and "writer s' = writer s"
    and "readers s' = readers s" and "ctx_field s' = ctx_field s" and "ctx_ptr s' = ctx_ptr s"
proof (cases "field s sd")
  case False
  have "(lockStep t)\<^sup>*\<^sup>* s (goto t (afterPart sd) s)"
    by (rule r_into_rtranclp, rule lockStep.SkipPart[OF assms(1) False])
  then show thesis by (rule that) (simp_all add: False partEvents_def fun_eq_iff)
next
  case True
  define s1 where "s1 = goto t (WantWrite sd True) s"
  define s2 where "s2 = goto t (Writing sd True) (s1\<lparr>writer := (writer s1)(sd := Some t)\<rparr>)"
  define s3 where "s3 = goto t (Half sd True)
    (logged (if first_ptr s2 sd then [Destroyed (firstOf sd)] else []) (s2\<lparr>first_ptr := (first_ptr s2)(sd := False)\<rparr>))"
  define s4 where "s4 = goto t (DropWrite sd True)
    (logged (if second_ptr s3 sd then [Destroyed (secondOf sd)] else []) (s3\<lparr>second_ptr := (second_ptr s3)(sd := False)\<rparr>))"
  define s5 where "s5 = goto t (Clear sd) (s4\<lparr>writer := (writer s4)(sd := None)\<rparr>)"
  define s6 where "s6 = goto t (afterPart sd) (s5\<lparr>field := (field s5)(sd := False)\<rparr>)"
  have f1: "pc s1 t = WantWrite sd True" "events s1 = events s" "field s1 = field s" "first_ptr s1 = first_ptr s" "second_ptr s1 = second_ptr s"
    "writer s1 = writer s" "readers s1 = readers s" "ctx_field s1 = ctx_field s" "ctx_ptr s1 = ctx_ptr s"
    by (simp_all add: s1_def)
  have f2: "pc s2 t = Writing sd True" "events s2 = events s" "field s2 = field s" "first_ptr s2 = first_ptr s" "second_ptr s2 = second_ptr s"
    "writer s2 = (writer s)(sd := Some t)" "readers s2 = readers s" "ctx_field s2 = ctx_field s" "ctx_ptr s2 = ctx_ptr s"
    by (simp_all add: s2_def f1)
  have f3: "pc s3 t = Half sd True" "events s3 = events s @ (if first_ptr s sd then [Destroyed (firstOf sd)] else [])" "field s3 = field s" "first_ptr s3 = (first_ptr s)(sd := False)" "second_ptr s3 = second_ptr s"
    "writer s3 = (writer s)(sd := Some t)" "readers s3 = readers s" "ctx_field s3 = ctx_field s" "ctx_ptr s3 = ctx_ptr s"
    by (simp_all add: s3_def f2)
  have f4: "pc s4 t = DropWrite sd True" "events s4 = events s @ partEvents s sd" "field s4 = field s" "first_ptr s4 = (first_ptr s)(sd := False)" "second_ptr s4 = (second_ptr s)(sd := False)"
    "writer s4 = (writer s)(sd := Some t)" "readers s4 = readers s" "ctx_field s4 = ctx_field s" "ctx_ptr s4 = ctx_ptr s"
    by (simp_all add: s4_def f3 partEvents_def True)
  have f5: "pc s5 t = Clear sd" "events s5 = events s @ partEvents s sd" "field s5 = field s" "first_ptr s5 = (first_ptr s)(sd := False)" "second_ptr s5 = (second_ptr s)(sd := False)"
    "writer s5 = writer s" "readers s5 = readers s" "ctx_field s5 = ctx_field s" "ctx_ptr s5 = ctx_ptr s"
    by (simp_all add: s5_def f4 assms(2) fun_upd_idem)
  have f6: "pc s6 t = afterPart sd" "events s6 = events s @ partEvents s sd" "field s6 = (field s)(sd := False)" "first_ptr s6 = (first_ptr s)(sd := False)" "second_ptr s6 = (second_ptr s)(sd := False)"
    "writer s6 = writer s" "readers s6 = readers s" "ctx_field s6 = ctx_field s" "ctx_ptr s6 = ctx_ptr s"
    by (simp_all add: s6_def f5)
  have "lockStep t s s1" unfolding s1_def by (rule lockStep.EnterPart[OF assms(1) True])
  moreover have "lockStep t s1 s2"
    unfolding s2_def by (rule lockStep.WLock[OF f1(1)]) (simp_all only: f1 assms)
  moreover have "lockStep t s2 s3" unfolding s3_def by (rule lockStep.FreeFirst[OF f2(1)])
  moreover have "lockStep t s3 s4" unfolding s4_def by (rule lockStep.FreeSecond[OF f3(1)])
  moreover have "lockStep t s4 s5"
    using lockStep.WUnlock[OF f4(1)] by (simp only: s5_def if_True)
  moreover have "lockStep t s5 s6" unfolding s6_def by (rule lockStep.ClearField[OF f5(1)])
  ultimately have "(lockStep t)\<^sup>*\<^sup>* s s6" by (meson step_rtrancl rtranclp.rtrancl_refl)
  then show thesis by (rule that) (simp_all add: f6 True)
qed

text \<open>The events of the sequential close.\<close>

lemma bundleClose_log:
  "c_log (snd (bundleClose (bundleOf kind dir s) w)) = c_log w @ partEvents s EncSide @ partEvents s DecSide @
     (if ctx_field s \<and> ctx_ptr s then [Destroyed ctxHandle] else [])"
  by (simp add: bundleClose_def bundleOf_def EncryptorClose_def DecryptorClose_def ContextClose_def closeHandle_def
      c_free_def partEvents_def Let_def)

section \<open>Property\<close>

text \<open>
  C5. Under the locks \<open>close\<close> refines the sequential \<open>close\<close>. From any state in which the bundle's locks are
  free, whatever part of the bundle is already gone, a goroutine that closes it and is not disturbed
  comes to an end, destroys exactly the objects that the sequential model destroys, in the same
  order, and leaves the bundle that the sequential model leaves.
\<close>

theorem close_alone_is_sequential:
  assumes "pc s t = WantClose" and "crypto_mu s = None" and "\<And>sd. writer s sd = None \<and> readers s sd = {}"
  shows "\<exists>s' es. (lockStep t)\<^sup>*\<^sup>* s s' \<and> pc s' t = Rest \<and> events s' = events s @ es \<and>
    c_log (snd (bundleClose (bundleOf kind dir s) w)) = c_log w @ es \<and>
    bundleOf kind dir s' = fst (bundleClose (bundleOf kind dir s) w)"
proof -
  define s1 where "s1 = goto t (ClosePart EncSide) (s\<lparr>crypto_mu := Some t\<rparr>)"
  have 1: "lockStep t s s1" unfolding s1_def by (rule lockStep.LockClose[OF assms(1,2)])
  have "pc s1 t = ClosePart EncSide" "writer s1 EncSide = None" "readers s1 EncSide = {}" by (simp_all add: s1_def assms(3))
  then obtain s2 where 2: "(lockStep t)\<^sup>*\<^sup>* s1 s2" "pc s2 t = ClosePart DecSide" "events s2 = events s @ partEvents s EncSide"
    "field s2 = (field s)(EncSide := False)" "first_ptr s2 DecSide = first_ptr s DecSide" "second_ptr s2 DecSide = second_ptr s DecSide"
    "writer s2 = writer s" "readers s2 = readers s" "ctx_field s2 = ctx_field s" "ctx_ptr s2 = ctx_ptr s"
    by (rule solo_part) (simp_all add: s1_def partEvents_def)
  have "writer s2 DecSide = None" "readers s2 DecSide = {}" by (simp_all add: 2 assms(3))
  with 2(2) obtain s3 where 3: "(lockStep t)\<^sup>*\<^sup>* s2 s3" "pc s3 t = CloseContext" "events s3 = events s2 @ partEvents s2 DecSide"
    "field s3 = (field s2)(DecSide := False)" "ctx_field s3 = ctx_field s2" "ctx_ptr s3 = ctx_ptr s2"
    by (rule solo_part) simp_all
  define s4 where "s4 = goto t DropMu (logged (if ctx_field s3 \<and> ctx_ptr s3 then [Destroyed ctxHandle] else [])
    (s3\<lparr>ctx_ptr := ctx_ptr s3 \<and> \<not> ctx_field s3, ctx_field := False\<rparr>))"
  have 4: "lockStep t s3 s4" unfolding s4_def by (rule lockStep.FreeContext[OF 3(2)])
  define s5 where "s5 = goto t Rest (s4\<lparr>crypto_mu := None\<rparr>)"
  have 5: "lockStep t s4 s5" unfolding s5_def by (rule lockStep.UnlockMu) (simp add: s4_def)
  have part: "partEvents s2 DecSide = partEvents s DecSide" using 2 by (simp add: partEvents_def)
  have run: "(lockStep t)\<^sup>*\<^sup>* s s5"
    using 1 2(1) 3(1) 4 5 by (meson converse_rtranclp_into_rtranclp rtranclp.rtrancl_into_rtrancl rtranclp_trans)
  have "bundleOf kind dir s5 = fst (bundleClose (bundleOf kind dir s) w)"
    using 2 3 by (simp add: s5_def s4_def bundleOf_def bundleClose_def Let_def)
  then show ?thesis
    using run 2 3 part by (intro exI[of _ s5] exI[of _ "partEvents s EncSide @ partEvents s DecSide @
      (if ctx_field s \<and> ctx_ptr s then [Destroyed ctxHandle] else [])"]) (simp add: bundleClose_log s5_def s4_def)
qed

theorem close_alone_is_sequential_witness:
  "\<exists>s'. (lockStep 0)\<^sup>*\<^sup>* (goto 0 WantClose opened) s' \<and> pc s' 0 = Rest \<and>
    events s' = map Destroyed [firstOf EncSide, secondOf EncSide, firstOf DecSide, secondOf DecSide, ctxHandle]"
proof -
  let ?s = "goto 0 WantClose opened" and ?w = "\<lparr>tick = 0, nodes = [], c_log = []\<rparr> :: cgo_world"
  have s: "pc ?s 0 = WantClose" "crypto_mu ?s = None" "\<And>sd. writer ?s sd = None \<and> readers ?s sd = {}" "events ?s = []"
    by (simp_all add: opened_def)
  from close_alone_is_sequential[OF s(1-3), of rmpKind "(True, [])" ?w] obtain s' es where
    "(lockStep 0)\<^sup>*\<^sup>* ?s s'" "pc s' 0 = Rest" "events s' = es"
    "c_log (snd (bundleClose (bundleOf rmpKind (True, []) ?s) ?w)) = es"
    using s(4) by auto
  then show ?thesis
    by (intro exI[of _ s']) (simp add: bundleClose_log partEvents_def, simp add: opened_def)
qed

end
