(* ===== verification/Centroid_Cache.thy ===== *)
theory Centroid_Cache
  imports Client_Core
begin

text \<open>
  The centroid cache of a client shared by goroutines (\<open>centroidSetCached\<close> and
  \<open>InvalidateCentroidCache\<close> of \<open>clustering.go\<close>). The mutex covers the look at the cache and the
  publication of a fetched set, not the fetch between them, so the two critical sections are the
  atomic steps. The server's set may be replaced at any time.
\<close>

section \<open>The two critical sections\<close>

text \<open>The first: the cached pointer, if there is one to use.\<close>

definition look :: "Client \<Rightarrow> centroidSet option option" where
  "look c = (if cl_loaded c then Some (cl_centroids c) else None)"

text \<open>The second: what is cached and returned after a fetch.\<close>

definition publish :: "centroidSet \<Rightarrow> Client \<Rightarrow> Client \<times> centroidSet option" where
  "publish cs c =
     (if \<not> cl_loaded c then (c\<lparr>cl_centroids := Some cs, cl_loaded := True\<rparr>, Some cs) else (c, cl_centroids c))"

lemma centroidSetCached_sections:
  "centroidSetCached E w =
    (case look (cl w) of
       Some r \<Rightarrow> (Inr r, w)
     | None \<Rightarrow>
         (case fetchCentroids E w of
            (Inl e, w1) \<Rightarrow> (Inl e, w1)
          | (Inr cs, w1) \<Rightarrow> (Inr (snd (publish cs (cl w1))), w1\<lparr>cl := fst (publish cs (cl w1))\<rparr>)))"
  by (auto simp: centroidSetCached_def look_def publish_def andThen_def setClient_def run_simps split: prod.split sum.split)

section \<open>Steps\<close>

datatype fetchPoint = Away | Fetching | Got centroidSet

datatype cacheEvent = Replaced centroidSet | Invalidated | Returned nat "centroidSet option"

record shared_cache =
  shared :: Client
  server_set :: centroidSet
  fetching :: "nat \<Rightarrow> fetchPoint"
  history :: "cacheEvent list"

definition freshCache :: "Client \<Rightarrow> centroidSet \<Rightarrow> shared_cache" where
  "freshCache c cs = \<lparr>shared = c\<lparr>cl_centroids := None, cl_loaded := False\<rparr>, server_set = cs,
     fetching = (\<lambda>_. Away), history = []\<rparr>"

definition record_event :: "cacheEvent \<Rightarrow> shared_cache \<Rightarrow> shared_cache" where
  "record_event e s = s\<lparr>history := history s @ [e]\<rparr>"

definition movesTo :: "nat \<Rightarrow> fetchPoint \<Rightarrow> shared_cache \<Rightarrow> shared_cache" where
  "movesTo t p s = s\<lparr>fetching := (fetching s)(t := p)\<rparr>"

text \<open>
  A call looks (and returns or goes to fetch), receives the set the server has at that moment or
  fails, and publishes. An invalidation is one critical section.
\<close>

inductive cacheStep :: "shared_cache \<Rightarrow> shared_cache \<Rightarrow> bool" where
  Hit: "fetching s t = Away \<Longrightarrow> look (shared s) = Some r \<Longrightarrow> cacheStep s (record_event (Returned t r) s)"
| Miss: "fetching s t = Away \<Longrightarrow> look (shared s) = None \<Longrightarrow> cacheStep s (movesTo t Fetching s)"
| Answer: "fetching s t = Fetching \<Longrightarrow> cacheStep s (movesTo t (Got (server_set s)) s)"
| Fail: "fetching s t = Fetching \<Longrightarrow> cacheStep s (movesTo t Away s)"
| Publish: "fetching s t = Got cs \<Longrightarrow> publish cs (shared s) = (c, r) \<Longrightarrow>
    cacheStep s (record_event (Returned t r) (movesTo t Away (s\<lparr>shared := c\<rparr>)))"
| Invalidate: "cacheStep s (record_event Invalidated
    (s\<lparr>shared := (shared s)\<lparr>cl_centroids := None, cl_loaded := False\<rparr>\<rparr>))"
| Replace: "cacheStep s (record_event (Replaced cs) (s\<lparr>server_set := cs\<rparr>))"

inductive cacheRun :: "shared_cache \<Rightarrow> bool" where
  fresh: "cacheRun (freshCache c cs)"
| steps: "cacheRun s \<Longrightarrow> cacheStep s s' \<Longrightarrow> cacheRun s'"

inductive_cases cacheStepE: "cacheStep s s'"

lemma cache_simps [simp]:
  "shared (record_event e s) = shared s" "server_set (record_event e s) = server_set s"
  "fetching (record_event e s) = fetching s" "history (record_event e s) = history s @ [e]"
  "shared (movesTo t p s) = shared s" "server_set (movesTo t p s) = server_set s"
  "fetching (movesTo t p s) = (fetching s)(t := p)" "history (movesTo t p s) = history s"
  by (simp_all add: record_event_def movesTo_def)

section \<open>Convergence\<close>

definition converged :: "shared_cache \<Rightarrow> bool" where
  "converged s \<longleftrightarrow> cacheOK (shared s) \<and>
     (Invalidated \<notin> set (history s) \<longrightarrow>
       (\<forall>t r. Returned t r \<in> set (history s) \<longrightarrow> cl_loaded (shared s) \<and> r = cl_centroids (shared s)))"

lemma converged_step: "cacheStep s s' \<Longrightarrow> converged s \<Longrightarrow> converged s'"
  by (erule cacheStepE)
    (auto simp: converged_def look_def publish_def cacheOK_def split: if_splits)

lemma converged_run: "cacheRun s \<Longrightarrow> converged s"
proof (induction rule: cacheRun.induct)
  case (fresh c cs)
  show ?case by (simp add: converged_def freshCache_def cacheOK_def)
qed (rule converged_step)

text \<open>
  C25. Concurrent first callers converge. However the calls of any number of goroutines interleave,
  with fetches that fail or are answered by different sets while the server replaces its set: as
  long as nobody invalidates the cache, all calls that return a set return the same one, the
  one cached, and none returns nil.
\<close>

theorem concurrent_fetches_converge:
  assumes "cacheRun s" and "Invalidated \<notin> set (history s)"
    and "Returned t a \<in> set (history s)" and "Returned u b \<in> set (history s)"
  shows "a = b \<and> a = cl_centroids (shared s) \<and> a \<noteq> None"
  using converged_run[OF assms(1)] assms(2-4) by (auto simp: converged_def cacheOK_def)

section \<open>A lost invalidation\<close>

text \<open>
  C26. An invalidation can be lost. When a fetch is in flight, there is a run in which the server
  replaces its set, \<open>InvalidateCentroidCache\<close> is called after that, and yet the next call is
  served, and keeps being served, the old set: the late fetch finds the cache empty and
  publishes what it was answered before.
\<close>

theorem invalidation_can_be_lost:
  "\<exists>s. cacheRun s \<and> history s = [Replaced new, Invalidated, Returned 0 (Some old), Returned 1 (Some old)] \<and>
    server_set s = new \<and> cl_loaded (shared s) \<and> cl_centroids (shared s) = Some old"
proof -
  define s0 where "s0 = freshCache (cl sampleClientWorld) old"
  define s1 where "s1 = movesTo 0 (Got (server_set (movesTo 0 Fetching s0))) (movesTo 0 Fetching s0)"
  define s2 where "s2 = record_event (Replaced new) (s1\<lparr>server_set := new\<rparr>)"
  define s3 where "s3 = record_event Invalidated (s2\<lparr>shared := (shared s2)\<lparr>cl_centroids := None, cl_loaded := False\<rparr>\<rparr>)"
  define s4 where "s4 = record_event (Returned 0 (Some old)) (movesTo 0 Away
    (s3\<lparr>shared := (shared s3)\<lparr>cl_centroids := Some old, cl_loaded := True\<rparr>\<rparr>))"
  define s5 where "s5 = record_event (Returned 1 (Some old)) s4"
  note defs = s0_def s1_def s2_def s3_def s4_def s5_def freshCache_def look_def publish_def
  have 0: "cacheRun s0" unfolding s0_def by (rule cacheRun.fresh)
  have "cacheRun (movesTo 0 Fetching s0)"
    by (rule cacheRun.steps[OF 0 cacheStep.Miss]) (simp_all add: defs)
  then have 1: "cacheRun s1"
    unfolding s1_def by (rule cacheRun.steps[OF _ cacheStep.Answer]) simp
  have 2: "cacheRun s2" unfolding s2_def by (rule cacheRun.steps[OF 1 cacheStep.Replace])
  have 3: "cacheRun s3" unfolding s3_def by (rule cacheRun.steps[OF 2 cacheStep.Invalidate])
  have 4: "cacheRun s4"
    unfolding s4_def by (rule cacheRun.steps[OF 3 cacheStep.Publish[where cs = old]]) (simp_all add: defs)
  have "cacheRun s5"
    unfolding s5_def by (rule cacheRun.steps[OF 4 cacheStep.Hit]) (simp_all add: defs)
  then show ?thesis by (intro exI[of _ s5]) (simp add: defs)
qed

theorem concurrent_fetches_converge_witness:
  "\<exists>s. cacheRun s \<and> history s = [Returned 0 (Some sampleSet)] \<and> cl_centroids (shared s) = Some sampleSet"
proof -
  define s0 where "s0 = freshCache (cl sampleClientWorld) sampleSet"
  define s1 where "s1 = movesTo 0 (Got (server_set (movesTo 0 Fetching s0))) (movesTo 0 Fetching s0)"
  define s2 where "s2 = record_event (Returned 0 (Some sampleSet)) (movesTo 0 Away
    (s1\<lparr>shared := (shared s1)\<lparr>cl_centroids := Some sampleSet, cl_loaded := True\<rparr>\<rparr>))"
  note defs = s0_def s1_def s2_def freshCache_def look_def publish_def
  have "cacheRun (movesTo 0 Fetching s0)"
    unfolding s0_def by (rule cacheRun.steps[OF cacheRun.fresh cacheStep.Miss]) (simp_all add: defs)
  then have 1: "cacheRun s1"
    unfolding s1_def by (rule cacheRun.steps[OF _ cacheStep.Answer]) simp
  have 2: "cacheRun s2"
    unfolding s2_def by (rule cacheRun.steps[OF 1 cacheStep.Publish[where cs = sampleSet]]) (simp_all add: defs)
  have h: "history s2 = [Returned 0 (Some sampleSet)]" by (simp add: defs)
  then have "Invalidated \<notin> set (history s2)" "Returned 0 (Some sampleSet) \<in> set (history s2)" by simp_all
  from concurrent_fetches_converge[OF 2 this(1,2,2)] 2 h show ?thesis by auto
qed

end
