(* ===== verification/Client_Mutex.thy ===== *)
theory Client_Mutex
  imports Search_Path
begin

text \<open>
  The connection and the bound key set of a client shared by goroutines (\<open>Close\<close>, \<open>connOK\<close>,
  \<open>UseKeys\<close> and the guards of \<open>Insert\<close>, \<open>Search\<close> and \<open>InsertPreEncrypted\<close> in \<open>client.go\<close> and
  \<open>insertpre.go\<close>). \<open>mu\<close> covers the exchange of the connection, the look at connection and keys
  and the binding of keys; the closing of the connection and the work of an operation run
  outside it. The critical sections are the atomic steps.
\<close>

section \<open>Critical sections\<close>

text \<open>\<open>Close\<close> takes the connection out of the client.\<close>

definition takeConn :: "Client \<Rightarrow> bool \<times> Client" where
  "takeConn c = (cl_conn c, c\<lparr>cl_conn := False\<rparr>)"

text \<open>An operation copies both fields.\<close>

definition snapshotOf :: "Client \<Rightarrow> bool \<times> keysRef" where
  "snapshotOf c = (cl_conn c, cl_keys c)"

definition bindKeys :: "keysRef \<Rightarrow> Client \<Rightarrow> Client" where
  "bindKeys k c = c\<lparr>cl_keys := k\<rparr>"

text \<open>The sequential operations are made of these sections.\<close>

lemma ClientClose_sections:
  "ClientClose E w =
     (let w1 = w\<lparr>cl := snd (takeConn (cl w))\<rparr> in
      if \<not> fst (takeConn (cl w)) then (Inr (), w1)
      else (case conn_close E (tick w1) of None \<Rightarrow> Inr () | Some e \<Rightarrow> Inl e, w1\<lparr>tick := Suc (tick w1)\<rparr>))"
  by (simp add: ClientClose_def takeConn_def andThen_def run_simps setClient_def Let_def)

lemma connOK_section: "connOK w = fst (snapshotOf (cl w))"
  by (simp add: connOK_def snapshotOf_def)

lemma UseKeys_section: "UseKeys k w = (Inr (), w\<lparr>cl := bindKeys k (cl w)\<rparr>)"
  by (simp add: UseKeys_def setClient_def bindKeys_def run_simps)

lemma withKeys_section:
  "withKeys vec k w =
     (case snapshotOf (cl w) of (conn, ref) \<Rightarrow>
        if \<not> conn then (Inl (Sentinel ErrClientClosed), w)
        else (case keysAt w ref of
            None \<Rightarrow> (Inl (Sentinel ErrKeysNotRegistered), w)
          | Some ks \<Rightarrow>
              if int (length vec) \<noteq> KeysDim ks then (Inl (dimMismatch (int (length vec)) (KeysDim ks)), w)
              else k ref w))"
  by (simp add: withKeys_def snapshotOf_def andThen_def run_simps split: option.split)

section \<open>Steps\<close>

datatype cpoint = Outside | Closing bool | Working keysRef

datatype connEvent =
    Cut nat | ConnClosed nat | CloseDone nat
  | Refused nat | Entered nat keysRef | Sends nat | Encrypts nat keysRef | Leaves nat
  | Bound nat keysRef

record shared_conn =
  sc_client :: Client
  sc_at :: "nat \<Rightarrow> cpoint"
  sc_events :: "connEvent list"

definition dialled :: "Client \<Rightarrow> shared_conn" where
  "dialled c = \<lparr>sc_client = c\<lparr>cl_conn := True\<rparr>, sc_at = (\<lambda>_. Outside), sc_events = []\<rparr>"

definition moves :: "nat \<Rightarrow> cpoint \<Rightarrow> connEvent \<Rightarrow> shared_conn \<Rightarrow> shared_conn" where
  "moves t p e s = s\<lparr>sc_at := (sc_at s)(t := p), sc_events := sc_events s @ [e]\<rparr>"

text \<open>
  \<open>Close\<close>: take the connection, close what was taken, return. An operation: look, and either
  return \<open>ErrClientClosed\<close> or work, sending requests and using the key set it saw. Keys may be
  bound at any time.
\<close>

inductive connStep :: "shared_conn \<Rightarrow> shared_conn \<Rightarrow> bool" where
  Take: "sc_at s t = Outside \<Longrightarrow> takeConn (sc_client s) = (conn, c) \<Longrightarrow>
    connStep s (moves t (Closing conn) (Cut t) (s\<lparr>sc_client := c\<rparr>))"
| CloseConn: "sc_at s t = Closing True \<Longrightarrow> connStep s (moves t (Closing False) (ConnClosed t) s)"
| CloseReturn: "sc_at s t = Closing False \<Longrightarrow> connStep s (moves t Outside (CloseDone t) s)"
| Refuse: "sc_at s t = Outside \<Longrightarrow> \<not> fst (snapshotOf (sc_client s)) \<Longrightarrow>
    connStep s (moves t Outside (Refused t) s)"
| Enter: "sc_at s t = Outside \<Longrightarrow> snapshotOf (sc_client s) = (True, k) \<Longrightarrow>
    connStep s (moves t (Working k) (Entered t k) s)"
| Send: "sc_at s t = Working k \<Longrightarrow> connStep s (moves t (Working k) (Sends t) s)"
| Encrypt: "sc_at s t = Working k \<Longrightarrow> connStep s (moves t (Working k) (Encrypts t k) s)"
| Leave: "sc_at s t = Working k \<Longrightarrow> connStep s (moves t Outside (Leaves t) s)"
| Bind: "connStep s (moves t (sc_at s t) (Bound t k) (s\<lparr>sc_client := bindKeys k (sc_client s)\<rparr>))"

inductive connRun :: "shared_conn \<Rightarrow> bool" where
  dial: "connRun (dialled c)"
| next_step: "connRun s \<Longrightarrow> connStep s s' \<Longrightarrow> connRun s'"

inductive_cases connStepE: "connStep s s'"

lemma moves_simps [simp]:
  "sc_client (moves t p e s) = sc_client s" "sc_at (moves t p e s) = (sc_at s)(t := p)"
  "sc_events (moves t p e s) = sc_events s @ [e]"
  by (simp_all add: moves_def)

section \<open>Invariants\<close>

definition isCut :: "connEvent \<Rightarrow> bool" where
  "isCut e = (case e of Cut t \<Rightarrow> True | _ \<Rightarrow> False)"

definition isClosed :: "connEvent \<Rightarrow> bool" where
  "isClosed e = (case e of ConnClosed t \<Rightarrow> True | _ \<Rightarrow> False)"

definition closings :: "shared_conn \<Rightarrow> nat" where
  "closings s = length (filter isClosed (sc_events s))"

lemma event_simps [simp]:
  "isCut (Cut t)" "\<not> isCut (ConnClosed t)" "\<not> isCut (CloseDone t)" "\<not> isCut (Refused t)"
  "\<not> isCut (Entered t k)" "\<not> isCut (Sends t)" "\<not> isCut (Encrypts t k)" "\<not> isCut (Leaves t)" "\<not> isCut (Bound t k)"
  "isClosed (ConnClosed t)" "\<not> isClosed (Cut t)" "\<not> isClosed (CloseDone t)" "\<not> isClosed (Refused t)"
  "\<not> isClosed (Entered t k)" "\<not> isClosed (Sends t)" "\<not> isClosed (Encrypts t k)" "\<not> isClosed (Leaves t)"
  "\<not> isClosed (Bound t k)"
  by (simp_all add: isCut_def isClosed_def)

text \<open>The connection is in the client, or in the hands of one closer, or closed.\<close>

definition holders :: "shared_conn \<Rightarrow> nat set" where
  "holders s = {t. sc_at s t = Closing True}"

definition wasCut :: "shared_conn \<Rightarrow> bool" where
  "wasCut s \<longleftrightarrow> list_ex isCut (sc_events s)"

lemma owner_simps [simp]:
  "holders (moves t p e s) = (if p = Closing True then insert t (holders s) else holders s - {t})"
  "wasCut (moves t p e s) \<longleftrightarrow> wasCut s \<or> isCut e"
  "closings (moves t p e s) = closings s + (if isClosed e then 1 else 0)"
  "holders (s\<lparr>sc_client := c\<rparr>) = holders s" "wasCut (s\<lparr>sc_client := c\<rparr>) = wasCut s"
  "closings (s\<lparr>sc_client := c\<rparr>) = closings s"
  by (auto simp: holders_def wasCut_def closings_def)

definition oneOwner :: "shared_conn \<Rightarrow> bool" where
  "oneOwner s \<longleftrightarrow>
     (if cl_conn (sc_client s) then \<not> wasCut s \<and> holders s = {} \<and> closings s = 0
      else wasCut s \<and> ((\<exists>t. holders s = {t}) \<and> closings s = 0 \<or> holders s = {} \<and> closings s = 1))"

lemma holders_minus [simp]: "sc_at s t \<noteq> Closing True \<Longrightarrow> holders s - {t} = holders s"
  by (auto simp: holders_def)

lemma holders_insert [simp]: "sc_at s t = Closing True \<Longrightarrow> insert t (holders s) = holders s"
  by (auto simp: holders_def)

lemma oneOwner_step:
  assumes "connStep s s'" "oneOwner s"
  shows "oneOwner s'"
  using assms(1)
proof (cases rule: connStep.cases)
  case (Take t conn c)
  then show ?thesis using assms(2) by (cases conn) (auto simp: oneOwner_def takeConn_def)
next
  case (CloseConn t)
  then have "t \<in> holders s" by (simp add: holders_def)
  then show ?thesis using CloseConn assms(2) by (auto simp: oneOwner_def split: if_splits)
next
  case (Bind t k)
  have "holders s = {} \<Longrightarrow> sc_at s t \<noteq> Closing True" by (auto simp: holders_def)
  then show ?thesis using Bind assms(2) by (cases "sc_at s t = Closing True") (auto simp: oneOwner_def bindKeys_def)
qed (use assms(2) in \<open>auto simp: oneOwner_def\<close>)

text \<open>Nobody enters after a cut.\<close>

definition cutIsFinal :: "connEvent list \<Rightarrow> bool" where
  "cutIsFinal es \<longleftrightarrow> (\<forall>pre e post. es = pre @ e # post \<longrightarrow> isCut e \<longrightarrow> (\<forall>t k. Entered t k \<notin> set post))"

lemma cutIsFinal_snoc:
  assumes "cutIsFinal es" "\<And>t k. e = Entered t k \<Longrightarrow> \<forall>d \<in> set es. \<not> isCut d"
  shows "cutIsFinal (es @ [e])"
  unfolding cutIsFinal_def
proof (intro allI impI)
  fix pre c post t k
  assume s: "es @ [e] = pre @ c # post" and c: "isCut c"
  show "Entered t k \<notin> set post"
  proof (cases post rule: rev_cases)
    case (snoc post' x)
    then have "es = pre @ c # post'" "x = e" using s by (metis append_Cons append_assoc butlast_snoc, metis append_Cons append_assoc last_snoc)
    moreover from this have "Entered t k \<notin> set post'" using assms(1) c unfolding cutIsFinal_def by blast
    ultimately show ?thesis using assms(2)[of t k] c snoc by auto
  qed simp
qed

text \<open>Where an operation works, the key set is the one it entered with.\<close>

definition lastEntered :: "nat \<Rightarrow> connEvent list \<Rightarrow> keysRef option" where
  "lastEntered t es = fold (\<lambda>e a. case e of Entered u k \<Rightarrow> if u = t then Some k else a | _ \<Rightarrow> a) es None"

lemma lastEntered_snoc [simp]:
  "lastEntered t (es @ [e]) =
     (case e of Entered u k \<Rightarrow> if u = t then Some k else lastEntered t es | _ \<Rightarrow> lastEntered t es)"
  by (cases e) (simp_all add: lastEntered_def)

definition ownKeys :: "shared_conn \<Rightarrow> bool" where
  "ownKeys s \<longleftrightarrow> (\<forall>t k. sc_at s t = Working k \<longrightarrow> lastEntered t (sc_events s) = Some k) \<and>
     (\<forall>pre t k post. sc_events s = pre @ Encrypts t k # post \<longrightarrow> lastEntered t pre = Some k)"

lemma events_before:
  assumes "es @ [e] = pre @ d # post"
  shows "(\<exists>post'. post = post' @ [e] \<and> es = pre @ d # post') \<or> post = [] \<and> d = e \<and> pre = es"
  using assms by (cases post rule: rev_cases) auto

lemma ownKeys_client [simp]: "ownKeys (s\<lparr>sc_client := c\<rparr>) = ownKeys s"
  by (simp add: ownKeys_def)

lemma ownKeys_moves:
  assumes "ownKeys s" "sc_at s t = p0"
    and "\<And>k. p = Working k \<Longrightarrow> p0 = Working k \<and> (\<forall>u l. e \<noteq> Entered u l) \<or> e = Entered t k"
    and "\<And>u k. e = Entered u k \<Longrightarrow> u = t"
    and "\<And>u k. e = Encrypts u k \<Longrightarrow> u = t \<and> p0 = Working k"
  shows "ownKeys (moves t p e s)"
proof -
  have "lastEntered u (sc_events s @ [e]) = Some k" if "((sc_at s)(t := p)) u = Working k" for u k
    using that assms unfolding ownKeys_def by (cases e) (auto split: if_splits)
  moreover have "lastEntered u pre = Some k" if "sc_events s @ [e] = pre @ Encrypts u k # post" for pre u k post
    using events_before[OF that] assms unfolding ownKeys_def by auto
  ultimately show ?thesis by (simp add: ownKeys_def)
qed

lemma ownKeys_step: "connStep s s' \<Longrightarrow> ownKeys s \<Longrightarrow> ownKeys s'"
  by (erule connStepE) (auto intro!: ownKeys_moves)

lemma cutIsFinal_step:
  assumes "connStep s s'" "oneOwner s" "cutIsFinal (sc_events s)"
  shows "cutIsFinal (sc_events s')"
  using assms(1)
proof (cases rule: connStep.cases)
  case (Enter t k)
  then have "cl_conn (sc_client s)" by (simp add: snapshotOf_def)
  then have "\<forall>d \<in> set (sc_events s). \<not> isCut d" using assms(2)
    by (simp add: oneOwner_def wasCut_def list_ex_iff)
  then show ?thesis using Enter assms(3) by (simp add: cutIsFinal_snoc)
qed (use assms(3) in \<open>auto intro!: cutIsFinal_snoc\<close>)

lemma connRun_invariant: "connRun s \<Longrightarrow> oneOwner s \<and> cutIsFinal (sc_events s) \<and> ownKeys s"
proof (induction rule: connRun.induct)
  case (dial c)
  show ?case
    by (simp add: dialled_def oneOwner_def wasCut_def holders_def closings_def cutIsFinal_def ownKeys_def)
next
  case (next_step s s')
  then show ?case using oneOwner_step cutIsFinal_step ownKeys_step by blast
qed

section \<open>The contract of a shared client\<close>

text \<open>
  C6. However goroutines close, use and rebind one client: the connection is closed at most
  once, and exactly once when some \<open>Close\<close> has been called and no closer is still on its way to
  it; no operation gets past its guard after the first \<open>Close\<close> took the connection; and every
  encryption of an operation uses the key set the operation saw at its start, even when \<open>UseKeys\<close>
  binds another one meanwhile.
\<close>

theorem shared_client_contract:
  assumes "connRun s"
  shows "closings s \<le> 1 \<and> (wasCut s \<longrightarrow> (\<forall>t. sc_at s t \<noteq> Closing True) \<longrightarrow> closings s = 1) \<and>
    (\<forall>pre t post u k. sc_events s = pre @ Cut t # post \<longrightarrow> Entered u k \<notin> set post) \<and>
    (\<forall>pre t k post. sc_events s = pre @ Encrypts t k # post \<longrightarrow> lastEntered t pre = Some k)"
proof -
  have inv: "oneOwner s" "cutIsFinal (sc_events s)" "ownKeys s" using connRun_invariant[OF assms] by auto
  have "closings s \<le> 1" "wasCut s \<Longrightarrow> \<forall>t. sc_at s t \<noteq> Closing True \<Longrightarrow> closings s = 1"
    using inv(1) by (auto simp: oneOwner_def holders_def split: if_splits)
  moreover have "sc_events s = pre @ Cut t # post \<Longrightarrow> Entered u k \<notin> set post" for pre t post u k
    using inv(2) unfolding cutIsFinal_def by (meson event_simps(1))
  ultimately show ?thesis using inv(3) unfolding ownKeys_def by blast
qed

text \<open>
  Goroutine 1 starts an operation with one key set, another is bound, the operation encrypts, the
  client is closed by goroutine 0 while goroutine 1 is still at work.
\<close>

lemma shared_client_contract_witness:
  "\<exists>s. connRun s \<and> wasCut s \<and> sc_at s 1 = Working (cl_keys (cl sampleClientWorld)) \<and>
     cl_keys (sc_client s) \<noteq> cl_keys (cl sampleClientWorld) \<and> closings s \<le> 1 \<and>
     (\<exists>pre post. sc_events s = pre @ Encrypts 1 (cl_keys (cl sampleClientWorld)) # post \<and>
        lastEntered 1 pre = Some (cl_keys (cl sampleClientWorld)))"
proof -
  let ?k = "cl_keys (cl sampleClientWorld)" and ?s0 = "dialled (cl sampleClientWorld)"
  define s1 where "s1 = moves 1 (Working ?k) (Entered 1 ?k) ?s0"
  define s2 where "s2 = moves 2 (sc_at s1 2) (Bound 2 None) (s1\<lparr>sc_client := bindKeys None (sc_client s1)\<rparr>)"
  define s3 where "s3 = moves 1 (Working ?k) (Encrypts 1 ?k) s2"
  define s4 where "s4 = moves 0 (Closing True) (Cut 0) (s3\<lparr>sc_client := snd (takeConn (sc_client s3))\<rparr>)"
  note defs = s1_def s2_def s3_def s4_def dialled_def takeConn_def snapshotOf_def bindKeys_def
  have "connRun s1" unfolding s1_def
    by (rule connRun.next_step[OF connRun.dial connStep.Enter]) (simp_all add: defs)
  then have "connRun s2" unfolding s2_def by (rule connRun.next_step[OF _ connStep.Bind])
  then have "connRun s3" unfolding s3_def
    by (rule connRun.next_step[OF _ connStep.Encrypt]) (simp_all add: defs)
  then have run: "connRun s4" unfolding s4_def
    by (rule connRun.next_step[OF _ connStep.Take]) (simp_all add: defs)
  have "sc_events s4 = [Entered 1 ?k, Bound 2 None] @ Encrypts 1 ?k # [Cut 0]" by (simp add: defs)
  moreover from this have "lastEntered 1 [Entered 1 ?k, Bound 2 None] = Some ?k" "closings s4 \<le> 1"
    using shared_client_contract[OF run] by blast+
  moreover have "wasCut s4" "sc_at s4 1 = Working ?k" "cl_keys (sc_client s4) = None"
    by (simp_all add: defs wasCut_def)
  ultimately show ?thesis using run
    by (intro exI[of _ s4] conjI exI[of _ "[Entered 1 ?k, Bound 2 None]"] exI[of _ "[Cut 0]"])
      (simp_all add: sampleClientWorld_def)
qed

text \<open>A second closer may return before the first has closed the connection.\<close>

lemma close_returns_early:
  "\<exists>s. connRun s \<and> CloseDone 1 \<in> set (sc_events s) \<and> closings s = 0"
proof -
  let ?s0 = "dialled (cl sampleClientWorld)"
  define s1 where "s1 = moves 0 (Closing True) (Cut 0) (?s0\<lparr>sc_client := snd (takeConn (sc_client ?s0))\<rparr>)"
  define s2 where "s2 = moves 1 (Closing False) (Cut 1) (s1\<lparr>sc_client := snd (takeConn (sc_client s1))\<rparr>)"
  define s3 where "s3 = moves 1 Outside (CloseDone 1) s2"
  note defs = s1_def s2_def s3_def dialled_def takeConn_def
  have "connRun s1" unfolding s1_def
    by (rule connRun.next_step[OF connRun.dial connStep.Take]) (simp_all add: defs)
  then have "connRun s2" unfolding s2_def
    by (rule connRun.next_step[OF _ connStep.Take]) (simp_all add: defs)
  then have "connRun s3" unfolding s3_def
    by (rule connRun.next_step[OF _ connStep.CloseReturn]) (simp_all add: defs)
  then show ?thesis by (intro exI[of _ s3]) (simp add: defs closings_def)
qed

end
