(* ===== verification/Thread_Pinning.thy ===== *)
theory Thread_Pinning
  imports Crypto_Provider "HOL-Library.Sublist"
begin

text \<open>
  \<open>pinThread\<close> of \<open>internal/crypto/cryptocgo.go\<close>. The evi library and the two shims report a
  failure by a status and a message that stays in a buffer local to the OS thread; the Go
  code fetches it with a second call. The scheduler may move a goroutine to another thread
  between the two, so every function that calls the library begins with
  \<open>defer pinThread()()\<close>. Here any number of goroutines run any number of those functions on
  any number of threads; a goroutine may be parked before every step and resumed on any
  thread that is free, unless \<open>LockOSThread\<close> wired it to one.
\<close>

section \<open>Instructions\<close>

text \<open>
  The three buffers: \<open>evi_last_error_message\<close>, \<open>evi_km_last_error\<close> and \<open>evi_enc_last_error\<close>.
  A call leaves its message in its buffer, the empty one when it succeeds
  (\<open>invoke_and_catch\<close> and \<open>runGuarded\<close>).
\<close>

datatype errbuf = EviBuf | KmBuf | EncBuf

datatype instr =
    LockOSThread | UnlockOSThread
  | CCall errbuf string
  | CDestroy
  | ReadLast errbuf

text \<open>\<open>pinThread()\<close> locks at once and returns the unlocking, which is deferred.\<close>

definition pinThread :: "instr list \<times> instr list" where
  "pinThread = ([LockOSThread], [UnlockOSThread])"

definition pinned :: "instr list \<Rightarrow> instr list" where
  "pinned body = fst pinThread @ body @ snd pinThread"

section \<open>The functions that call the library\<close>

datatype cgoFun =
    FWrapSecKey | FWrapEncKey | FWrapEvalKey | FUnwrapSecKey | FUnwrapEncKey | FUnwrapEvalKey
  | FNewCKKSContext | FGenerate | FNewEncryptor | FEncryptSingle | FEncryptRow
  | FNewDecryptor | FDecryptSearchResult

text \<open>
  The fallible calls of each function in order, with the buffer each reports to and the
  objects the function destroys on its failure before it asks for the message.
\<close>

definition generateCalls :: "(string \<times> errbuf \<times> nat) list" where
  "generateCalls =
    [(''evi_context_create'', EviBuf, 0), (''evi_keypack_create'', EviBuf, 0),
     (''evi_keygenerator_create'', EviBuf, 0), (''evi_keygenerator_generate_secret_key'', EviBuf, 0),
     (''evi_keygenerator_generate_public_keys'', EviBuf, 0), (''evi_keypack_save_enc_key'', EviBuf, 0),
     (''evi_keypack_save_eval_key'', EviBuf, 0), (''evi_km_wrap_sec_key_from_handle'', KmBuf, 0)]"

definition newEncryptorCalls :: "(string \<times> errbuf \<times> nat) list" where
  "newEncryptorCalls = [(''evi_keypack_create'', EviBuf, 0), (''evi_keypack_load_enc_key'', EviBuf, 1),
     (''evi_encryptor_create'', EviBuf, 1)]"

definition encryptSingleCalls :: "(string \<times> errbuf \<times> nat) list" where
  "encryptSingleCalls =
    [(''evi_encryptor_encrypt_batch_with_pack'', EviBuf, 0), (''evi_query_serialize_to_string'', EviBuf, 0)]"

definition encryptRowCalls :: "(string \<times> errbuf \<times> nat) list" where
  "encryptRowCalls = [(''evi_enc_encrypt_row'', EncBuf, 0)]"

definition newDecryptorCalls :: "(string \<times> errbuf \<times> nat) list" where
  "newDecryptorCalls = [(''evi_secret_key_create_from_path'', EviBuf, 0), (''evi_decryptor_create'', EviBuf, 1)]"

definition decryptCalls :: "(string \<times> errbuf \<times> nat) list" where
  "decryptCalls =
    [(''evi_search_result_deserialize_from_string'', EviBuf, 0),
     (''evi_decryptor_decrypt_search_result_with_seckey'', EviBuf, 0),
     (''evi_search_result_get_item_count'', EviBuf, 0)]"

definition newContextCalls :: "(string \<times> errbuf \<times> nat) list" where
  "newContextCalls = [(''evi_context_create'', EviBuf, 0)]"

fun libCalls :: "cgoFun \<Rightarrow> (string \<times> errbuf \<times> nat) list" where
  "libCalls FWrapSecKey = [(''evi_km_wrap_sec_key'', KmBuf, 0)]"
| "libCalls FWrapEncKey = [(''evi_km_wrap_enc_key'', KmBuf, 0)]"
| "libCalls FWrapEvalKey = [(''evi_km_wrap_eval_key'', KmBuf, 0)]"
| "libCalls FUnwrapSecKey = [(''evi_km_unwrap_sec_key'', KmBuf, 0)]"
| "libCalls FUnwrapEncKey = [(''evi_km_unwrap_enc_key'', KmBuf, 0)]"
| "libCalls FUnwrapEvalKey = [(''evi_km_unwrap_eval_key'', KmBuf, 0)]"
| "libCalls FNewCKKSContext = newContextCalls"
| "libCalls FGenerate = generateCalls"
| "libCalls FNewEncryptor = newEncryptorCalls"
| "libCalls FEncryptSingle = encryptSingleCalls"
| "libCalls FEncryptRow = encryptRowCalls"
| "libCalls FNewDecryptor = newDecryptorCalls"
| "libCalls FDecryptSearchResult = decryptCalls"

lemmas call_lists = generateCalls_def newEncryptorCalls_def encryptSingleCalls_def encryptRowCalls_def
  newDecryptorCalls_def decryptCalls_def newContextCalls_def

text \<open>
  The six key envelope functions pass the status to \<open>kmShimError\<close> whatever it is, and that
  reads the message first; the others ask for it only after a failure.
\<close>

fun alwaysReads :: "cgoFun \<Rightarrow> bool" where
  "alwaysReads f = (f \<in> {FWrapSecKey, FWrapEncKey, FWrapEvalKey, FUnwrapSecKey, FUnwrapEncKey, FUnwrapEvalKey})"

text \<open>
  What a function does when its calls end with the given outcomes (\<open>Some\<close> the message of a
  failure). With fewer outcomes than calls it returned early for a reason of its own.
\<close>

fun libRun :: "bool \<Rightarrow> (string \<times> errbuf \<times> nat) list \<Rightarrow> string option list \<Rightarrow> instr list" where
  "libRun alw ((op, b, n) # cs) (None # os) =
     CCall b [] # (if alw then [ReadLast b] else []) @ libRun alw cs os"
| "libRun alw ((op, b, n) # cs) (Some m # os) = CCall b m # replicate n CDestroy @ [ReadLast b]"
| "libRun alw _ _ = []"

type_synonym job = "cgoFun \<times> string option list"

definition jobBody :: "job \<Rightarrow> instr list" where
  "jobBody j = (case j of (f, os) \<Rightarrow> libRun (alwaysReads f) (libCalls f) os)"

definition jobsCode :: "job list \<Rightarrow> instr list" where
  "jobsCode js = concat (map (\<lambda>j. pinned (jobBody j)) js)"

text \<open>
  The messages a function should get: those of its own failing call. A destructor is not
  fallible and its effect on the evi buffer is the library's affair: the parameter \<open>D\<close>, the
  field \<open>c_destroyed\<close> of the sequential model.
\<close>

fun ownMessages :: "(string \<Rightarrow> string) \<Rightarrow> bool \<Rightarrow> (string \<times> errbuf \<times> nat) list \<Rightarrow> string option list \<Rightarrow> string list" where
  "ownMessages D alw ((op, b, n) # cs) (None # os) = (if alw then [[]] else []) @ ownMessages D alw cs os"
| "ownMessages D alw ((op, b, n) # cs) (Some m # os) = [if b = EviBuf then (D ^^ n) m else m]"
| "ownMessages D alw _ _ = []"

definition jobMessages :: "(string \<Rightarrow> string) \<Rightarrow> job list \<Rightarrow> string list" where
  "jobMessages D js = concat (map (\<lambda>(f, os). ownMessages D (alwaysReads f) (libCalls f) os) js)"

section \<open>Goroutines on threads\<close>

text \<open>
  \<open>on_thread\<close> says where a goroutine runs now, \<open>pins\<close> how many locks it holds on the thread
  \<open>home\<close>.
\<close>

record osched =
  on_thread :: "nat \<Rightarrow> nat option"
  pins :: "nat \<Rightarrow> nat"
  home :: "nat \<Rightarrow> nat"
  buffers :: "nat \<Rightarrow> errbuf \<Rightarrow> string"
  todo :: "nat \<Rightarrow> instr list"
  got :: "nat \<Rightarrow> string list"

definition mayRunOn :: "osched \<Rightarrow> nat \<Rightarrow> nat \<Rightarrow> bool" where
  "mayRunOn s g t \<longleftrightarrow> (\<forall>h. on_thread s h \<noteq> Some t) \<and> (\<forall>h. h \<noteq> g \<longrightarrow> 0 < pins s h \<longrightarrow> home s h \<noteq> t) \<and>
     (0 < pins s g \<longrightarrow> home s g = t)"

fun exec :: "(string \<Rightarrow> string) \<Rightarrow> nat \<Rightarrow> nat \<Rightarrow> instr \<Rightarrow> osched \<Rightarrow> osched" where
  "exec D g t LockOSThread s = s\<lparr>pins := (pins s)(g := Suc (pins s g)), home := (home s)(g := t)\<rparr>"
| "exec D g t UnlockOSThread s = s\<lparr>pins := (pins s)(g := pins s g - 1)\<rparr>"
| "exec D g t (CCall b m) s = s\<lparr>buffers := (buffers s)(t := (buffers s t)(b := m))\<rparr>"
| "exec D g t CDestroy s = s\<lparr>buffers := (buffers s)(t := (buffers s t)(EviBuf := D (buffers s t EviBuf)))\<rparr>"
| "exec D g t (ReadLast b) s = s\<lparr>got := (got s)(g := got s g @ [buffers s t b])\<rparr>"

inductive schedStep :: "(string \<Rightarrow> string) \<Rightarrow> osched \<Rightarrow> osched \<Rightarrow> bool" for D where
  Resume: "on_thread s g = None \<Longrightarrow> mayRunOn s g t \<Longrightarrow>
    schedStep D s (s\<lparr>on_thread := (on_thread s)(g := Some t)\<rparr>)"
| Park: "on_thread s g = Some t \<Longrightarrow> schedStep D s (s\<lparr>on_thread := (on_thread s)(g := None)\<rparr>)"
| Exec: "on_thread s g = Some t \<Longrightarrow> todo s g = i # r \<Longrightarrow>
    schedStep D s (exec D g t i (s\<lparr>todo := (todo s)(g := r)\<rparr>))"

text \<open>Goroutine \<open>g\<close> has the jobs \<open>prog g\<close> before it, and the buffers hold anything.\<close>

definition launched :: "(nat \<Rightarrow> errbuf \<Rightarrow> string) \<Rightarrow> (nat \<Rightarrow> job list) \<Rightarrow> osched" where
  "launched bs prog = \<lparr>on_thread = (\<lambda>_. None), pins = (\<lambda>_. 0), home = (\<lambda>_. 0), buffers = bs,
     todo = (\<lambda>g. jobsCode (prog g)), got = (\<lambda>_. [])\<rparr>"

inductive schedRun :: "(string \<Rightarrow> string) \<Rightarrow> (nat \<Rightarrow> job list) \<Rightarrow> osched \<Rightarrow> bool" for D prog where
  start: "schedRun D prog (launched bs prog)"
| more: "schedRun D prog s \<Longrightarrow> schedStep D s s' \<Longrightarrow> schedRun D prog s'"

section \<open>A function alone\<close>

fun solo :: "(string \<Rightarrow> string) \<Rightarrow> (errbuf \<Rightarrow> string) \<Rightarrow> instr list \<Rightarrow> string list" where
  "solo D b [] = []"
| "solo D b (CCall e m # is) = solo D (b(e := m)) is"
| "solo D b (CDestroy # is) = solo D (b(EviBuf := D (b EviBuf))) is"
| "solo D b (ReadLast e # is) = b e # solo D b is"
| "solo D b (LockOSThread # is) = solo D b is"
| "solo D b (UnlockOSThread # is) = solo D b is"

definition plain :: "instr list \<Rightarrow> bool" where
  "plain is \<longleftrightarrow> LockOSThread \<notin> set is \<and> UnlockOSThread \<notin> set is"

lemma plain_simps [simp]:
  "plain []" "plain (i # is) \<longleftrightarrow> i \<noteq> LockOSThread \<and> i \<noteq> UnlockOSThread \<and> plain is"
  "plain (is @ js) \<longleftrightarrow> plain is \<and> plain js" "plain (replicate n CDestroy)"
  by (auto simp: plain_def)

lemma solo_destroys [simp]:
  "solo D b (replicate n CDestroy @ is) = solo D (b(EviBuf := (D ^^ n) (b EviBuf))) is"
  by (induction n arbitrary: b) (simp_all add: funpow_swap1 del: funpow.simps(2) add: funpow_Suc_right)

lemma solo_libRun: "solo D b (libRun alw cs os) = ownMessages D alw cs os"
  by (induction alw cs os arbitrary: b rule: libRun.induct) auto

lemma plain_jobBody: "plain (jobBody j)"
proof -
  have "plain (libRun alw cs os)" for alw cs os
    by (induction alw cs os rule: libRun.induct) simp_all
  then show ?thesis by (simp add: jobBody_def split: prod.split)
qed

lemma solo_jobBody: "solo D b (jobBody j) @ jobMessages D js = jobMessages D (j # js)"
  by (simp add: jobBody_def jobMessages_def solo_libRun split: prod.split)

lemma jobsCode_simps [simp]:
  "jobsCode [] = []"
  "jobsCode (j # js) = LockOSThread # jobBody j @ UnlockOSThread # jobsCode js"
  by (simp_all add: jobsCode_def pinned_def pinThread_def)

section \<open>Invariants\<close>

text \<open>No two goroutines share a thread, and the home of a wired goroutine is its own.\<close>

definition exclusive :: "osched \<Rightarrow> bool" where
  "exclusive s \<longleftrightarrow> (\<forall>g h t. on_thread s g = Some t \<longrightarrow> on_thread s h = Some t \<longrightarrow> g = h) \<and>
     (\<forall>g t. 0 < pins s g \<longrightarrow> on_thread s g = Some t \<longrightarrow> home s g = t) \<and>
     (\<forall>g h. 0 < pins s g \<longrightarrow> g \<noteq> h \<longrightarrow> on_thread s h \<noteq> Some (home s g)) \<and>
     (\<forall>g h. 0 < pins s g \<longrightarrow> 0 < pins s h \<longrightarrow> g \<noteq> h \<longrightarrow> home s g \<noteq> home s h)"

lemma exclusive_step:
  assumes "schedStep D s s'" "exclusive s"
  shows "exclusive s'"
  using assms
proof (cases rule: schedStep.cases)
  case (Resume g t)
  then show ?thesis using assms(2) by (auto simp: exclusive_def mayRunOn_def)
next
  case (Park g t)
  then show ?thesis using assms(2) by (auto simp: exclusive_def)
next
  case (Exec g t i r)
  then show ?thesis using assms(2)
    by (cases i) (auto simp: exclusive_def)
qed

text \<open>
  Between functions a goroutine has got the messages of the functions it ran; inside one it
  will get, from its home thread undisturbed, those of that function.
\<close>

definition onTrack :: "(string \<Rightarrow> string) \<Rightarrow> job list \<Rightarrow> osched \<Rightarrow> nat \<Rightarrow> bool" where
  "onTrack D js0 s g \<longleftrightarrow>
     (\<exists>js. pins s g = 0 \<and> todo s g = jobsCode js \<and> got s g @ jobMessages D js = jobMessages D js0) \<or>
     (\<exists>rest js. pins s g = 1 \<and> plain rest \<and> todo s g = rest @ UnlockOSThread # jobsCode js \<and>
        got s g @ solo D (buffers s (home s g)) rest @ jobMessages D js = jobMessages D js0)"

lemma onTrack_exec_self:
  assumes on: "on_thread s g = Some t" and td: "todo s g = i # r" and ex: "exclusive s"
    and tr: "onTrack D js0 s g"
  shows "onTrack D js0 (exec D g t i (s\<lparr>todo := (todo s)(g := r)\<rparr>)) g"
  using tr[unfolded onTrack_def]
proof (elim disjE exE conjE)
  fix js
  assume a: "pins s g = 0" "todo s g = jobsCode js" "got s g @ jobMessages D js = jobMessages D js0"
  then obtain j js' where js: "js = j # js'" using td by (cases js) simp_all
  have "got s g @ solo D (buffers s t) (jobBody j) @ jobMessages D js' = jobMessages D js0"
    using a(3) by (simp add: solo_jobBody js)
  then show ?thesis using a td plain_jobBody[of j] by (auto simp: js onTrack_def)
next
  fix rest js
  assume a: "pins s g = 1" "plain rest" "todo s g = rest @ UnlockOSThread # jobsCode js"
    "got s g @ solo D (buffers s (home s g)) rest @ jobMessages D js = jobMessages D js0"
  have h: "home s g = t" using ex on a(1) unfolding exclusive_def by (metis zero_less_one)
  show ?thesis
  proof (cases rest)
    case Nil
    then show ?thesis using a td by (auto simp: onTrack_def)
  next
    case (Cons k rest')
    then have ik: "k = i" "r = rest' @ UnlockOSThread # jobsCode js" using a td by simp_all
    have "onTrack D js0 (exec D g t i (s\<lparr>todo := (todo s)(g := r)\<rparr>)) g" if "i = CCall b m" for b m
      unfolding onTrack_def using a h ik Cons that by (intro disjI2 exI[of _ rest'] exI[of _ js]) simp
    moreover have "onTrack D js0 (exec D g t i (s\<lparr>todo := (todo s)(g := r)\<rparr>)) g" if "i = CDestroy"
      unfolding onTrack_def using a h ik Cons that by (intro disjI2 exI[of _ rest'] exI[of _ js]) simp
    moreover have "onTrack D js0 (exec D g t i (s\<lparr>todo := (todo s)(g := r)\<rparr>)) g" if "i = ReadLast b" for b
      unfolding onTrack_def using a h ik Cons that by (intro disjI2 exI[of _ rest'] exI[of _ js]) simp
    moreover have "i \<noteq> LockOSThread" "i \<noteq> UnlockOSThread" using a(2) Cons ik by simp_all
    ultimately show ?thesis by (cases i) blast+
  qed
qed

lemma onTrack_other:
  assumes "pins s' g = pins s g" "home s' g = home s g" "todo s' g = todo s g" "got s' g = got s g"
    and "0 < pins s g \<Longrightarrow> buffers s' (home s g) = buffers s (home s g)" and "onTrack D js0 s g"
  shows "onTrack D js0 s' g"
  using assms by (auto simp: onTrack_def)

lemma onTrack_step:
  assumes "schedStep D s s'" "exclusive s" "onTrack D js0 s g"
  shows "onTrack D js0 s' g"
  using assms
proof (cases rule: schedStep.cases)
  case (Exec h t i r)
  show ?thesis
  proof (cases "h = g")
    case True
    then show ?thesis using Exec onTrack_exec_self assms(2,3) by simp
  next
    case False
    then have "0 < pins s g \<Longrightarrow> home s g \<noteq> t" using Exec assms(2) unfolding exclusive_def by metis
    then show ?thesis using False Exec assms(3)
      by (intro onTrack_other[OF _ _ _ _ _ assms(3)]) (cases i; simp)+
  qed
qed (auto intro: onTrack_other)

lemma schedRun_invariant:
  assumes "schedRun D prog s"
  shows "exclusive s \<and> (\<forall>g. onTrack D (prog g) s g)"
  using assms
proof (induction rule: schedRun.induct)
  case (start bs)
  have "onTrack D (prog g) (launched bs prog) g" for g
    unfolding onTrack_def by (intro disjI1 exI[of _ "prog g"]) (simp add: launched_def)
  moreover have "exclusive (launched bs prog)" by (simp add: exclusive_def launched_def)
  ultimately show ?case by blast
next
  case (more s s')
  then show ?case using exclusive_step onTrack_step by blast
qed

text \<open>Finitely many threads are taken, so an unwired goroutine always finds a free one.\<close>

definition busy :: "osched \<Rightarrow> nat set" where
  "busy s = {g. on_thread s g \<noteq> None \<or> 0 < pins s g}"

lemma busy_step:
  assumes "schedStep D s s'" "finite (busy s)"
  shows "finite (busy s')"
  using assms(1)
proof (cases rule: schedStep.cases)
  case (Resume g t)
  then have "busy s' \<subseteq> insert g (busy s)" by (auto simp: busy_def)
  then show ?thesis using assms(2) finite_subset by blast
next
  case (Park g t)
  then have "busy s' \<subseteq> busy s" by (auto simp: busy_def)
  then show ?thesis using assms(2) finite_subset by blast
next
  case (Exec g t i r)
  then have "busy s' \<subseteq> insert g (busy s)" by (cases i) (auto simp: busy_def split: if_splits)
  then show ?thesis using assms(2) finite_subset by blast
qed

lemma schedRun_busy: "schedRun D prog s \<Longrightarrow> finite (busy s)"
proof (induction rule: schedRun.induct)
  case (start bs)
  then show ?case by (simp add: busy_def launched_def)
qed (rule busy_step)

lemma can_resume:
  assumes "schedRun D prog s" "on_thread s g = None"
  shows "\<exists>t. mayRunOn s g t"
proof (cases "0 < pins s g")
  case True
  have "exclusive s" using assms(1) schedRun_invariant by blast
  then have "mayRunOn s g (home s g)" using True assms(2) unfolding exclusive_def mayRunOn_def
    by (metis option.distinct(1))
  then show ?thesis ..
next
  case False
  let ?taken = "home s ` busy s \<union> the ` (on_thread s ` busy s)"
  have "finite ?taken" using schedRun_busy[OF assms(1)] by blast
  then obtain t where t: "t \<notin> ?taken" using ex_new_if_finite infinite_UNIV_nat by blast
  have "on_thread s h \<noteq> Some t" for h
  proof
    assume "on_thread s h = Some t"
    then have "the (on_thread s h) \<in> the ` (on_thread s ` busy s)" by (intro imageI) (simp add: busy_def)
    then show False using t \<open>on_thread s h = Some t\<close> by simp
  qed
  moreover have "home s h \<noteq> t" if "0 < pins s h" for h using t that by (auto simp: busy_def)
  ultimately have "mayRunOn s g t" using False by (simp add: mayRunOn_def)
  then show ?thesis ..
qed

lemma schedRun_steps: "(schedStep D)\<^sup>*\<^sup>* s s' \<Longrightarrow> schedRun D prog s \<Longrightarrow> schedRun D prog s'"
  by (induction rule: rtranclp.induct) (auto intro: schedRun.more)

lemma todo_exec [simp]: "todo (exec D g t i s) = todo s"
  by (cases i) simp_all

lemma can_finish:
  assumes "schedRun D prog s"
  shows "\<exists>s'. (schedStep D)\<^sup>*\<^sup>* s s' \<and> todo s' g = []"
  using assms
proof (induction "todo s g" arbitrary: s)
  case Nil
  then show ?case by (intro exI[of _ s]) simp
next
  case (Cons i r)
  obtain s1 t where s1: "(schedStep D)\<^sup>*\<^sup>* s s1" "on_thread s1 g = Some t" "todo s1 g = i # r"
  proof (cases "on_thread s g")
    case None
    then obtain t where "mayRunOn s g t" using can_resume Cons(3) by blast
    from schedStep.Resume[OF None this] show ?thesis
      by (intro that[of "s\<lparr>on_thread := (on_thread s)(g := Some t)\<rparr>" t]) (auto simp: Cons(2)[symmetric])
  next
    case (Some t)
    then show ?thesis using that Cons(2) by (metis rtranclp.rtrancl_refl)
  qed
  let ?s2 = "exec D g t i (s1\<lparr>todo := (todo s1)(g := r)\<rparr>)"
  have st: "schedStep D s1 ?s2" by (rule schedStep.Exec[OF s1(2,3)])
  have "schedRun D prog ?s2" using schedRun.more[OF schedRun_steps[OF s1(1) Cons(3)] st] .
  from Cons(1)[OF _ this] obtain s' where "(schedStep D)\<^sup>*\<^sup>* ?s2 s'" "todo s' g = []" by auto
  then show ?case using s1(1) st by (meson rtranclp.rtrancl_into_rtrancl rtranclp_trans)
qed

section \<open>Every error carries its own message\<close>

lemma onTrack_prefix: "onTrack D js s g \<Longrightarrow> prefix (got s g) (jobMessages D js)"
  by (auto simp: onTrack_def prefix_def) (metis append.assoc)+

lemma onTrack_end:
  assumes "onTrack D js0 s g" "todo s g = []"
  shows "got s g = jobMessages D js0"
proof -
  from assms obtain js where "jobsCode js = []" "got s g @ jobMessages D js = jobMessages D js0"
    unfolding onTrack_def by fastforce
  then show ?thesis by (cases js) (simp_all add: jobMessages_def)
qed

text \<open>
  The messages of the failing calls themselves, each with the function that reports it, whatever
  happens to the buffer afterwards; an envelope function asks after a success too and gets the
  empty message.
\<close>

fun failures :: "job list \<Rightarrow> (cgoFun \<times> string) list" where
  "failures [] = []"
| "failures ((f, os) # js) = map (Pair f)
     (if alwaysReads f then map (\<lambda>out. case out of None \<Rightarrow> [] | Some m \<Rightarrow> m) (take 1 os)
      else (case dropWhile Option.is_none (take (length (libCalls f)) os) of Some m # _ \<Rightarrow> [m] | _ \<Rightarrow> []))
     @ failures js"

definition destroysFirst :: "cgoFun \<Rightarrow> bool" where
  "destroysFirst f \<longleftrightarrow> f = FNewEncryptor \<or> f = FNewDecryptor"

lemma ownMessages_asking:
  "ownMessages D False cs os =
    (case dropWhile (\<lambda>(c, out). Option.is_none out) (zip cs os) of
       ((op, b, n), Some m) # _ \<Rightarrow> [if b = EviBuf then (D ^^ n) m else m] | _ \<Rightarrow> [])"
  by (induction "False" cs os rule: libRun.induct) (auto simp: Option.is_none_def)

lemma dropWhile_zip_outcome:
  "map snd (dropWhile (\<lambda>(c, out). Option.is_none out) (zip cs os)) = dropWhile Option.is_none (take (length cs) os)"
proof (induction cs arbitrary: os)
  case (Cons c cs)
  then show ?case by (cases os) (auto simp: map_snd_zip_take min_def)
qed simp

lemma libCalls_destroys: "((op, b, n) \<in> set (libCalls f) \<Longrightarrow> n = 0 \<or> destroysFirst f \<and> n = 1)"
  by (cases f) (auto simp: call_lists destroysFirst_def)

lemma ownMessages_shape:
  "list_all2 (\<lambda>(h, m) r. r = m \<or> destroysFirst h \<and> r = D m)
     (failures [(f, os)]) (ownMessages D (alwaysReads f) (libCalls f) os)"
proof (cases "alwaysReads f")
  case True
  then have "\<exists>op. libCalls f = [(op, KmBuf, 0)]" by (cases f) auto
  then show ?thesis using True by (cases os) (auto split: option.split)
next
  case False
  define d where "d = dropWhile (\<lambda>(c, out). Option.is_none out) (zip (libCalls f) os)"
  have s: "dropWhile Option.is_none (take (length (libCalls f)) os) = map snd d"
    unfolding d_def by (rule dropWhile_zip_outcome[symmetric])
  note asked = ownMessages_asking[of D "libCalls f" os, folded d_def]
  show ?thesis
  proof (cases d)
    case Nil
    then have "dropWhile Option.is_none (take (length (libCalls f)) os) = []" unfolding s by simp
    then show ?thesis using False Nil by (simp add: asked del: dropWhile_eq_Nil_conv)
  next
    case (Cons p rest)
    obtain op b n out where p: "p = ((op, b, n), out)" by (cases p) (metis prod_cases3)
    have "p \<in> set d" using Cons by simp
    then have "p \<in> set (zip (libCalls f) os)" unfolding d_def by (metis set_dropWhileD)
    then have n: "n = 0 \<or> destroysFirst f \<and> n = 1" using libCalls_destroys p by (metis in_set_zipE)
    have "\<not> Option.is_none out" using hd_dropWhile[of "\<lambda>(c, out). Option.is_none out" "zip (libCalls f) os"] Cons p
      by (auto simp: d_def[symmetric])
    then obtain m where "out = Some m" by (cases out) simp_all
    then show ?thesis using False s Cons p n by (auto simp: asked)
  qed
qed

lemma jobMessages_shape:
  "list_all2 (\<lambda>(f, m) r. r = m \<or> destroysFirst f \<and> r = D m) (failures js) (jobMessages D js)"
proof (induction js)
  case (Cons j js)
  obtain f os where j: "j = (f, os)" by (cases j)
  have "failures (j # js) = failures [(f, os)] @ failures js" by (simp add: j)
  moreover have "jobMessages D (j # js) = ownMessages D (alwaysReads f) (libCalls f) os @ jobMessages D js"
    by (simp add: j jobMessages_def)
  ultimately show ?case using ownMessages_shape Cons by (simp only: list_all2_appendI)
qed (simp add: jobMessages_def)

lemma list_all2_map: "list_all2 P xs ys \<Longrightarrow> (\<And>x y. P x y \<Longrightarrow> y = h x) \<Longrightarrow> ys = map h xs"
  by (induction rule: list_all2_induct) simp_all

text \<open>
  C7. Whatever the scheduler does, the messages a goroutine is told are those of its own failing
  calls, in order, as if no other goroutine used the library; it can always finish its calls, so
  pinning blocks nobody. \<open>NewEncryptor\<close> and \<open>NewDecryptor\<close> destroy an object before they ask: there the
  message may be what that destruction, by the same goroutine, left of it (\<open>D\<close>). In all other functions
  it is the failing call's message itself, and in these too if destructions leave the buffer alone.
\<close>

theorem pinned_errors_are_own:
  assumes "schedRun D prog s"
  shows "prefix (got s g) (jobMessages D (prog g)) \<and>
    (\<exists>s'. (schedStep D)\<^sup>*\<^sup>* s s' \<and> todo s' g = [] \<and> got s' g = jobMessages D (prog g)) \<and>
    list_all2 (\<lambda>(f, m) r. r = m \<or> destroysFirst f \<and> r = D m) (failures (prog g)) (jobMessages D (prog g)) \<and>
    ((\<forall>m. D m = m) \<longrightarrow> jobMessages D (prog g) = map snd (failures (prog g)))"
proof -
  obtain s' where s': "(schedStep D)\<^sup>*\<^sup>* s s'" "todo s' g = []" using can_finish[OF assms] by blast
  then have "got s' g = jobMessages D (prog g)"
    using onTrack_end schedRun_invariant[OF schedRun_steps[OF s'(1) assms]] by blast
  moreover have "jobMessages D (prog g) = map snd (failures (prog g))" if "\<forall>m. D m = m"
    by (rule list_all2_map[OF jobMessages_shape[of D]]) (use that in auto)
  ultimately show ?thesis
    using s' onTrack_prefix schedRun_invariant[OF assms] jobMessages_shape[of D "prog g"] by blast
qed

text \<open>Two goroutines whose calls fail, the first parked between its failing call and its question.\<close>

definition twoFailures :: "nat \<Rightarrow> job list" where
  "twoFailures g = (if g = 0 then [(FUnwrapEncKey, [Some ''a''])]
     else if g = 1 then [(FUnwrapSecKey, [Some ''b''])] else [])"

lemma twoFailures_code:
  "jobsCode (twoFailures 0) = [LockOSThread, CCall KmBuf ''a'', ReadLast KmBuf, UnlockOSThread]"
  "jobsCode (twoFailures (Suc 0)) = [LockOSThread, CCall KmBuf ''b'', ReadLast KmBuf, UnlockOSThread]"
  by (simp_all add: twoFailures_def jobBody_def)

lemma pinned_errors_are_own_witness:
  "\<exists>s. schedRun id twoFailures s \<and> on_thread s 0 = None \<and> todo s 0 = [ReadLast KmBuf, UnlockOSThread] \<and>
     on_thread s 1 = Some 1 \<and> todo s 1 = [ReadLast KmBuf, UnlockOSThread] \<and> prefix (got s 0) [''a''] \<and>
     (\<exists>s'. (schedStep id)\<^sup>*\<^sup>* s s' \<and> todo s' 0 = [] \<and> got s' 0 = [''a''])"
proof -
  let ?s0 = "launched (\<lambda>_ _. []) twoFailures"
  define s1 where "s1 = ?s0\<lparr>on_thread := (on_thread ?s0)(0 := Some 0)\<rparr>"
  define s2 where "s2 = exec id 0 0 LockOSThread (s1\<lparr>todo := (todo s1)(0 := drop 1 (todo s1 0))\<rparr>)"
  define s3 where "s3 = exec id 0 0 (CCall KmBuf ''a'') (s2\<lparr>todo := (todo s2)(0 := drop 1 (todo s2 0))\<rparr>)"
  define s4 where "s4 = s3\<lparr>on_thread := (on_thread s3)(0 := None)\<rparr>"
  define s5 where "s5 = s4\<lparr>on_thread := (on_thread s4)(1 := Some 1)\<rparr>"
  define s6 where "s6 = exec id 1 1 LockOSThread (s5\<lparr>todo := (todo s5)(1 := drop 1 (todo s5 1))\<rparr>)"
  define s7 where "s7 = exec id 1 1 (CCall KmBuf ''b'') (s6\<lparr>todo := (todo s6)(1 := drop 1 (todo s6 1))\<rparr>)"
  note defs = s1_def s2_def s3_def s4_def s5_def s6_def s7_def launched_def twoFailures_code mayRunOn_def
  have "schedRun id twoFailures ?s0" by (rule schedRun.start)
  then have "schedRun id twoFailures s1" unfolding s1_def
    by (rule schedRun.more[OF _ schedStep.Resume]) (simp_all add: launched_def mayRunOn_def)
  then have "schedRun id twoFailures s2" unfolding s2_def
    by (rule schedRun.more[OF _ schedStep.Exec]) (simp_all add: defs)
  then have "schedRun id twoFailures s3" unfolding s3_def
    by (rule schedRun.more[OF _ schedStep.Exec]) (simp_all add: defs)
  then have "schedRun id twoFailures s4" unfolding s4_def
    by (rule schedRun.more[OF _ schedStep.Park]) (simp_all add: defs)
  then have "schedRun id twoFailures s5" unfolding s5_def
    by (rule schedRun.more[OF _ schedStep.Resume]) (simp_all add: defs)
  then have "schedRun id twoFailures s6" unfolding s6_def
    by (rule schedRun.more[OF _ schedStep.Exec]) (simp_all add: defs)
  then have run7: "schedRun id twoFailures s7" unfolding s7_def
    by (rule schedRun.more[OF _ schedStep.Exec]) (simp_all add: defs)
  have msgs: "jobMessages id (twoFailures 0) = [''a'']"
    by (simp add: twoFailures_def jobMessages_def)
  have "prefix (got s7 0) [''a'']"
    "\<exists>s'. (schedStep id)\<^sup>*\<^sup>* s7 s' \<and> todo s' 0 = [] \<and> got s' 0 = [''a'']"
    using pinned_errors_are_own[OF run7, of 0] unfolding msgs by blast+
  moreover have "on_thread s7 0 = None" "todo s7 0 = [ReadLast KmBuf, UnlockOSThread]"
    "on_thread s7 1 = Some 1" "todo s7 1 = [ReadLast KmBuf, UnlockOSThread]"
    by (simp_all add: defs)
  ultimately show ?thesis using run7 by blast
qed

text \<open>
  Without the pinning the same two calls can go wrong: the goroutine that is parked after its
  failing call is told the message of the other one, which ran on its thread meanwhile.
\<close>

lemma unpinned_errors_mix:
  "\<exists>s. (schedStep id)\<^sup>*\<^sup>* ((launched (\<lambda>_ _. []) twoFailures)
       \<lparr>todo := \<lambda>g. concat (map jobBody (twoFailures g))\<rparr>) s \<and> got s 0 = [''b'']"
proof -
  let ?s0 = "(launched (\<lambda>_ _. []) twoFailures)\<lparr>todo := \<lambda>g. concat (map jobBody (twoFailures g))\<rparr>"
  define s1 where "s1 = ?s0\<lparr>on_thread := (on_thread ?s0)(0 := Some 0)\<rparr>"
  define s2 where "s2 = exec id 0 0 (CCall KmBuf ''a'') (s1\<lparr>todo := (todo s1)(0 := drop 1 (todo s1 0))\<rparr>)"
  define s3 where "s3 = s2\<lparr>on_thread := (on_thread s2)(0 := None)\<rparr>"
  define s4 where "s4 = s3\<lparr>on_thread := (on_thread s3)(1 := Some 0)\<rparr>"
  define s5 where "s5 = exec id 1 0 (CCall KmBuf ''b'') (s4\<lparr>todo := (todo s4)(1 := drop 1 (todo s4 1))\<rparr>)"
  define s6 where "s6 = s5\<lparr>on_thread := (on_thread s5)(1 := None)\<rparr>"
  define s7 where "s7 = s6\<lparr>on_thread := (on_thread s6)(0 := Some 0)\<rparr>"
  define s8 where "s8 = exec id 0 0 (ReadLast KmBuf) (s7\<lparr>todo := (todo s7)(0 := drop 1 (todo s7 0))\<rparr>)"
  note defs = s1_def s2_def s3_def s4_def s5_def s6_def s7_def s8_def launched_def twoFailures_def jobBody_def
    mayRunOn_def
  have "schedStep id ?s0 s1" unfolding s1_def
    by (rule schedStep.Resume) (simp_all add: launched_def mayRunOn_def)
  moreover have "schedStep id s1 s2" unfolding s2_def by (rule schedStep.Exec) (simp_all add: defs)
  moreover have "schedStep id s2 s3" unfolding s3_def by (rule schedStep.Park) (simp_all add: defs)
  moreover have "schedStep id s3 s4" unfolding s4_def by (rule schedStep.Resume) (simp_all add: defs)
  moreover have "schedStep id s4 s5" unfolding s5_def by (rule schedStep.Exec) (simp_all add: defs)
  moreover have "schedStep id s5 s6" unfolding s6_def by (rule schedStep.Park) (simp_all add: defs)
  moreover have "schedStep id s6 s7" unfolding s7_def by (rule schedStep.Resume) (simp_all add: defs)
  moreover have "schedStep id s7 s8" unfolding s8_def by (rule schedStep.Exec) (simp_all add: defs)
  moreover have "got s8 0 = [''b'']" by (simp add: defs)
  ultimately show ?thesis by (meson rtranclp.rtrancl_refl rtranclp.rtrancl_into_rtrancl)
qed

end
