(* ===== verification/Error_Reports.thy ===== *)
theory Error_Reports
  imports Thread_Pinning
begin

text \<open>
  A reference for the errors of the provider. Each function of \<open>cryptocgo.go\<close> that calls the
  library gets a plan: the list of its allocations, calls and checks, in order. Running the plan
  tells which calls are made and which error comes out: that of the first call that fails, with
  its own name, status and message. The functions of the model agree with their plans, and
  the plans make the calls that \<open>Thread_Pinning\<close> lists.
\<close>

section \<open>Plans\<close>

text \<open>The fallible calls of a log; allocations are not among them.\<close>

definition fallible :: "c_event list \<Rightarrow> string list" where
  "fallible es = concat (map (\<lambda>e. case e of
     Called op hs ns vs \<Rightarrow> if op \<in> {''CString'', ''malloc''} then [] else [op] | _ \<Rightarrow> []) es)"

lemma fallible_simps [simp]:
  "fallible [] = []" "fallible (es @ es') = fallible es @ fallible es'"
  "fallible (Called op hs ns vs # es) = (if op \<in> {''CString'', ''malloc''} then [] else [op]) @ fallible es"
  "fallible (Created h # es) = fallible es" "fallible (Destroyed h # es) = fallible es"
  by (simp_all add: fallible_def)

text \<open>The buffer a call reports to, by the prefix of its name.\<close>

definition bufOf :: "string \<Rightarrow> errbuf" where
  "bufOf op = (if take 7 op = ''evi_km_'' then KmBuf else if take 8 op = ''evi_enc_'' then EncBuf else EviBuf)"

lemma bufOf_ops [simp]:
  "bufOf ''evi_context_create'' = EviBuf"
  "bufOf ''evi_keypack_create'' = EviBuf"
  "bufOf ''evi_keygenerator_create'' = EviBuf"
  "bufOf ''evi_keygenerator_generate_secret_key'' = EviBuf"
  "bufOf ''evi_keygenerator_generate_public_keys'' = EviBuf"
  "bufOf ''evi_keypack_save_enc_key'' = EviBuf"
  "bufOf ''evi_keypack_save_eval_key'' = EviBuf"
  "bufOf ''evi_keypack_load_enc_key'' = EviBuf"
  "bufOf ''evi_encryptor_create'' = EviBuf"
  "bufOf ''evi_encryptor_encrypt_batch_with_pack'' = EviBuf"
  "bufOf ''evi_query_serialize_to_string'' = EviBuf"
  "bufOf ''evi_secret_key_create_from_path'' = EviBuf"
  "bufOf ''evi_decryptor_create'' = EviBuf"
  "bufOf ''evi_search_result_deserialize_from_string'' = EviBuf"
  "bufOf ''evi_decryptor_decrypt_search_result_with_seckey'' = EviBuf"
  "bufOf ''evi_search_result_get_item_count'' = EviBuf"
  "bufOf ''evi_km_wrap_sec_key'' = KmBuf"
  "bufOf ''evi_km_wrap_enc_key'' = KmBuf"
  "bufOf ''evi_km_wrap_eval_key'' = KmBuf"
  "bufOf ''evi_km_unwrap_sec_key'' = KmBuf"
  "bufOf ''evi_km_unwrap_enc_key'' = KmBuf"
  "bufOf ''evi_km_unwrap_eval_key'' = KmBuf"
  "bufOf ''evi_km_wrap_sec_key_from_handle'' = KmBuf"
  "bufOf ''evi_enc_encrypt_row'' = EncBuf"
  by (simp_all add: bufOf_def)

lemma bufOf_libCalls: "(op, b, n) \<in> set (libCalls f) \<Longrightarrow> bufOf op = b"
  by (cases f) (auto simp: call_lists)

text \<open>
  \<open>Allocates\<close> is a \<open>C.CString\<close>, \<open>Mallocs\<close> a \<open>C.malloc\<close> with its nil check. \<open>Calls op seen n\<close> calls
  \<open>op\<close>, where \<open>seen\<close> turns the status of the environment into the one the code gets (a loader cannot
  succeed without its file, a shim refuses an empty argument), and destroys \<open>n\<close> objects on
  failure before it asks for the message. \<open>Requires\<close> is a check of the Go code.
\<close>

datatype planStep =
    Allocates | Mallocs
  | Calls string "int \<Rightarrow> int" nat
  | Requires "nat \<Rightarrow> err option"

definition mallocFailed :: err where
  "mallocFailed = Errorf [Lit ''runespace/crypto: malloc failed'']"

text \<open>
  What the error of call number \<open>k\<close> with status \<open>st\<close> says: the name, then the message of that very
  call if there is one. The library also gives the status; a shim gives it only without a
  message, and not for \<open>-1\<close>. With \<open>n\<close> objects destroyed in between, the message is what
  the destructors left of it.
\<close>

definition callError :: "'e cgo_env_scheme \<Rightarrow> string \<Rightarrow> nat \<Rightarrow> int \<Rightarrow> nat \<Rightarrow> err" where
  "callError E op k st n =
     (let msg = (if n = 0 then c_message E k else c_destroyed E (c_message E k));
          name = [Lit ''runespace/crypto: '', Str op, Lit '': ''];
          told = (if msg = [] then name else name @ [Str msg]) in
      case bufOf op of
        EviBuf \<Rightarrow> if msg = [] then Errorf [Lit ''runespace/crypto: '', Str op, Lit '': status='', Dec st]
          else Errorf (told @ [Lit '' (status='', Dec st, Lit '')''])
      | shim \<Rightarrow> if msg \<noteq> [] then Errorf told
          else if st = -1 then Errorf [Lit ''runespace/crypto: '', Str op, Lit '': invalid argument'']
          else Errorf (told @ [Lit (if shim = KmBuf then ''KeyManager'' else ''encryptor shim''),
            Lit '' exception (rc='', Dec st, Lit '')'']))"

lemma callError_evi:
  "bufOf op = EviBuf \<Longrightarrow> callError E op k st n = wrapEviError (if n = 0 then E else afterDestroy E) k op st"
  by (simp add: callError_def wrapEviError_def Let_def)

lemma callError_shim:
  "st \<noteq> 0 \<Longrightarrow> bufOf op = KmBuf \<Longrightarrow> kmShimError E k op st = Some (callError E op k st 0)"
  "st \<noteq> 0 \<Longrightarrow> bufOf op = EncBuf \<Longrightarrow> encShimError E k op st = Some (callError E op k st 0)"
  by (auto simp: callError_def kmShimError_def encShimError_def shimError_def Let_def)

text \<open>The calls made and the error, from call number \<open>k\<close> on.\<close>

fun planRun :: "'e cgo_env_scheme \<Rightarrow> nat \<Rightarrow> planStep list \<Rightarrow> string list \<times> err option" where
  "planRun E k [] = ([], None)"
| "planRun E k (Allocates # ss) = planRun E (Suc k) ss"
| "planRun E k (Mallocs # ss) = (if c_status E k = 0 then planRun E (Suc k) ss else ([], Some mallocFailed))"
| "planRun E k (Calls op seen n # ss) =
     (let st = seen (c_status E k) in
      if st = 0 then (case planRun E (Suc k) ss of (ops, e) \<Rightarrow> (op # ops, e))
      else ([op], Some (callError E op k st n)))"
| "planRun E k (Requires check # ss) = (case check k of Some e \<Rightarrow> ([], Some e) | None \<Rightarrow> planRun E k ss)"

definition conforms :: "'e cgo_env_scheme \<Rightarrow> planStep list \<Rightarrow> (err, 'w cgo_world_scheme, 'a) io \<Rightarrow>
    'w cgo_world_scheme \<Rightarrow> bool" where
  "conforms E plan m w \<longleftrightarrow>
     (case planRun E (tick w) plan of (made, e) \<Rightarrow>
        fallible (c_log (snd (m w))) = fallible (c_log w) @ made \<and>
        (case fst (m w) of Inl x \<Rightarrow> e = Some x | Inr _ \<Rightarrow> e = None))"

fun plannedCalls :: "planStep list \<Rightarrow> (string \<times> errbuf \<times> nat) list" where
  "plannedCalls [] = []"
| "plannedCalls (Calls op seen n # ss) = (op, bufOf op, n) # plannedCalls ss"
| "plannedCalls (s # ss) = plannedCalls ss"

section \<open>Running a plan step by step\<close>

lemma conforms_call:
  assumes run: "m w = (if seen (c_status E (tick w)) = 0 then (Inr x, good)
      else (Inl (callError E op (tick w) (seen (c_status E (tick w))) n), bad))"
    and log: "fallible (c_log good) = fallible (c_log w) @ [op]" "fallible (c_log bad) = fallible (c_log w) @ [op]"
    and time: "tick good = Suc (tick w)"
    and rest: "seen (c_status E (tick w)) = 0 \<Longrightarrow> conforms E ss (f x) good"
  shows "conforms E (Calls op seen n # ss) (andThen m f) w"
proof (cases "seen (c_status E (tick w)) = 0")
  case True
  then show ?thesis using rest run log time
    by (auto simp: conforms_def andThen_def Let_def split: prod.splits)
next
  case False
  then show ?thesis using run log by (simp add: conforms_def andThen_def Let_def)
qed

lemma conforms_pass:
  assumes "m w = (Inr x, w1)" "fallible (c_log w1) = fallible (c_log w)" "tick w1 = Suc (tick w)"
    and "conforms E ss (f x) w1"
  shows "conforms E (Allocates # ss) (andThen m f) w"
  using assms by (auto simp: conforms_def andThen_def split: prod.splits)

lemma conforms_deferring:
  "conforms E ss m w \<Longrightarrow> conforms E ss (deferring (c_free h) m) w"
  by (auto simp: conforms_def deferring_def c_free_def split: prod.splits)

lemma conforms_orDestroy: "conforms E ss m w \<Longrightarrow> conforms E ss (orDestroy h m) w"
  by (auto simp: conforms_def orDestroy_def onFailure_def c_free_def split: prod.splits sum.splits)

lemma conforms_ret: "conforms E [] (ret x) w"
  by (simp add: conforms_def run_simps)

lemma conforms_refuse: "conforms E [Requires (\<lambda>_. Some e)] (throw e) w"
  by (simp add: conforms_def run_simps)

lemma conforms_check:
  assumes "check (tick w) = None \<Longrightarrow> conforms E ss m w"
  shows "conforms E (Requires check # ss) (case check (tick w) of Some e \<Rightarrow> throw e | None \<Rightarrow> m) w"
  using assms by (simp add: conforms_def run_simps split: option.split)

text \<open>The primitive calls, with what the rest may assume of the state.\<close>

lemma create_step:
  assumes "bufOf op = EviBuf" "op \<notin> {''CString'', ''malloc''}" "n = 0 \<and> E' = E \<or> n = 1 \<and> E' = afterDestroy E"
    and rest: "\<And>w1. tick w1 = Suc (tick w) \<Longrightarrow> nodes w1 = nodes w \<Longrightarrow> conforms E ss (f (Handle kind (tick w))) w1"
  shows "conforms E (Calls op (\<lambda>st. st) n # ss) (andThen (c_create E' kind op hs ns vs) f) w"
proof -
  let ?w = "w\<lparr>tick := Suc (tick w), c_log := c_log w @ [Called op hs ns vs]\<rparr>"
  have run: "c_create E' kind op hs ns vs w =
      (if c_status E (tick w) = 0 then (Inr (Handle kind (tick w)), c_created (Handle kind (tick w)) ?w)
       else (Inl (callError E op (tick w) (c_status E (tick w)) n), ?w))"
    using assms(1,3) by (auto simp: c_create_def c_acquire_def c_invoke_def andThen_def eviFailed_def
        EVI_STATUS_SUCCESS_def callError_evi)
  show ?thesis
    by (rule conforms_call[where good = "c_created (Handle kind (tick w)) ?w" and bad = ?w]; (rule run | rule rest)?;
      use assms(2) in \<open>simp add: c_created_def\<close>)
qed

lemma step_step:
  assumes "bufOf op = EviBuf" "op \<notin> {''CString'', ''malloc''}"
    and rest: "\<And>w1. tick w1 = Suc (tick w) \<Longrightarrow> nodes w1 = nodes w \<Longrightarrow> conforms E ss (f (tick w)) w1"
  shows "conforms E (Calls op (\<lambda>st. st) 0 # ss) (andThen (c_step E op hs ns) f) w"
proof -
  let ?w = "w\<lparr>tick := Suc (tick w), c_log := c_log w @ [Called op hs ns []]\<rparr>"
  have run: "c_step E op hs ns w = (if c_status E (tick w) = 0 then (Inr (tick w), ?w)
       else (Inl (callError E op (tick w) (c_status E (tick w)) 0), ?w))"
    using assms(1) by (simp add: c_step_def c_invoke_def andThen_def EVI_STATUS_SUCCESS_def callError_evi run_simps)
  show ?thesis
    by (rule conforms_call[where good = ?w and bad = ?w]; (rule run | rule rest)?;
      use assms(2) in \<open>simp add: c_created_def\<close>)
qed

lemma save_step:
  assumes "bufOf op = EviBuf" "op \<notin> {''CString'', ''malloc''}"
    and rest: "\<And>w1. tick w1 = Suc (tick w) \<Longrightarrow> conforms E ss (f ()) w1"
  shows "conforms E (Calls op (\<lambda>st. st) 0 # ss) (andThen (c_save E op hs p) f) w"
proof -
  let ?w = "w\<lparr>tick := Suc (tick w), c_log := c_log w @ [Called op hs [] []]\<rparr>"
  let ?w1 = "?w\<lparr>nodes := putNode p (File (c_blob E (tick w))) (nodes w)\<rparr>"
  let ?w2 = "case c_partial E (tick w) of None \<Rightarrow> ?w | Some b \<Rightarrow> ?w\<lparr>nodes := putNode p (File b) (nodes w)\<rparr>"
  have run: "c_save E op hs p w = (if c_status E (tick w) = 0 then (Inr (), ?w1)
       else (Inl (callError E op (tick w) (c_status E (tick w)) 0), ?w2))"
    using assms(1)
    by (auto simp: c_save_def c_invoke_def andThen_def EVI_STATUS_SUCCESS_def callError_evi split: option.split)
  show ?thesis
    by (rule conforms_call[where good = ?w1 and bad = ?w2]; (rule run | rule rest)?;
      use assms(2) in \<open>simp add: c_created_def split: option.split\<close>)
qed

lemma string_step:
  assumes "\<And>w1. tick w1 = Suc (tick w) \<Longrightarrow> nodes w1 = nodes w \<Longrightarrow> conforms E ss (f (Handle HBuffer (tick w))) w1"
  shows "conforms E (Allocates # ss) (andThen (c_string E) f) w"
proof -
  let ?w1 = "w\<lparr>tick := Suc (tick w), c_log := c_log w @ [Called ''CString'' [] [] [], Created (Handle HBuffer (tick w))]\<rparr>"
  have "c_string E w = (Inr (Handle HBuffer (tick w)), ?w1)"
    by (simp add: c_string_def c_acquire_def c_invoke_def andThen_def c_created_def)
  then show ?thesis by (rule conforms_pass) (simp_all add: assms)
qed

lemma malloc_step:
  assumes "\<And>w1. tick w1 = Suc (tick w) \<Longrightarrow> nodes w1 = nodes w \<Longrightarrow> conforms E ss (f (Handle HBuffer (tick w))) w1"
  shows "conforms E (Mallocs # ss) (andThen (c_malloc E) f) w"
proof -
  let ?w1 = "w\<lparr>tick := Suc (tick w), c_log := c_log w @ [Called ''malloc'' [] [] [], Created (Handle HBuffer (tick w))]\<rparr>"
  have "conforms E ss (f (Handle HBuffer (tick w))) ?w1" by (simp add: assms)
  then show ?thesis
    by (auto simp: conforms_def c_malloc_def c_acquire_def c_invoke_def andThen_def c_created_def mallocFailed_def
        split: prod.splits)
qed

lemma shim_failed:
  "kmShimError E k op st = None \<longleftrightarrow> st = 0" "encShimError E k op st = None \<longleftrightarrow> st = 0"
  by (auto simp: kmShimError_def encShimError_def shimError_def Let_def)

lemma not_allocation: "bufOf op \<noteq> EviBuf \<Longrightarrow> op \<notin> {''CString'', ''malloc''}"
  by (auto simp: bufOf_def)

text \<open>A single call as the end of a function.\<close>

lemma conforms_last:
  assumes "fallible (c_log (snd (m w))) = fallible (c_log w) @ [op]"
    and "case fst (m w) of Inr _ \<Rightarrow> seen (c_status E (tick w)) = 0
      | Inl e \<Rightarrow> seen (c_status E (tick w)) \<noteq> 0 \<and> e = callError E op (tick w) (seen (c_status E (tick w))) n"
  shows "conforms E [Calls op seen n] m w"
  using assms by (auto simp: conforms_def Let_def split: sum.splits)

text \<open>A shim gives its status to \<open>kmShimError\<close> and changes files only.\<close>

definition shimRun :: "'e cgo_env_scheme \<Rightarrow> string \<Rightarrow> int \<Rightarrow> (err, 'w cgo_world_scheme, unit) io \<Rightarrow>
    'w cgo_world_scheme \<Rightarrow> bool" where
  "shimRun E op st m w \<longleftrightarrow> fst (m w) = (case kmShimError E (tick w) op st of None \<Rightarrow> Inr () | Some e \<Rightarrow> Inl e) \<and>
     (\<exists>hs. c_log (snd (m w)) = c_log w @ [Called op hs [] []])"

lemma shimRun_last:
  assumes "bufOf op = KmBuf" "shimRun E op (seen (c_status E (tick w))) m w"
  shows "conforms E [Calls op seen 0] m w"
proof (rule conforms_last)
  show "fallible (c_log (snd (m w))) = fallible (c_log w) @ [op]"
    using assms not_allocation[of op] by (auto simp: shimRun_def)
  show "case fst (m w) of Inr _ \<Rightarrow> seen (c_status E (tick w)) = 0
      | Inl e \<Rightarrow> seen (c_status E (tick w)) \<noteq> 0 \<and> e = callError E op (tick w) (seen (c_status E (tick w))) 0"
  proof (cases "kmShimError E (tick w) op (seen (c_status E (tick w)))")
    case None
    then have "fst (m w) = Inr ()" using assms(2) by (simp add: shimRun_def)
    moreover have "seen (c_status E (tick w)) = 0" using None by (simp only: shim_failed)
    ultimately show ?thesis by simp
  next
    case (Some e)
    moreover have "seen (c_status E (tick w)) \<noteq> 0" using Some by (metis option.distinct(1) shim_failed(1))
    moreover have "fst (m w) = Inl e" using assms(2) Some by (simp add: shimRun_def)
    ultimately show ?thesis using assms(1) by (simp add: callError_shim)
  qed
qed

lemma shimRun_convert:
  "shimRun E op (if \<not> ok then -1 else if c_status E (tick w) = 0 \<and> Option.bind (fileAt (nodes w) src) conv = None
     then -2 else c_status E (tick w)) (km_convert E op ok conv src dst) w"
proof -
  define raw where "raw = c_status E (tick w)"
  let ?out = "Option.bind (fileAt (nodes w) src) conv"
  define st where "st = (if \<not> ok then -1 else if raw = 0 \<and> ?out = None then -2 else raw)"
  let ?w = "w\<lparr>tick := Suc (tick w), c_log := c_log w @ [Called op [] [] []]\<rparr>"
  have "km_convert E op ok conv src dst w = (case kmShimError E (tick w) op st of
        None \<Rightarrow> (Inr (), ?w\<lparr>nodes := putNode dst (File (the ?out)) (nodes ?w)\<rparr>)
      | Some e \<Rightarrow> (Inl e, (case (if ok then c_partial E (tick w) else None) of
             None \<Rightarrow> ?w | Some b \<Rightarrow> ?w\<lparr>nodes := putNode dst (File b) (nodes ?w)\<rparr>)))"
  proof -
    have "nodes ?w = nodes w" by simp
    then show ?thesis
      unfolding km_convert_def c_invoke_def andThen_def Let_def prod.case sum.case raw_def[symmetric] st_def
      by (simp only:)
  qed
  then have "shimRun E op st (km_convert E op ok conv src dst) w"
    by (cases "kmShimError E (tick w) op st"; cases "if ok then c_partial E (tick w) else None")
      (simp_all add: shimRun_def split del: if_split)
  then show ?thesis by (simp only: st_def raw_def)
qed

lemma shimRun_handle:
  "shimRun E ''evi_km_wrap_sec_key_from_handle'' (if keyID = [] then -1 else c_status E (tick w))
     (km_wrap_from_handle E hs keyID dir name) w"
proof -
  define st where "st = (if keyID = [] then -1 else c_status E (tick w))"
  let ?op = "''evi_km_wrap_sec_key_from_handle''"
  let ?w = "w\<lparr>tick := Suc (tick w), c_log := c_log w @ [Called ?op hs [] []]\<rparr>"
  have "km_wrap_from_handle E hs keyID dir name w = (case kmShimError E (tick w) ?op st of
        None \<Rightarrow> (Inr (), ?w\<lparr>nodes := putNode (joinPath dir name)
            (File (km_wrap E ''sec'' keyID (c_blob E (tick w)))) (nodes ?w)\<rparr>)
      | Some e \<Rightarrow> (Inl e, (case (if keyID \<noteq> [] then c_partial E (tick w) else None) of
             None \<Rightarrow> ?w
           | Some b \<Rightarrow> ?w\<lparr>nodes := putNode (joinPath dir (name @ ''.tmp'')) (File b) (nodes ?w)\<rparr>)))"
    unfolding km_wrap_from_handle_def c_invoke_def andThen_def Let_def prod.case sum.case st_def
    by (simp only:)
  then have "shimRun E ?op st (km_wrap_from_handle E hs keyID dir name) w"
    by (cases "kmShimError E (tick w) ?op st"; cases "if keyID \<noteq> [] then c_partial E (tick w) else None")
      (simp_all add: shimRun_def split del: if_split)
  then show ?thesis by (simp only: st_def)
qed

lemma load_step:
  assumes "bufOf op = EviBuf" "op \<notin> {''CString'', ''malloc''}"
    and seen: "seen = (\<lambda>st. if st = 0 \<and> fileAt (nodes w) p = None then 1 else st)"
    and rest: "\<And>w1. tick w1 = Suc (tick w) \<Longrightarrow> nodes w1 = nodes w \<Longrightarrow> conforms E ss (f ()) w1"
  shows "conforms E (Calls op seen 1 # ss) (andThen (c_load (afterDestroy E) op hs p) f) w"
proof -
  let ?w = "w\<lparr>tick := Suc (tick w), c_log := c_log w @ [Called op hs [] []]\<rparr>"
  have run: "c_load (afterDestroy E) op hs p w = (if seen (c_status E (tick w)) = 0 then (Inr (), ?w)
       else (Inl (callError E op (tick w) (seen (c_status E (tick w))) 1), ?w))"
    using assms(1) by (simp add: c_load_def loadFailed_def c_invoke_def andThen_def eviFailed_def EVI_STATUS_SUCCESS_def
        callError_evi seen)
  show ?thesis
    by (rule conforms_call[where good = ?w and bad = ?w]; (rule run | rule rest)?;
      use assms(2) in \<open>simp add: c_created_def\<close>)
qed

lemma acquire_step:
  assumes "op \<notin> {''CString'', ''malloc''}"
    and failed: "failed (tick w) (c_status E (tick w)) (w\<lparr>tick := Suc (tick w), c_log := c_log w @ [Called op hs ns vs]\<rparr>) =
      (if seen (c_status E (tick w)) = 0 then None
       else Some (callError E op (tick w) (seen (c_status E (tick w))) n))"
    and rest: "\<And>w1. tick w1 = Suc (tick w) \<Longrightarrow> nodes w1 = nodes w \<Longrightarrow> conforms E ss (f (Handle kind (tick w))) w1"
  shows "conforms E (Calls op seen n # ss) (andThen (c_acquire E kind op hs ns vs failed) f) w"
proof -
  let ?w = "w\<lparr>tick := Suc (tick w), c_log := c_log w @ [Called op hs ns vs]\<rparr>"
  have run: "c_acquire E kind op hs ns vs failed w =
      (if seen (c_status E (tick w)) = 0 then (Inr (Handle kind (tick w)), c_created (Handle kind (tick w)) ?w)
       else (Inl (callError E op (tick w) (seen (c_status E (tick w))) n), ?w))"
    by (simp add: c_acquire_def c_invoke_def andThen_def failed)
  show ?thesis
    by (rule conforms_call[where good = "c_created (Handle kind (tick w)) ?w" and bad = ?w]; (rule run | rule rest)?;
      use assms(1) in \<open>simp add: c_created_def\<close>)
qed

lemma conforms_scoped:
  "conforms E ss (andThen create (\<lambda>h. deferring (c_free h) (body h))) w \<Longrightarrow> conforms E ss (scoped create body) w"
  by (simp add: scoped_def)

section \<open>The plans of the provider functions\<close>

definition refuses :: "err \<Rightarrow> planStep list" where
  "refuses e = [Requires (\<lambda>_. Some e)]"

text \<open>The status as it is, and as a call that reads a file reports it.\<close>

definition raw :: "int \<Rightarrow> int" where
  "raw st = st"

definition needing :: "bool \<Rightarrow> int \<Rightarrow> int \<Rightarrow> int" where
  "needing present code st = (if st = 0 \<and> \<not> present then code else st)"

definition wrapPlan :: "string \<Rightarrow> string \<Rightarrow> bool \<Rightarrow> planStep list" where
  "wrapPlan op keyID readable = [Allocates, Allocates, Allocates,
     Calls op (\<lambda>st. if keyID = [] then -1 else needing readable (-2) st) 0]"

definition unwrapPlan :: "string \<Rightarrow> bool \<Rightarrow> planStep list" where
  "unwrapPlan op readable = [Allocates, Allocates, Calls op (needing readable (-2)) 0]"

definition newContextPlan :: "CKKSParams \<Rightarrow> planStep list" where
  "newContextPlan params =
     (if cp_dims params = []
      then refuses (Errorf [Lit ''runespace/crypto: CKKSParams.DimList must contain at least one dim''])
      else case presetToEnum (cp_preset params) of Inl e \<Rightarrow> refuses e
      | Inr _ \<Rightarrow> (case evalModeToEnum (cp_mode params) of Inl e \<Rightarrow> refuses e
      | Inr _ \<Rightarrow> [Calls ''evi_context_create'' raw 0]))"

definition generatePlan :: "string \<Rightarrow> planStep list" where
  "generatePlan keyID =
     [Calls ''evi_context_create'' raw 0, Calls ''evi_keypack_create'' raw 0, Calls ''evi_keygenerator_create'' raw 0,
      Calls ''evi_keygenerator_generate_secret_key'' raw 0, Calls ''evi_keygenerator_generate_public_keys'' raw 0,
      Allocates, Calls ''evi_keypack_save_enc_key'' raw 0, Allocates, Calls ''evi_keypack_save_eval_key'' raw 0,
      Allocates, Allocates, Calls ''evi_km_wrap_sec_key_from_handle'' (\<lambda>st. if keyID = [] then -1 else st) 0]"

definition newEncryptorPlan :: "cgoContext \<Rightarrow> bool \<Rightarrow> planStep list" where
  "newEncryptorPlan c present =
     (if ctx_c c = None
      then refuses (Errorf [Lit ''runespace/crypto: NewEncryptor requires an open cgo context''])
      else [Allocates, Calls ''evi_keypack_create'' raw 0, Calls ''evi_keypack_load_enc_key'' (needing present 1) 1,
        Calls ''evi_encryptor_create'' raw 1])"

definition newDecryptorPlan :: "cgoContext \<Rightarrow> bool \<Rightarrow> planStep list" where
  "newDecryptorPlan c present =
     (if ctx_c c = None
      then refuses (Errorf [Lit ''runespace/crypto: NewDecryptor requires an open cgo context''])
      else [Allocates, Calls ''evi_secret_key_create_from_path'' (needing present 1) 0,
        Calls ''evi_decryptor_create'' raw 1])"

definition encryptPlan :: "cgoEncryptor \<Rightarrow> gofloat list \<Rightarrow> string \<Rightarrow> planStep list \<Rightarrow> planStep list" where
  "encryptPlan e vec ty calls =
     (if enc_h e = None \<or> pack_h e = None then refuses encryptorClosed
      else if vec = [] then refuses zeroDim
      else case encodeTypeToEnum ty of Inl x \<Rightarrow> refuses x | Inr _ \<Rightarrow> calls)"

definition encryptSinglePlan :: "'e cgo_env_scheme \<Rightarrow> cgoEncryptor \<Rightarrow> gofloat list \<Rightarrow> string \<Rightarrow> planStep list" where
  "encryptSinglePlan E e vec ty = encryptPlan e vec ty
     [Mallocs, Mallocs, Calls ''evi_encryptor_encrypt_batch_with_pack'' raw 0,
      Requires (\<lambda>k. if c_count E (k - 1) < 1
        then Some (Errorf [Lit ''runespace/crypto: batch encrypt returned no query'']) else None),
      Calls ''evi_query_serialize_to_string'' raw 0]"

definition encryptRowPlan :: "cgoEncryptor \<Rightarrow> gofloat list \<Rightarrow> string \<Rightarrow> planStep list" where
  "encryptRowPlan e vec ty = encryptPlan e vec ty [Mallocs, Calls ''evi_enc_encrypt_row'' raw 0]"

definition decryptPlan :: "cgoDecryptor \<Rightarrow> bytes \<Rightarrow> planStep list" where
  "decryptPlan d result =
     (if dec_h d = None \<or> sk_h d = None then refuses (Errorf [Lit ''runespace/crypto: decryptor closed''])
      else if result = [] then refuses (Errorf [Lit ''runespace/crypto: empty search result''])
      else [Calls ''evi_search_result_deserialize_from_string'' raw 0,
        Calls ''evi_decryptor_decrypt_search_result_with_seckey'' raw 0, Calls ''evi_search_result_get_item_count'' raw 0])"

lemmas plan_defs = wrapPlan_def unwrapPlan_def newContextPlan_def generatePlan_def newEncryptorPlan_def
  newDecryptorPlan_def encryptPlan_def encryptSinglePlan_def encryptRowPlan_def decryptPlan_def refuses_def

text \<open>A function obeys its plan, and a plan that does not refuse makes the listed calls.\<close>

definition obeys :: "'e cgo_env_scheme \<Rightarrow> cgoFun \<Rightarrow> planStep list \<Rightarrow> (err, 'w cgo_world_scheme, 'a) io \<Rightarrow>
    'w cgo_world_scheme \<Rightarrow> bool" where
  "obeys E f plan m w \<longleftrightarrow> conforms E plan m w \<and> (plannedCalls plan = libCalls f \<or> (\<exists>e. plan = refuses e))"

lemma conforms_refuses: "conforms E (refuses e) (throw e) w"
  unfolding refuses_def by (rule conforms_refuse)

lemma raw_calls [simp]: "Calls op raw n = Calls op (\<lambda>st. st) n"
  by (simp add: raw_def fun_eq_iff)

lemma conforms_liftRes:
  "conforms E ss (andThen (liftRes (Inr x)) f) w = conforms E ss (f x) w"
  "conforms E (refuses e) (andThen (liftRes (Inl e)) f) w"
  by (simp_all add: conforms_def andThen_def run_simps refuses_def)

lemma conforms_liftRes_Inr: "r = Inr x \<Longrightarrow> conforms E ss (f x) w \<Longrightarrow> conforms E ss (andThen (liftRes r) f) w"
  by (simp add: conforms_def andThen_def run_simps)

lemma conforms_liftRes_Inl: "r = Inl e \<Longrightarrow> conforms E (refuses e) (andThen (liftRes r) f) w"
  by (simp add: conforms_def andThen_def run_simps refuses_def)

lemmas plan_steps = conforms_scoped conforms_deferring conforms_orDestroy create_step step_step save_step
  string_step malloc_step

lemma shimRun_wrap:
  assumes "nodes w1 = nodes w"
  shows "shimRun E op (if keyID = [] then -1 else needing (fileAt (nodes w) p \<noteq> None) (-2) (c_status E (tick w1)))
    (km_convert E op (keyID \<noteq> []) (\<lambda>b. Some (km_wrap E kind keyID b)) p q) w1"
proof -
  have "Option.bind (fileAt (nodes w1) p) (\<lambda>b. Some (km_wrap E kind keyID b)) = None \<longleftrightarrow> fileAt (nodes w) p = None"
    by (simp add: assms bind_eq_None_conv)
  then show ?thesis
    using shimRun_convert[of E op "keyID \<noteq> []" w1 p "\<lambda>b. Some (km_wrap E kind keyID b)" q]
    by (simp only: needing_def not_not)
qed

lemma shimRun_unwrap:
  assumes "nodes w1 = nodes w"
  shows "shimRun E op (needing (Option.bind (fileAt (nodes w) p) (km_unwrap E kind) \<noteq> None) (-2) (c_status E (tick w1)))
    (km_convert E op True (km_unwrap E kind) p q) w1"
  using shimRun_convert[of E op True w1 p "km_unwrap E kind" q]
  by (simp only: assms needing_def not_not if_False not_True_eq_False)

lemma obeys_wrap:
  assumes "bufOf op = KmBuf"
  shows "conforms E (wrapPlan op keyID (fileAt (nodes w) p \<noteq> None)) (wrapKey E kind op keyID p q) w"
    and "conforms E (unwrapPlan op (Option.bind (fileAt (nodes w) p) (km_unwrap E kind) \<noteq> None)) (unwrapKey E kind op p q) w"
  unfolding wrapPlan_def wrapKey_def unwrapPlan_def unwrapKey_def
  by (intro conforms_scoped string_step conforms_deferring shimRun_last[OF assms] shimRun_wrap shimRun_unwrap; simp)+

lemma conforms_context: "conforms E (newContextPlan params) (NewCKKSContext E params) w"
proof (cases "cp_dims params = [] \<or> isl (presetToEnum (cp_preset params)) \<or> isl (evalModeToEnum (cp_mode params))")
  case True
  show ?thesis
  proof (cases "cp_dims params")
    case Nil
    then show ?thesis by (simp add: NewCKKSContext_def newContextPlan_def conforms_refuses)
  next
    case (Cons d ds)
    then show ?thesis using True unfolding NewCKKSContext_def newContextPlan_def
      by (cases "presetToEnum (cp_preset params)"; cases "evalModeToEnum (cp_mode params)")
        (simp_all add: conforms_liftRes)
  qed
next
  case False
  then obtain a b where "presetToEnum (cp_preset params) = Inr a" "evalModeToEnum (cp_mode params) = Inr b"
    by (metis isl_def sum.exhaust_sel)
  then show ?thesis using False unfolding NewCKKSContext_def newContextPlan_def
    by (simp add: conforms_liftRes) (intro create_step conforms_ret; simp)
qed

lemma conforms_generate: "conforms E (generatePlan keyID) (generateTrio E preset mode n keyID dir) w"
  unfolding generateTrio_def generatePlan_def raw_calls
  by (intro plan_steps shimRun_last shimRun_handle; simp)

lemma conforms_encryptor:
  "conforms E (newEncryptorPlan c (fileAt (nodes w) (joinPath dir encKeyBinFile) \<noteq> None)) (NewEncryptor E c dir) w"
proof (cases "ctx_c c")
  case None
  then show ?thesis by (simp add: NewEncryptor_def newEncryptorPlan_def conforms_refuses)
next
  case (Some h)
  then show ?thesis unfolding NewEncryptor_def newEncryptorPlan_def Some option.case raw_calls
    by (simp only: option.distinct if_False)
      (intro plan_steps load_step conforms_ret; simp add: needing_def fun_eq_iff)
qed

lemma conforms_decryptor:
  "conforms E (newDecryptorPlan c (fileAt (nodes w) (joinPath dir secKeyBinFile) \<noteq> None)) (NewDecryptor E c dir) w"
proof (cases "ctx_c c")
  case None
  then show ?thesis by (simp add: NewDecryptor_def newDecryptorPlan_def conforms_refuses)
next
  case (Some h)
  then show ?thesis unfolding NewDecryptor_def newDecryptorPlan_def Some option.case raw_calls
    by (simp only: option.distinct if_False)
      (intro plan_steps acquire_step conforms_ret;
       simp add: needing_def loadFailed_def eviFailed_def EVI_STATUS_SUCCESS_def callError_evi)
qed

lemma conforms_encrypting:
  assumes "\<And>enc pack ty. enc_h e = Some enc \<Longrightarrow> pack_h e = Some pack \<Longrightarrow> conforms E calls (go enc pack ty) w"
  shows "conforms E (encryptPlan e vec ty calls)
    (case (enc_h e, pack_h e) of (Some enc, Some pack) \<Rightarrow>
        if vec = [] then throw zeroDim else andThen (liftRes (encodeTypeToEnum ty)) (go enc pack)
     | _ \<Rightarrow> throw encryptorClosed) w"
  unfolding encryptPlan_def
  by (cases "enc_h e"; cases "pack_h e"; cases "encodeTypeToEnum ty")
    (auto intro!: conforms_refuses conforms_liftRes_Inl conforms_liftRes_Inr assms)

lemma conforms_counted:
  assumes "tick w1 = Suc k" "conforms E ss m w1"
  shows "conforms E (Requires (\<lambda>j. if c_count E (j - 1) < 1 then Some x else None) # ss)
    (if c_count E (hid (Handle kind k)) < 1 then throw x else m) w1"
  using assms by (simp add: conforms_def run_simps)

lemma conforms_single: "conforms E (encryptSinglePlan E e vec ty) (EncryptSingle E e vec ty) w"
  unfolding encryptSinglePlan_def EncryptSingle_def raw_calls
  by (rule conforms_encrypting)
    (intro plan_steps conforms_counted conforms_ret; simp)

lemma conforms_row: "conforms E (encryptRowPlan e vec ty) (EncryptRow E e vec ty level) w"
  unfolding encryptRowPlan_def EncryptRow_def raw_calls
  by (rule conforms_encrypting)
    (intro plan_steps acquire_step conforms_ret; simp add: callError_shim shim_failed(2))

lemma conforms_decrypt: "conforms E (decryptPlan d result) (DecryptSearchResult E d result) w"
proof (cases "dec_h d = None \<or> sk_h d = None \<or> result = []")
  case True
  then show ?thesis unfolding DecryptSearchResult_def decryptPlan_def
    by (auto simp: conforms_refuses split: option.split)
next
  case False
  then obtain a b where "dec_h d = Some a" "sk_h d = Some b" by auto
  then show ?thesis using False unfolding DecryptSearchResult_def decryptPlan_def Let_def raw_calls
    by (simp, intro plan_steps conforms_ret; simp)
qed


section \<open>The property\<close>

lemma planned_calls [simp]:
  "plannedCalls (wrapPlan op keyID r) = [(op, bufOf op, 0)]"
  "plannedCalls (unwrapPlan op r) = [(op, bufOf op, 0)]"
  "plannedCalls (generatePlan keyID) = generateCalls"
  by (simp_all add: plan_defs call_lists)

lemma planned_or_refused:
  "plannedCalls (newContextPlan params) = newContextCalls \<or> (\<exists>x. newContextPlan params = refuses x)"
  "plannedCalls (newEncryptorPlan c r) = newEncryptorCalls \<or> (\<exists>x. newEncryptorPlan c r = refuses x)"
  "plannedCalls (newDecryptorPlan c r) = newDecryptorCalls \<or> (\<exists>x. newDecryptorPlan c r = refuses x)"
  "plannedCalls (encryptSinglePlan E e vec ty) = encryptSingleCalls \<or> (\<exists>x. encryptSinglePlan E e vec ty = refuses x)"
  "plannedCalls (encryptRowPlan e vec ty) = encryptRowCalls \<or> (\<exists>x. encryptRowPlan e vec ty = refuses x)"
  "plannedCalls (decryptPlan d result) = decryptCalls \<or> (\<exists>x. decryptPlan d result = refuses x)"
  by (auto simp: plan_defs call_lists split: sum.split)

text \<open>
  C8. Every provider function obeys its plan, whatever the library and the file system do: it makes
  the calls of the plan in their order up to the first that fails, makes none after
  it, and returns the error that names this call, with this call's own status and message (after the
  one object it destroys, in \<open>NewEncryptor\<close> and \<open>NewDecryptor\<close>); with no failing call it
  returns the error of the first check that refuses, or succeeds when there is none. The plans make the
  calls that the pinning of threads protects.
\<close>

theorem provider_errors_name_their_call:
  "obeys E FWrapSecKey (wrapPlan ''evi_km_wrap_sec_key'' keyID (fileAt (nodes w) p \<noteq> None)) (WrapSecKey E keyID p q) w \<and>
   obeys E FWrapEncKey (wrapPlan ''evi_km_wrap_enc_key'' keyID (fileAt (nodes w) p \<noteq> None)) (WrapEncKey E keyID p q) w \<and>
   obeys E FWrapEvalKey (wrapPlan ''evi_km_wrap_eval_key'' keyID (fileAt (nodes w) p \<noteq> None)) (WrapEvalKey E keyID p q) w \<and>
   obeys E FUnwrapSecKey (unwrapPlan ''evi_km_unwrap_sec_key'' (Option.bind (fileAt (nodes w) p) (km_unwrap E ''sec'') \<noteq> None))
     (UnwrapSecKey E p q) w \<and>
   obeys E FUnwrapEncKey (unwrapPlan ''evi_km_unwrap_enc_key'' (Option.bind (fileAt (nodes w) p) (km_unwrap E ''enc'') \<noteq> None))
     (UnwrapEncKey E p q) w \<and>
   obeys E FUnwrapEvalKey (unwrapPlan ''evi_km_unwrap_eval_key'' (Option.bind (fileAt (nodes w) p) (km_unwrap E ''eval'') \<noteq> None))
     (UnwrapEvalKey E p q) w \<and>
   obeys E FNewCKKSContext (newContextPlan params) (NewCKKSContext E params) w \<and>
   obeys E FGenerate (generatePlan keyID) (generateTrio E preset mode n keyID dir) w \<and>
   obeys E FNewEncryptor (newEncryptorPlan c (fileAt (nodes w) (joinPath dir encKeyBinFile) \<noteq> None)) (NewEncryptor E c dir) w \<and>
   obeys E FEncryptSingle (encryptSinglePlan E e vec ty) (EncryptSingle E e vec ty) w \<and>
   obeys E FEncryptRow (encryptRowPlan e vec ty) (EncryptRow E e vec ty level) w \<and>
   obeys E FNewDecryptor (newDecryptorPlan c (fileAt (nodes w) (joinPath dir secKeyBinFile) \<noteq> None)) (NewDecryptor E c dir) w \<and>
   obeys E FDecryptSearchResult (decryptPlan d result) (DecryptSearchResult E d result) w"
  by (intro conjI;
      simp add: obeys_def planned_or_refused conforms_context conforms_generate conforms_encryptor conforms_single
        conforms_row conforms_decryptor conforms_decrypt obeys_wrap WrapSecKey_def WrapEncKey_def WrapEvalKey_def
        UnwrapSecKey_def UnwrapEncKey_def UnwrapEvalKey_def del: not_None_eq)


text \<open>
  The third call of the library reports status 7 and a message, which destroying the key pack marks: the
  loader's own error comes out, and the encryptor is not asked for.
\<close>

definition lockedEnv :: cgo_env where
  "lockedEnv = \<lparr>os_fault = (\<lambda>k. None), os_partial = (\<lambda>k. 0), os_tempname = (\<lambda>k. []),
     c_status = (\<lambda>k. if k = 2 then 7 else 0), c_message = (\<lambda>k. if k = 2 then ''locked'' else ''other''),
     c_destroyed = (\<lambda>m. m @ ''!''), c_blob = (\<lambda>k. []), c_count = (\<lambda>k. 1), c_scores = (\<lambda>k. []),
     c_partial = (\<lambda>k. None), km_wrap = (\<lambda>kind i b. b), km_unwrap = (\<lambda>kind b. None)\<rparr>"

definition startWorld :: cgo_world where
  "startWorld = \<lparr>tick = 0, nodes = [], c_log = []\<rparr>"

lemma provider_errors_name_their_call_witness:
  "fst (NewEncryptor lockedEnv \<lparr>ctx_c = Some (Handle HContext 0)\<rparr> (True, [''k''])  startWorld) =
     Inl (Errorf [Lit ''runespace/crypto: '', Str ''evi_keypack_load_enc_key'', Lit '': '', Str ''locked!'',
       Lit '' (status='', Dec 7, Lit '')'']) \<and>
   fallible (c_log (snd (NewEncryptor lockedEnv \<lparr>ctx_c = Some (Handle HContext 0)\<rparr> (True, [''k'']) startWorld))) =
     [''evi_keypack_create'', ''evi_keypack_load_enc_key'']"
proof -
  let ?c = "\<lparr>ctx_c = Some (Handle HContext 0)\<rparr>" and ?d = "(True, [''k'']) :: gopath"
  let ?run = "NewEncryptor lockedEnv ?c ?d startWorld"
  have "obeys lockedEnv FNewEncryptor (newEncryptorPlan ?c (fileAt (nodes startWorld) (joinPath ?d encKeyBinFile) \<noteq> None))
      (NewEncryptor lockedEnv ?c ?d) startWorld"
    using provider_errors_name_their_call[where E = lockedEnv and w = startWorld and dir = ?d and c = ?c] by blast
  then show ?thesis
    by (auto simp: obeys_def conforms_def newEncryptorPlan_def needing_def raw_def lockedEnv_def startWorld_def
        callError_def split: sum.splits)
qed

end
