(* ===== verification/Object_Lifetimes.thy ===== *)
theory Object_Lifetimes
  imports Crypto_Provider
begin

text \<open>
  \<open>runtime.SetFinalizer\<close> and \<open>runtime.KeepAlive\<close> of \<open>internal/crypto/cryptocgo.go\<close>, and what the locks
  of \<open>keys.go\<close> do for the lifetime of objects. A context, an encryptor and a decryptor carry
  finalizers that destroy their C objects. The collector may run one as soon as no goroutine can
  reach the Go object any more, and a C call holds only raw pointers: an object whose last mention
  was the argument of the call would be destroyed while the call runs. Worse, an encryptor
  works on the context it was built from and its Go object does not point to it: only
  the bundle does. So every function mentions its object once more after its last call
  (\<open>KeepAlive\<close>), and the methods of \<open>Keys\<close> mention the bundle in their deferred \<open>Unlock\<close>.

  Here any number of goroutines run any sequence of those functions while the collector
  runs finalizers whenever it is allowed to. A script is the longest path of its function: an object
  that may be mentioned on some path to come is kept on all. Bundle \<open>b\<close> has the context, the encryptor
  and the decryptor of the same number. That the locks exclude \<open>Close\<close>, which empties a bundle, is
  the matter of \<open>Bundle_Lock\<close>; here they are mentions.
\<close>

section \<open>Objects\<close>

datatype gobj = BundleObj nat | CtxObj nat | EncObj nat | DecObj nat

text \<open>The Go objects a Go object points to; a \<open>cgoEncryptor\<close> holds C pointers only.\<close>

fun referents :: "gobj \<Rightarrow> gobj list" where
  "referents (BundleObj b) = [CtxObj b, EncObj b, DecObj b]"
| "referents _ = []"

fun hasFinalizer :: "gobj \<Rightarrow> bool" where
  "hasFinalizer (BundleObj b) = False"
| "hasFinalizer _ = True"

inductive_set reach :: "gobj set \<Rightarrow> gobj set" for R where
  root: "x \<in> R \<Longrightarrow> x \<in> reach R"
| pointer: "x \<in> reach R \<Longrightarrow> y \<in> set (referents x) \<Longrightarrow> y \<in> reach R"

lemma reach_code: "reach R = R \<union> (\<Union>x\<in>R. set (referents x))"
proof (intro equalityI subsetI)
  fix x assume "x \<in> reach R"
  then show "x \<in> R \<union> (\<Union>x\<in>R. set (referents x))"
  proof induction
    case (pointer x y)
    moreover have "x \<notin> set (referents z)" if "y \<in> set (referents x)" for z
      using that by (cases x; cases z) auto
    ultimately show ?case by auto
  qed simp
qed (auto intro: reach.intros)

lemma reach_mono: "R \<subseteq> S \<Longrightarrow> reach R \<subseteq> reach S"
  by (auto simp: reach_code)

section \<open>Scripts\<close>

text \<open>
  \<open>Mentions\<close> is a use of the Go object, \<open>Locks\<close> and \<open>Unlocks\<close> one of its mutex. \<open>EnterC x ys\<close> reads the C pointers
  of \<open>x\<close> and enters the library, which works on them and on those of \<open>ys\<close>; \<open>LeaveC\<close> returns.
\<close>

datatype ginstr = Mentions gobj | Locks gobj | Unlocks gobj | EnterC gobj "gobj list" | LeaveC

definition keepAlive :: "gobj \<Rightarrow> ginstr list" where
  "keepAlive x = [Mentions x]"

text \<open>\<open>NewEncryptor\<close> creates the key pack and the encryptor on the context.\<close>

definition newEncryptorUses :: "nat \<Rightarrow> ginstr list" where
  "newEncryptorUses c = [Mentions (CtxObj c), EnterC (CtxObj c) [], LeaveC, EnterC (CtxObj c) [], LeaveC]
     @ keepAlive (CtxObj c)"

definition newDecryptorUses :: "nat \<Rightarrow> ginstr list" where
  "newDecryptorUses c = [Mentions (CtxObj c), EnterC (CtxObj c) [], LeaveC] @ keepAlive (CtxObj c)"

text \<open>Encrypting and decrypting work on the context too.\<close>

definition encryptSingleUses :: "nat \<Rightarrow> ginstr list" where
  "encryptSingleUses b = [Locks (EncObj b), Mentions (EncObj b), EnterC (EncObj b) [CtxObj b], LeaveC]
     @ keepAlive (EncObj b) @ [Unlocks (EncObj b)]"

definition encryptRowUses :: "nat \<Rightarrow> ginstr list" where
  "encryptRowUses b = [Locks (EncObj b), Mentions (EncObj b), EnterC (EncObj b) [CtxObj b], LeaveC]
     @ keepAlive (EncObj b) @ [Unlocks (EncObj b)]"

definition decryptUses :: "nat \<Rightarrow> ginstr list" where
  "decryptUses b = [Locks (DecObj b), Mentions (DecObj b), EnterC (DecObj b) [CtxObj b], LeaveC]
     @ keepAlive (DecObj b) @ [Unlocks (DecObj b)]"

text \<open>
  The methods of \<open>Keys\<close> lock the bundle, read its field and defer the unlocking; \<open>k\<close> itself is not
  mentioned after that.
\<close>

definition underCryptoMu :: "nat \<Rightarrow> ginstr list \<Rightarrow> ginstr list" where
  "underCryptoMu b body = [Locks (BundleObj b), Mentions (BundleObj b)] @ body @ [Unlocks (BundleObj b)]"

datatype guse =
    UseNewEncryptor nat | UseNewDecryptor nat
  | UseEncryptFlat nat | UseEncryptClustered nat | UseDecryptResult nat | UseDecryptClustered nat

fun usesOf :: "guse \<Rightarrow> ginstr list" where
  "usesOf (UseNewEncryptor c) = newEncryptorUses c"
| "usesOf (UseNewDecryptor c) = newDecryptorUses c"
| "usesOf (UseEncryptFlat b) = underCryptoMu b (encryptSingleUses b)"
| "usesOf (UseEncryptClustered b) = underCryptoMu b (encryptRowUses b)"
| "usesOf (UseDecryptResult b) = underCryptoMu b (decryptUses b)"
| "usesOf (UseDecryptClustered b) = underCryptoMu b (decryptUses b)"

lemmas uses_defs = newEncryptorUses_def newDecryptorUses_def encryptSingleUses_def encryptRowUses_def decryptUses_def
  underCryptoMu_def keepAlive_def

definition programOf :: "guse list \<Rightarrow> ginstr list" where
  "programOf us = concat (map usesOf us)"

text \<open>The same code when its locks and unlocks keep nothing alive.\<close>

fun isLock :: "ginstr \<Rightarrow> bool" where
  "isLock (Locks x) = True" | "isLock (Unlocks x) = True" | "isLock _ = False"

definition withoutLocks :: "ginstr list \<Rightarrow> ginstr list" where
  "withoutLocks is = [i \<leftarrow> is. \<not> isLock i]"

section \<open>Goroutines and the collector\<close>

record heap_state =
  code :: "nat \<Rightarrow> ginstr list"
  inside :: "nat \<Rightarrow> gobj list"
  freed :: "gobj set"

text \<open>The objects a piece of code still mentions: as in a liveness analysis.\<close>

fun mentioned :: "ginstr list \<Rightarrow> gobj set" where
  "mentioned [] = {}"
| "mentioned (Mentions x # is) = insert x (mentioned is)"
| "mentioned (Locks x # is) = insert x (mentioned is)"
| "mentioned (Unlocks x # is) = insert x (mentioned is)"
| "mentioned (EnterC x ys # is) = insert x (mentioned is)"
| "mentioned (LeaveC # is) = mentioned is"

fun isUse :: "ginstr \<Rightarrow> bool" where
  "isUse (EnterC x ys) = False" | "isUse LeaveC = False" | "isUse _ = True"

inductive gcStep :: "heap_state \<Rightarrow> heap_state \<Rightarrow> bool" where
  Mention: "code s g = i # is \<Longrightarrow> isUse i \<Longrightarrow> gcStep s (s\<lparr>code := (code s)(g := is)\<rparr>)"
| CallLib: "code s g = EnterC x ys # is \<Longrightarrow>
    gcStep s (s\<lparr>code := (code s)(g := is), inside := (inside s)(g := x # ys)\<rparr>)"
| ReturnLib: "code s g = LeaveC # is \<Longrightarrow>
    gcStep s (s\<lparr>code := (code s)(g := is), inside := (inside s)(g := [])\<rparr>)"
| Finalize: "hasFinalizer x \<Longrightarrow> \<forall>g. x \<notin> reach (mentioned (code s g)) \<Longrightarrow> gcStep s (s\<lparr>freed := insert x (freed s)\<rparr>)"

inductive gcRun :: "(nat \<Rightarrow> ginstr list) \<Rightarrow> heap_state \<Rightarrow> bool" for progs where
  begin_run: "gcRun progs \<lparr>code = progs, inside = (\<lambda>_. []), freed = {}\<rparr>"
| extend: "gcRun progs s \<Longrightarrow> gcStep s s' \<Longrightarrow> gcRun progs s'"

section \<open>Safety\<close>

text \<open>
  Inside a call its objects, those that \<open>sel\<close> selects, can be reached from what is mentioned after
  the call.
\<close>

fun guarded :: "(gobj list \<Rightarrow> gobj list) \<Rightarrow> gobj list \<Rightarrow> ginstr list \<Rightarrow> bool" where
  "guarded sel [] [] = True"
| "guarded sel [] (EnterC x ys # is) = guarded sel (x # ys) is"
| "guarded sel [] (LeaveC # is) = False"
| "guarded sel [] (i # is) = guarded sel [] is"
| "guarded sel (x # xs) (LeaveC # is) = (set (sel (x # xs)) \<subseteq> reach (mentioned is) \<and> guarded sel [] is)"
| "guarded sel (x # xs) _ = False"

lemma guarded_use: "isUse i \<Longrightarrow> guarded sel z (i # is) \<longleftrightarrow> z = [] \<and> guarded sel [] is"
  by (cases i; cases z) simp_all

lemma mentioned_append [simp]: "mentioned (is @ js) = mentioned is \<union> mentioned js"
  by (induction "is" rule: mentioned.induct) auto

lemma guarded_append: "guarded sel z is \<Longrightarrow> guarded sel [] js \<Longrightarrow> guarded sel z (is @ js)"
proof (induction sel z "is" rule: guarded.induct)
  case (5 sel x xs "is")
  then show ?case using reach_mono[of "mentioned is" "mentioned (is @ js)"] by auto
qed auto

lemma guarded_concat: "(\<And>u. u \<in> set us \<Longrightarrow> guarded sel [] (f u)) \<Longrightarrow> guarded sel [] (concat (map f us))"
  by (induction us) (simp_all add: guarded_append)

lemma guarded_program: "guarded (\<lambda>xs. xs) [] (programOf us)"
proof -
  have "guarded (\<lambda>xs. xs) [] (usesOf u)" for u
    by (cases u) (simp_all add: uses_defs reach_code)
  then show ?thesis unfolding programOf_def by (rule guarded_concat)
qed

lemma guarded_unlocked: "guarded (take 1) [] (withoutLocks (programOf us))"
proof -
  have "guarded (take 1) [] (withoutLocks (usesOf u))" for u
    by (cases u) (simp_all add: uses_defs reach_code withoutLocks_def)
  then have "guarded (take 1) [] (concat (map (\<lambda>u. withoutLocks (usesOf u)) us))" by (rule guarded_concat)
  then show ?thesis by (simp add: programOf_def withoutLocks_def filter_concat comp_def)
qed

definition gcSafe :: "(gobj list \<Rightarrow> gobj list) \<Rightarrow> heap_state \<Rightarrow> bool" where
  "gcSafe sel s \<longleftrightarrow> (\<forall>g. guarded sel (inside s g) (code s g)) \<and> (\<forall>g. reach (mentioned (code s g)) \<inter> freed s = {})"

lemma gcSafe_advance:
  assumes "gcSafe sel s" "code s g = i # is" "guarded sel z is"
  shows "gcSafe sel (s\<lparr>code := (code s)(g := is), inside := (inside s)(g := z)\<rparr>)"
proof -
  have "mentioned is \<subseteq> mentioned (code s g)" using assms(2) by (cases i) auto
  then have "reach (mentioned is) \<inter> freed s = {}"
    using assms(1) reach_mono unfolding gcSafe_def by blast
  then show ?thesis using assms(1,3) by (simp add: gcSafe_def)
qed

lemma gcSafe_step:
  assumes "gcStep s s'" "gcSafe sel s"
  shows "gcSafe sel s'"
  using assms(1)
proof (cases rule: gcStep.cases)
  case (Mention g i "is")
  have "guarded sel (inside s g) (i # is)" using assms(2) Mention(2) unfolding gcSafe_def by metis
  then have "inside s g = []" "guarded sel [] is" using Mention(3) by (simp_all add: guarded_use)
  moreover from this have "(inside s)(g := []) = inside s" by auto
  ultimately show ?thesis using gcSafe_advance[OF assms(2) Mention(2), of "[]"] Mention(1) by simp
next
  case (CallLib g x ys "is")
  have "guarded sel (inside s g) (EnterC x ys # is)" using assms(2) CallLib(2) unfolding gcSafe_def by metis
  then have "guarded sel (x # ys) is" by (cases "inside s g") simp_all
  then show ?thesis using gcSafe_advance[OF assms(2) CallLib(2)] CallLib(1) by simp
next
  case (ReturnLib g "is")
  have "guarded sel (inside s g) (LeaveC # is)" using assms(2) ReturnLib(2) unfolding gcSafe_def by metis
  then have "guarded sel [] is" by (cases "inside s g") simp_all
  then show ?thesis using gcSafe_advance[OF assms(2) ReturnLib(2)] ReturnLib(1) by simp
next
  case (Finalize x)
  then show ?thesis using assms(2) by (auto simp: gcSafe_def)
qed

lemma gcSafe_run:
  assumes "gcRun progs s" "\<And>g. guarded sel [] (progs g)"
  shows "gcSafe sel s"
  using assms(1)
proof (induction rule: gcRun.induct)
  case begin_run
  then show ?case by (simp add: gcSafe_def assms(2))
qed (rule gcSafe_step)

lemma guarded_inside: "guarded sel (x # xs) is \<Longrightarrow> set (sel (x # xs)) \<subseteq> reach (mentioned is)"
  by (cases "is"; cases "hd is") auto

lemma gcSafe_inside:
  assumes "gcSafe sel s" "sel [] = []"
  shows "set (sel (inside s g)) \<inter> freed s = {}"
  using assms guarded_inside[of sel "hd (inside s g)" "tl (inside s g)" "code s g"]
  unfolding gcSafe_def by (cases "inside s g") (simp, metis disjoint_iff list.sel(1,3) subsetD)

lemma gcSafe_entering:
  assumes "gcSafe (\<lambda>xs. xs) s" "code s g = EnterC x ys # is"
  shows "set (x # ys) \<inter> freed s = {}"
proof -
  have "gcSafe (\<lambda>xs. xs) (s\<lparr>code := (code s)(g := is), inside := (inside s)(g := x # ys)\<rparr>)"
    using gcSafe_step[OF gcStep.CallLib] assms by blast
  from gcSafe_inside[OF this, of g] show ?thesis by simp
qed


text \<open>
  C9. No finalizer pulls an object from under a call: however goroutines that build encryptors
  and decryptors on contexts, encrypt and decrypt interleave with a collector that runs a
  finalizer as soon as no code can reach the object, nobody is in the library with, or about to
  enter it with, an object that was destroyed, the context an encryptor or decryptor
  works on included. And \<open>KeepAlive\<close> does its part without the locks: if neither they nor the deferred
  unlocking of the bundle kept anything alive, the object whose pointers were read would still outlive
  its call.
\<close>

theorem finalizers_spare_calls:
  "(gcRun (\<lambda>g. programOf (progs g)) s \<longrightarrow>
      set (inside s g) \<inter> freed s = {} \<and> (code s g = EnterC x ys # is \<longrightarrow> set (x # ys) \<inter> freed s = {})) \<and>
   (gcRun (\<lambda>g. withoutLocks (programOf (progs g))) s \<longrightarrow> set (take 1 (inside s g)) \<inter> freed s = {})"
proof (intro conjI impI)
  assume "gcRun (\<lambda>g. programOf (progs g)) s"
  then have safe: "gcSafe (\<lambda>xs. xs) s" by (rule gcSafe_run) (rule guarded_program)
  show "set (inside s g) \<inter> freed s = {}" using gcSafe_inside[OF safe] by simp
  assume "code s g = EnterC x ys # is"
  then show "set (x # ys) \<inter> freed s = {}" by (rule gcSafe_entering[OF safe])
next
  assume "gcRun (\<lambda>g. withoutLocks (programOf (progs g))) s"
  then have "gcSafe (take 1) s" by (rule gcSafe_run) (rule guarded_unlocked)
  then show "set (take 1 (inside s g)) \<inter> freed s = {}" by (rule gcSafe_inside) simp
qed

section \<open>Runs\<close>

lemma gcRun_uses:
  assumes "gcRun progs s" "code s g = pre @ is" "\<forall>i\<in>set pre. isUse i"
  shows "gcRun progs (s\<lparr>code := (code s)(g := is)\<rparr>)"
  using assms
proof (induction pre arbitrary: s)
  case Nil
  moreover from this have "(code s)(g := is) = code s" by auto
  ultimately show ?case by simp
next
  case (Cons i pre)
  then have "gcRun progs (s\<lparr>code := (code s)(g := pre @ is)\<rparr>)"
    by (auto intro!: gcRun.extend[OF Cons.prems(1)] gcStep.Mention)
  from Cons.IH[OF this] show ?case using Cons.prems by (simp cong: if_cong)
qed

text \<open>A goroutine runs the script up to its call; then the collector finalizes \<open>y\<close>.\<close>

lemma gcRun_enter_finalize:
  fixes progs :: "nat \<Rightarrow> ginstr list"
  assumes "progs g = pre @ EnterC x ys # is" "\<forall>i\<in>set pre. isUse i" "hasFinalizer y"
    and "y \<notin> reach (mentioned is)" "\<And>h. h \<noteq> g \<Longrightarrow> progs h = []"
  shows "gcRun progs \<lparr>code = progs(g := is), inside = (\<lambda>_. [])(g := x # ys), freed = {y}\<rparr>"
proof -
  let ?s = "\<lparr>code = progs, inside = (\<lambda>_. []), freed = {}\<rparr>"
  have "gcRun progs (?s\<lparr>code := (code ?s)(g := EnterC x ys # is)\<rparr>)"
    by (rule gcRun_uses[OF gcRun.begin_run]) (use assms(1,2) in simp_all)
  then have "gcRun progs \<lparr>code = progs(g := is), inside = (\<lambda>_. [])(g := x # ys), freed = {}\<rparr>" (is "gcRun _ ?t")
    using gcRun.extend[OF _ gcStep.CallLib[of _ g x ys "is"]] by fastforce
  then have "gcRun progs (?t\<lparr>freed := insert y (freed ?t)\<rparr>)"
    using assms(3-5) by (intro gcRun.extend[OF _ gcStep.Finalize]) (auto simp: reach_code)
  then show ?thesis by simp
qed

text \<open>
  Goroutine 0 encrypts while the collector has destroyed the encryptor of another bundle; without the
  locks it may destroy the context, and the encryptor itself is spared.
\<close>

lemma finalizers_spare_calls_witness:
  "(\<exists>s. gcRun (\<lambda>g. programOf (if g = (0::nat) then [UseEncryptFlat 0] else [])) s \<and>
      inside s 0 = [EncObj 0, CtxObj 0] \<and> freed s = {EncObj 1} \<and> set (inside s 0) \<inter> freed s = {}) \<and>
   (\<exists>s. gcRun (\<lambda>g. withoutLocks (programOf (if g = (0::nat) then [UseEncryptFlat 0] else []))) s \<and>
      inside s 0 = [EncObj 0, CtxObj 0] \<and> freed s = {CtxObj 0} \<and> EncObj 0 \<notin> freed s)"
proof -
  let ?us = "\<lambda>g. if g = (0::nat) then [UseEncryptFlat 0] else []"
  let ?p = "\<lambda>g. programOf (?us g)" and ?q = "\<lambda>g. withoutLocks (programOf (?us g))"
  define rest where "rest = [LeaveC, Mentions (EncObj 0), Unlocks (EncObj 0), Unlocks (BundleObj 0)]"
  define rest' where "rest' = [LeaveC, Mentions (EncObj 0)]"
  note defs = rest_def rest'_def programOf_def uses_defs withoutLocks_def reach_code
  have run: "gcRun ?p \<lparr>code = ?p(0 := rest), inside = (\<lambda>_. [])(0 := [EncObj 0, CtxObj 0]), freed = {EncObj 1}\<rparr>"
    by (rule gcRun_enter_finalize[where pre = "[Locks (BundleObj 0), Mentions (BundleObj 0), Locks (EncObj 0),
        Mentions (EncObj 0)]"]) (simp_all add: defs)
  have run': "gcRun ?q \<lparr>code = ?q(0 := rest'), inside = (\<lambda>_. [])(0 := [EncObj 0, CtxObj 0]), freed = {CtxObj 0}\<rparr>"
    by (rule gcRun_enter_finalize[where pre = "[Mentions (BundleObj 0), Mentions (EncObj 0)]"]) (simp_all add: defs)
  show ?thesis
    using run run' finalizers_spare_calls[THEN conjunct1, rule_format, OF run, THEN conjunct1, of 0]
      finalizers_spare_calls[THEN conjunct2, rule_format, OF run', of 0]
    by (intro conjI) (rule exI, rule conjI, assumption, simp)+
qed

text \<open>Without its last mention a context can be destroyed during the call that builds an encryptor.\<close>

lemma keepAlive_needed:
  "\<exists>s. gcRun (\<lambda>g. if g = (0::nat) then [Mentions (CtxObj 0), EnterC (CtxObj 0) [], LeaveC] else []) s \<and>
     inside s 0 = [CtxObj 0] \<and> CtxObj 0 \<in> freed s"
proof -
  let ?p = "\<lambda>g. if g = (0::nat) then [Mentions (CtxObj 0), EnterC (CtxObj 0) [], LeaveC] else []"
  have "gcRun ?p \<lparr>code = ?p(0 := [LeaveC]), inside = (\<lambda>_. [])(0 := [CtxObj 0]), freed = {CtxObj 0}\<rparr>"
    by (rule gcRun_enter_finalize[where pre = "[Mentions (CtxObj 0)]"]) (simp_all add: reach_code)
  then show ?thesis by (intro exI conjI, assumption) simp_all
qed

text \<open>Without the deferred unlocking of the bundle the context can be destroyed while it is encrypted on.\<close>

lemma bundle_unlock_needed:
  "\<exists>s. gcRun (\<lambda>g. if g = (0::nat) then butlast (usesOf (UseEncryptFlat 0)) else []) s \<and>
     inside s 0 = [EncObj 0, CtxObj 0] \<and> CtxObj 0 \<in> freed s"
proof -
  let ?p = "\<lambda>g. if g = (0::nat) then butlast (usesOf (UseEncryptFlat 0)) else []"
  have "gcRun ?p \<lparr>code = ?p(0 := [LeaveC, Mentions (EncObj 0), Unlocks (EncObj 0)]),
      inside = (\<lambda>_. [])(0 := [EncObj 0, CtxObj 0]), freed = {CtxObj 0}\<rparr>"
    by (rule gcRun_enter_finalize[where pre = "[Locks (BundleObj 0), Mentions (BundleObj 0), Locks (EncObj 0),
        Mentions (EncObj 0)]"]) (simp_all add: reach_code uses_defs)
  then show ?thesis by (intro exI conjI, assumption) simp_all
qed

end
