(* ===== verification/Spec2Isabelle.thy ===== *)
theory Spec2Isabelle
  imports Normalization Key_Lifecycle Search_Results Insert_Path Registration_Roundtrip Key_Set_Types Example_Programs
    Bundle_Close Centroid_Cache Client_Mutex Error_Reports Object_Lifetimes
begin

text \<open>
  A verification development for the RuneSpace Go SDK (the Go module of this repository). The SDK
  is the client of a blind vector database: it generates and keeps homomorphic keys on disk, encrypts
  items, routes them to clusters, sends them over gRPC, and decrypts, ranks and resolves what a search
  returns. The theories follow the source, one group of definitions per file or part of a file; every
  function name of the source is kept where it is not a name of the library.

  \<^bold>\<open>The world.\<close> A fallible, effectful Go function is a function from a state to a sum, \<open>Inl\<close> for a
  non-nil error, and a new state (\<open>Prelude\<close>, type \<open>io\<close>; \<open>andThen\<close> is the early return, \<open>deferring\<close> a
  \<open>defer\<close>, \<open>mapErr\<close> the \<open>fmt.Errorf("...: %w")\<close> around a call). The state grows by record extension: the
  file system (\<open>os_world\<close>), the log of calls into the C library (\<open>cgo_world\<close>), the allocated key sets, a
  \<open>*Keys\<close> being an index into them (\<open>keys_world\<close>), the client and the requests sent so far
  (\<open>client_world\<close>). What is not in the repository is a parameter: \<open>os_env\<close> says which file-system calls
  fail, \<open>cgo_env\<close> what each call into the evi library returns, \<open>client_env\<close> what the server answers to a
  request given all requests before it. The clock \<open>tick\<close> numbers the calls, so that a statement for
  every environment covers every pattern of failures and every server, stateful or faulty.

  \<^bold>\<open>The parts of Go that the code uses.\<close> \<open>Go_Strings\<close> (UTF-8, \<open>TrimSpace\<close>, \<open>ToLower\<close>, \<open>EqualFold\<close>),
  \<open>Go_Sort\<close> (\<open>sort.SliceStable\<close>, with the interface \<open>preference\<close>), \<open>Go_Float\<close> (IEEE 754 binary32 and binary64
  with round to nearest even, computed on rationals), \<open>Go_JSON\<close> (\<open>json.Valid\<close>), \<open>Go_SHA256\<close> (the streaming
  digest equals the hash of the whole, interface \<open>streaming\<close>), \<open>Os_Files\<close> (paths, a store of files and
  directories with the interface \<open>file_store\<close>, system calls).

  \<^bold>\<open>The parts of the SDK.\<close>
  \<^item> \<open>Errors\<close>: \<open>errors.go\<close>. Sentinels, error values as data, \<open>errors.Is\<close>, the centroid-mismatch test.
  \<^item> \<open>Preset_Map\<close>, \<open>Keys_Options\<close>: \<open>internal/crypto/presetmap.go\<close>, \<open>keysoptions.go\<close>.
  \<^item> \<open>Crypto_Cgo\<close>, \<open>Crypto_Provider\<close>: \<open>internal/crypto/cryptocgo.go\<close> and the parameter types of
    \<open>crypto.go\<close>. Contexts, envelopes, key generation, encryptor, decryptor, with every error path and
    every destruction of a C object.
  \<^item> \<open>Key_Bundles\<close>: \<open>keys.go\<close>. Slots, generation with its rollback, opening through a staged copy,
    use, closing, the reader of the evaluation key. \<open>Handle_Discipline\<close> replays the log of C calls over
    the live objects (\<open>trade\<close> is the contract of an operation that borrows, gives up and creates
    objects); \<open>Key_Frames\<close>, \<open>Key_Safety\<close>, \<open>Key_Generation\<close>, \<open>Key_Lifecycle\<close> and \<open>Key_Set_Types\<close> hold what the
    operations guarantee.
  \<^item> \<open>Wire\<close>: the messages of \<open>pkg/runespacepb/runespace.pb.go\<close> that the SDK reads or builds.
  \<^item> \<open>Clustering\<close>, \<open>Normalization\<close>: \<open>clustering.go\<close> and \<open>centroids.go\<close>. The centroid stream, assignment,
    normalization.
  \<^item> \<open>Client_Core\<close>: the client's state, the centroid cache, and the operations of \<open>client.go\<close> that are one
    RPC. \<open>Client_Options\<close>: \<open>clientoptions.go\<close>, \<open>Dial\<close> and the token interceptors.
  \<^item> \<open>Search_Path\<close>, \<open>Search_Results\<close>: \<open>Search\<close>, from the decrypted cells to the ranked, resolved,
    deduplicated matches. \<open>Insert_Path\<close>: \<open>Insert\<close> with its retries, and \<open>insertpre.go\<close>.
  \<^item> \<open>Key_Registration\<close>, \<open>Registration_Roundtrip\<close>: \<open>RegisterKeys\<close> and \<open>VerifyKeys\<close>.
  \<^item> \<open>Bundle_Lock\<close>: \<open>cryptoMu\<close> of \<open>keys.go\<close> and the \<open>RWMutex\<close> of encryptor and decryptor, as a step relation
    over any number of goroutines and finalizers; \<open>Bundle_Close\<close> ties it to the sequential model.
    \<open>Centroid_Cache\<close>: the two critical sections of \<open>centroidSetCached\<close>, as a step relation. \<open>Client_Mutex\<close>: the
    critical sections of \<open>Close\<close>, \<open>UseKeys\<close> and the guards of the operations, also where \<open>Close\<close> races with
    them, which the comment on \<open>Client\<close> asks callers to avoid.
  \<^item> \<open>Thread_Pinning\<close>: \<open>pinThread\<close> and the error buffers of the library, goroutines moving between OS
    threads. \<open>Error_Reports\<close>: a plan for every provider function, the list of its calls and checks, as a
    reference for the calls it makes and the error it returns. \<open>Object_Lifetimes\<close>: finalizers against
    \<open>runtime.KeepAlive\<close> and the deferred unlocks, with bundle, context, encryptor and decryptor as objects.
  \<^item> \<open>Client_Frames\<close>, \<open>Client_Session\<close>: the whole package. \<open>client_relation\<close> is the interface of a relation
    that the primitive steps keep; inside it every operation of the client is shown to keep it.
    \<open>session\<close> runs any sequence of calls of the package. \<open>Object_Accounting\<close> (C objects),
    \<open>Session_Properties\<close> (wire, connection, cache), \<open>Key_Set_Types\<close> (the shape of key sets) and
    \<open>Disk_Frames\<close> (files) are its interpretations.
  \<^item> \<open>Example_Programs\<close>: the two programs under \<open>examples/\<close>, with \<open>log.Fatalf\<close> skipping deferred calls.

  \<^bold>\<open>What is shown.\<close> Over sessions: no C object is leaked, used after free or freed twice; closing every key
  set frees every object; every key set stays well formed; files are written at the key paths of
  \<open>GenerateKeys\<close> and below the temporary directory only; a closed client sends nothing (with the exception
  the theorem names); a cached centroid set is stable. Over interleavings: calls into the library on
  one bundle are serialized and use live objects only, the two locks cannot deadlock, concurrent fetches
  of the centroid set converge, and an invalidation can be lost; a shared client closes its connection once
  and an operation keeps the key set it began with; every error message is that of the failing call of
  the goroutine that reports it, or what its own destructors left of it; no finalizer destroys an
  object that a call uses, the context included. Every provider function returns the error of its first
  failing call, with that call's name, status and message. Generation never overwrites,
  rolls back, succeeds when nothing fails, and leaves the documented layout. Registration round-trips
  and verification is sound. \<open>Search\<close> refines its abstract specification (rank, resolve, deduplicate, cut), is
  sound for every server and ends within a computed number of requests; \<open>Insert\<close> sends one and the same
  routed request up to three times. Where the code does not do what a comment or its purpose says, the
  theorem states what it does; the findings of the manifest list these places.

  \<^bold>\<open>Bounds and termination.\<close> No fuel is used: the read loops decrease the bytes left of the file, the
  resolution loop the candidates left, retries are counted down from \<open>maxAttempts\<close>, and each is a total
  function. Go's \<open>int\<close> is \<open>int\<close> with \<open>wrap64\<close> where the code can overflow, \<open>uint32\<close> is a 32-bit word.

  \<^bold>\<open>Not modelled.\<close> The evi C library, gRPC, the generated marshalling code and reflection data of
  \<open>runespace.pb.go\<close>, and the operating system beyond \<open>Os_Files\<close>: they are parameters, or their
  documented behaviour is a named hypothesis. The sequential model leaves out \<open>pinThread\<close>,
  \<open>runtime.KeepAlive\<close> and the mutexes, whose effects are the subject of the theories on interleavings;
  \<open>NewEncryptor\<close> and \<open>NewDecryptor\<close> destroy an object between a failing call and the reading of its
  message: what that does to the message is a parameter (\<open>c_destroyed\<close>, \<open>afterDestroy\<close>). \<open>C.GoBytes\<close> panics
  on a negative size, which a result of \<open>2 ^ 31\<close> bytes or more can give; the model returns no bytes there. The Go interfaces of \<open>internal/crypto/crypto.go\<close>
  have one implementation, which is called directly. What the examples print is left out. Contexts
  and deadlines are part of the environment: a cancelled call is one that fails.
\<close>

end
